(* ===== verification/Radrpc_Prelude.thy ===== *)
theory Radrpc_Prelude
  imports Main "HOL-Library.Word" "HOL-Library.AList" "HOL-Library.Signed_Division"
begin

text \<open>
  What every theory of the development shares: the machine types of the C++ sources, the
  error codes the handlers test, the clock, the buffer interface of the networking library
  (a parameter of the model), association lists as the model of \<^verbatim>\<open>std::map\<close> and
  \<^verbatim>\<open>std::unordered_map\<close>, and reachability with its invariant rule.
\<close>

section \<open>Machine types\<close>

type_synonym u8 = "8 word"
type_synonym u16 = "16 word"
type_synonym u32 = "32 word"
type_synonym u64 = "64 word"

text \<open>
  \<^verbatim>\<open>std::chrono::steady_clock\<close> counts nanoseconds in a signed 64-bit integer on the
  supported compilers, so a duration and a time point are 64-bit words read with
  \<^const>\<open>sint\<close>. \<^verbatim>\<open>duration_cast<milliseconds>\<close> truncates towards zero.
\<close>

type_synonym duration = "64 word"
type_synonym time_point = "64 word"

definition duration_zero :: duration where
  "duration_zero = 0"

definition duration_max :: duration where
  "duration_max = 0x7FFFFFFFFFFFFFFF"

definition milliseconds_count :: "duration \<Rightarrow> int" where
  "milliseconds_count d = sint d sdiv 1000000"

text \<open>The error codes: the handlers test only whether one is set and two of its values.\<close>

datatype error_code = No_error | Operation_aborted | Timed_out | Other_error nat

definition failed :: "error_code \<Rightarrow> bool" where
  "failed ec \<longleftrightarrow> ec \<noteq> No_error"

lemma failed_simps [simp]:
  "\<not> failed No_error" "failed Operation_aborted" "failed Timed_out" "failed (Other_error n)"
  by (simp_all add: failed_def)

lemma duration_max_sint [simp]: "sint duration_max = 2 ^ 63 - 1"
  by (simp add: duration_max_def)

lemma duration_zero_neq_max [simp]: "duration_zero \<noteq> duration_max" "duration_max \<noteq> duration_zero"
  by (simp_all add: duration_max_def duration_zero_def)

section \<open>The buffer of the networking library\<close>

text \<open>
  \<^verbatim>\<open>boost::beast::flat_buffer\<close> is not part of the sources. The model takes it as a
  parameter: a record of the operations the sources call, over any type of buffers.
  \<open>fb_bytes\<close> is what \<^verbatim>\<open>buffers_front(b.data())\<close> shows of a buffer, \<open>fb_consume\<close> is
  \<^verbatim>\<open>consume\<close>, \<open>fb_max_size\<close> sets the limit of a buffer and \<open>fb_new\<close> is the default constructed buffer. \<open>flat_buffer_laws\<close> is what the
  library documents of them.
\<close>

record 'b flat_buffer =
  fb_new :: 'b
  fb_bytes :: "'b \<Rightarrow> u8 list"
  fb_consume :: "'b \<Rightarrow> nat \<Rightarrow> 'b"
  fb_max_size :: "u64 \<Rightarrow> 'b \<Rightarrow> 'b"

definition fb_size :: "'b flat_buffer \<Rightarrow> 'b \<Rightarrow> nat" where
  "fb_size B b = length (fb_bytes B b)"

definition flat_buffer_laws :: "'b flat_buffer \<Rightarrow> bool" where
  "flat_buffer_laws B \<longleftrightarrow>
     fb_bytes B (fb_new B) = [] \<and>
     (\<forall>b n. fb_bytes B (fb_consume B b n) = drop n (fb_bytes B b)) \<and>
     (\<forall>b n. fb_bytes B (fb_max_size B n b) = fb_bytes B b)"

text \<open>An instance, for the witnesses: the buffer that is its readable bytes.\<close>

definition byte_buffer :: "u8 list flat_buffer" where
  "byte_buffer = \<lparr>fb_new = [], fb_bytes = (\<lambda>b. b), fb_consume = (\<lambda>b n. drop n b),
     fb_max_size = (\<lambda>n b. b)\<rparr>"

lemma flat_buffer_laws_byte_buffer [simp]: "flat_buffer_laws byte_buffer"
  by (simp add: flat_buffer_laws_def byte_buffer_def)

lemma byte_buffer_sel [simp]:
  "fb_new byte_buffer = []" "fb_bytes byte_buffer = (\<lambda>b. b)"
  "fb_consume byte_buffer = (\<lambda>b n. drop n b)" "fb_max_size byte_buffer n b = b" "fb_size byte_buffer = length"
  by (simp_all add: byte_buffer_def fb_size_def fun_eq_iff)

lemma flat_buffer_new: "flat_buffer_laws B \<Longrightarrow> fb_bytes B (fb_new B) = []"
  by (simp add: flat_buffer_laws_def)

lemma flat_buffer_consume:
  "flat_buffer_laws B \<Longrightarrow> fb_bytes B (fb_consume B b n) = drop n (fb_bytes B b)"
  by (simp add: flat_buffer_laws_def)

lemma flat_buffer_consume_all:
  "flat_buffer_laws B \<Longrightarrow> fb_bytes B (fb_consume B b (fb_size B b)) = []"
  by (simp add: flat_buffer_consume fb_size_def)

lemmas flat_buffer_simps = flat_buffer_new flat_buffer_consume flat_buffer_consume_all

section \<open>Association lists\<close>

text \<open>
  The maps of the sources are association lists with distinct keys: \<^const>\<open>map_of\<close> is
  \<^verbatim>\<open>find\<close>, \<^const>\<open>AList.update\<close> is assignment through \<^verbatim>\<open>operator[]\<close>,
  \<^const>\<open>AList.delete\<close> is \<^verbatim>\<open>erase\<close> and \<^const>\<open>length\<close> is \<^verbatim>\<open>size\<close>.
\<close>

definition distinct_keys :: "('k \<times> 'v) list \<Rightarrow> bool" where
  "distinct_keys al \<longleftrightarrow> distinct (map fst al)"

lemma distinct_keys_Nil [simp]: "distinct_keys []"
  by (simp add: distinct_keys_def)

lemma distinct_keys_update [simp]: "distinct_keys al \<Longrightarrow> distinct_keys (AList.update k v al)"
  by (simp add: distinct_keys_def distinct_update)

lemma distinct_keys_delete [simp]: "distinct_keys al \<Longrightarrow> distinct_keys (AList.delete k al)"
  by (simp add: distinct_keys_def distinct_delete)

lemma distinct_keys_filter [simp]: "distinct_keys al \<Longrightarrow> distinct_keys (filter P al)"
  by (induction al) (auto simp: distinct_keys_def)

lemma length_update_fresh [simp]:
  "k \<notin> dom (map_of al) \<Longrightarrow> length (AList.update k v al) = Suc (length al)"
  by (induction al) auto

lemma length_delete_present:
  "distinct_keys al \<Longrightarrow> k \<in> dom (map_of al) \<Longrightarrow> Suc (length (AList.delete k al)) = length al"
proof (induction al)
  case Nil
  then show ?case by simp
next
  case (Cons a al)
  show ?case
  proof (cases "fst a = k")
    case True
    with Cons.prems have "k \<notin> fst ` set al"
      by (auto simp: distinct_keys_def)
    then have "AList.delete k al = al"
      by (induction al) auto
    with True show ?thesis by (cases a) simp
  next
    case False
    with Cons show ?thesis by (cases a) (simp add: distinct_keys_def domIff)
  qed
qed

lemma map_of_filter_distinct:
  "distinct_keys al \<Longrightarrow>
   map_of (filter P al) k =
     (case map_of al k of None \<Rightarrow> None | Some v \<Rightarrow> if P (k, v) then Some v else None)"
  by (induction al) (auto simp: distinct_keys_def map_of_eq_None_iff image_iff split: option.splits)

lemma update_fresh: "k \<notin> fst ` set al \<Longrightarrow> AList.update k v al = al @ [(k, v)]"
  by (induction al) auto

lemma length_update_le: "length (AList.update k v al) \<le> Suc (length al)"
  by (induction al) auto

lemma snd_update_subset: "snd ` set (AList.update k v al) \<subseteq> insert v (snd ` set al)"
  by (induction al) auto

lemma distinct_snd_update:
  "distinct (map snd al) \<Longrightarrow> v \<notin> snd ` set al \<Longrightarrow> distinct (map snd (AList.update k v al))"
proof (induction al)
  case Nil
  then show ?case by simp
next
  case (Cons a al)
  then show ?case using snd_update_subset [of k v al] by (cases a) auto
qed

lemma snd_delete_subset: "snd ` set (AList.delete k al) \<subseteq> snd ` set al"
  by (auto simp: AList.delete_eq)

lemma distinct_snd_delete: "distinct (map snd al) \<Longrightarrow> distinct (map snd (AList.delete k al))"
  by (induction al) (auto simp: AList.delete_eq)

lemma map_of_inject_values:
  assumes "distinct (map snd al)" and "map_of al i = Some v" and "map_of al j = Some v"
  shows "i = j"
proof -
  from assms(2,3) have "(i, v) \<in> set al" "(j, v) \<in> set al" by (auto dest: map_of_SomeD)
  with assms(1) show ?thesis by (metis distinct_map inj_on_def prod.inject snd_conv)
qed

lemma alist_eqI:
  "map fst xs = map fst ys \<Longrightarrow> distinct_keys ys \<Longrightarrow> map_of xs = map_of ys \<Longrightarrow> xs = ys"
proof (induction xs arbitrary: ys)
  case (Cons x xs)
  then obtain y ys' where ys: "ys = y # ys'" "fst x = fst y" "map fst xs = map fst ys'" by (cases ys) auto
  from Cons.prems(3) ys have "snd x = snd y" by (metis map_of_Cons_code(2) option.inject prod.collapse)
  moreover have "map_of xs = map_of ys'"
  proof
    fix k
    show "map_of xs k = map_of ys' k"
    proof (cases "k = fst y")
      case True
      with Cons.prems(2) ys have "k \<notin> fst ` set ys'" by (simp add: distinct_keys_def)
      moreover have "fst ` set xs = fst ` set ys'" using ys(3) by (metis set_map)
      ultimately show ?thesis by (metis map_of_eq_None_iff)
    next
      case False
      with Cons.prems(3) ys show ?thesis by (metis map_of_Cons_code(2) prod.collapse)
    qed
  qed
  ultimately show ?case
    using Cons.IH [OF ys(3)] Cons.prems(2) ys(1,2) by (simp add: distinct_keys_def prod_eq_iff)
qed simp

section \<open>Reachable states and invariants\<close>

text \<open>
  A component that reacts to completion handlers is a transition system: \<open>init\<close> tells the
  states its constructor may build and \<open>step s e t\<close> that the handler for event \<open>e\<close> leads from
  \<open>s\<close> to \<open>t\<close>.
\<close>

inductive reachable :: "('s \<Rightarrow> bool) \<Rightarrow> ('s \<Rightarrow> 'e \<Rightarrow> 's \<Rightarrow> bool) \<Rightarrow> 's \<Rightarrow> bool"
  for init :: "'s \<Rightarrow> bool" and step :: "'s \<Rightarrow> 'e \<Rightarrow> 's \<Rightarrow> bool"
where
  reach_init: "init s \<Longrightarrow> reachable init step s"
| reach_step: "reachable init step s \<Longrightarrow> step s e t \<Longrightarrow> reachable init step t"

locale invariant_system =
  fixes init :: "'s \<Rightarrow> bool"
    and step :: "'s \<Rightarrow> 'e \<Rightarrow> 's \<Rightarrow> bool"
    and inv :: "'s \<Rightarrow> bool"
  assumes inv_init: "init s \<Longrightarrow> inv s"
    and inv_step: "inv s \<Longrightarrow> step s e t \<Longrightarrow> inv t"
begin

lemma reachable_inv: "reachable init step s \<Longrightarrow> inv s"
  by (induction rule: reachable.induct) (auto intro: inv_init inv_step)

end

end
