(* ===== verification/Radrpc_Types.thy ===== *)
theory Radrpc_Types
  imports Radrpc_Prelude
begin

text \<open>
  The public types of \<^verbatim>\<open>include/radrpc/types.hpp\<close> and the constants of
  \<^verbatim>\<open>include/radrpc/config.hpp\<close>: connection states, the configuration classes with their
  default constructors, the \<^verbatim>\<open>server_mode\<close> flags and the \<^verbatim>\<open>receive_buffer\<close> wrapper.
\<close>

unbundle bit_operations_syntax

section \<open>Constants\<close>

definition deadlock_secs :: int where
  "deadlock_secs = 30"

definition io_timeout_secs :: nat where
  "io_timeout_secs = 5"

definition queue_send_max :: nat where
  "queue_send_max = 500"

definition queue_recv_max :: nat where
  "queue_recv_max = 500"

section \<open>Connection states\<close>

datatype connection_state =
    Conn_none | Conn_accept | Conn_resolve | Conn_connect | Conn_ssl_handshake
  | Conn_read_handshake | Conn_handshake | Conn_established

text \<open>The underlying value of an enumerator: its position in the declaration.\<close>

fun connection_state_value :: "connection_state \<Rightarrow> nat" where
  "connection_state_value Conn_none = 0"
| "connection_state_value Conn_accept = 1"
| "connection_state_value Conn_resolve = 2"
| "connection_state_value Conn_connect = 3"
| "connection_state_value Conn_ssl_handshake = 4"
| "connection_state_value Conn_read_handshake = 5"
| "connection_state_value Conn_handshake = 6"
| "connection_state_value Conn_established = 7"

lemma connection_state_value_inject:
  "connection_state_value a = connection_state_value b \<longleftrightarrow> a = b"
  by (cases a; cases b) simp_all

instantiation connection_state :: linorder
begin

definition less_eq_connection_state :: "connection_state \<Rightarrow> connection_state \<Rightarrow> bool" where
  "a \<le> b \<longleftrightarrow> connection_state_value a \<le> connection_state_value b"

definition less_connection_state :: "connection_state \<Rightarrow> connection_state \<Rightarrow> bool" where
  "a < b \<longleftrightarrow> connection_state_value a < connection_state_value b"

instance
  by standard
    (auto simp: less_eq_connection_state_def less_connection_state_def connection_state_value_inject)

end

lemmas connection_state_order = less_eq_connection_state_def less_connection_state_def

lemma Conn_established_top [simp]: "s \<le> Conn_established"
  by (cases s) (simp_all add: connection_state_order)

section \<open>Configurations\<close>

record client_config =
  cc_host_address :: string
  cc_port :: u16
  cc_max_read_bytes :: u64
  cc_send_attempts :: u32
  cc_send_attempt_delay :: duration

definition client_config_default :: client_config where
  "client_config_default =
     \<lparr>cc_host_address = '''', cc_port = 0, cc_max_read_bytes = 0, cc_send_attempts = 0,
      cc_send_attempt_delay = duration_zero\<rparr>"

record client_timeout =
  ct_handshake_timeout :: duration
  ct_send_timeout :: duration
  ct_response_timeout :: duration

definition client_timeout_default :: client_timeout where
  "client_timeout_default =
     \<lparr>ct_handshake_timeout = duration_max, ct_send_timeout = duration_max,
      ct_response_timeout = duration_max\<rparr>"

type_synonym server_mode = u8

definition mode_plain :: server_mode where
  "mode_plain = push_bit 0 1"

definition mode_ssl :: server_mode where
  "mode_ssl = push_bit 1 1"

definition server_mode_or :: "server_mode \<Rightarrow> server_mode \<Rightarrow> server_mode" where
  "server_mode_or lhs rhs = lhs OR rhs"

definition server_mode_and :: "server_mode \<Rightarrow> server_mode \<Rightarrow> bool" where
  "server_mode_and lhs rhs \<longleftrightarrow> lhs AND rhs \<noteq> 0"

record server_config =
  sc_host_address :: string
  sc_port :: u16
  sc_workers :: u32
  sc_max_sessions :: u32
  sc_max_handshake_bytes :: u64
  sc_mode :: server_mode

definition server_config_default :: server_config where
  "server_config_default =
     \<lparr>sc_host_address = '''', sc_port = 0, sc_workers = 0, sc_max_sessions = 0,
      sc_max_handshake_bytes = 0, sc_mode = mode_plain\<rparr>"

record server_timeout =
  st_handshake_or_close_timeout :: duration

definition server_timeout_default :: server_timeout where
  "server_timeout_default = \<lparr>st_handshake_or_close_timeout = duration_max\<rparr>"

record session_config =
  sg_max_transfer_bytes :: u64
  sg_ping_delay :: duration

definition session_config_default :: session_config where
  "session_config_default = \<lparr>sg_max_transfer_bytes = 0, sg_ping_delay = duration_zero\<rparr>"

section \<open>The receive buffer wrapper\<close>

text \<open>\<^verbatim>\<open>receive_buffer\<close> derives from the library's buffer and adds no state.\<close>

definition receive_buffer_data :: "'b flat_buffer \<Rightarrow> 'b \<Rightarrow> u8 list" where
  "receive_buffer_data B b = fb_bytes B b"

definition receive_buffer_size :: "'b flat_buffer \<Rightarrow> 'b \<Rightarrow> nat" where
  "receive_buffer_size B b = length (fb_bytes B b)"

definition receive_buffer_clear :: "'b flat_buffer \<Rightarrow> 'b \<Rightarrow> 'b" where
  "receive_buffer_clear B b = fb_consume B b (fb_size B b)"

definition receive_buffer_empty :: "'b flat_buffer \<Rightarrow> 'b \<Rightarrow> bool" where
  "receive_buffer_empty B b \<longleftrightarrow> length (fb_bytes B b) = 0"

definition receive_buffer_bool :: "'b flat_buffer \<Rightarrow> 'b \<Rightarrow> bool" where
  "receive_buffer_bool B b \<longleftrightarrow> \<not> receive_buffer_empty B b"

lemma receive_buffer_clear_empty:
  "flat_buffer_laws B \<Longrightarrow> receive_buffer_empty B (receive_buffer_clear B b)"
  by (simp add: receive_buffer_empty_def receive_buffer_clear_def fb_size_def flat_buffer_consume)

section \<open>Server modes\<close>

lemma server_mode_and_bit:
  "server_mode_and m mode_plain \<longleftrightarrow> bit m 0"
  "server_mode_and m mode_ssl \<longleftrightarrow> bit m 1"
  using and_exp_eq_0_iff_not_bit [of m 0] and_exp_eq_0_iff_not_bit [of m 1]
  by (simp_all add: server_mode_and_def mode_plain_def mode_ssl_def)

lemma server_mode_or_and:
  "server_mode_and (server_mode_or a b) mode_plain \<longleftrightarrow>
     server_mode_and a mode_plain \<or> server_mode_and b mode_plain"
  "server_mode_and (server_mode_or a b) mode_ssl \<longleftrightarrow>
     server_mode_and a mode_ssl \<or> server_mode_and b mode_ssl"
  by (simp_all add: server_mode_and_bit server_mode_or_def bit_or_iff)

end
