(* ===== verification/Io_Header.thy ===== *)
theory Io_Header
  imports Radrpc_Types
begin

text \<open>
  The packed \<^verbatim>\<open>io_header\<close> of \<^verbatim>\<open>include/radrpc/detail/data.hpp\<close> and the bytes both peers
  exchange: the header is sent by reinterpreting the structure as bytes and received by
  reinterpreting the bytes as the structure, so the layout follows the byte order of the
  host, which is a parameter.
\<close>

section \<open>Integers in memory\<close>

datatype endian = Little | Big

fun bytes_le :: "nat \<Rightarrow> 'a::len word \<Rightarrow> u8 list" where
  "bytes_le 0 w = []"
| "bytes_le (Suc n) w = ucast w # bytes_le n (drop_bit 8 w)"

fun word_le :: "u8 list \<Rightarrow> 'a::len word" where
  "word_le [] = 0"
| "word_le (b # bs) = or (ucast b) (push_bit 8 (word_le bs))"

definition object_bytes :: "endian \<Rightarrow> nat \<Rightarrow> 'a::len word \<Rightarrow> u8 list" where
  "object_bytes e n w = (case e of Little \<Rightarrow> bytes_le n w | Big \<Rightarrow> rev (bytes_le n w))"

definition object_of_bytes :: "endian \<Rightarrow> u8 list \<Rightarrow> 'a::len word" where
  "object_of_bytes e bs = (case e of Little \<Rightarrow> word_le bs | Big \<Rightarrow> word_le (rev bs))"

section \<open>The header\<close>

record io_header =
  call_id :: u32
  pad0 :: u32
  result_id :: u64

definition io_header_new :: "u32 \<Rightarrow> u64 \<Rightarrow> io_header" where
  "io_header_new p_call_id p_result_id =
     \<lparr>call_id = p_call_id, pad0 = 0, result_id = p_result_id\<rparr>"

definition sizeof_io_header :: nat where
  "sizeof_io_header = 4 + 4 + 8"

definition io_header_bytes :: "endian \<Rightarrow> io_header \<Rightarrow> u8 list" where
  "io_header_bytes e h =
     object_bytes e 4 (call_id h) @ object_bytes e 4 (pad0 h) @ object_bytes e 8 (result_id h)"

definition io_header_of_bytes :: "endian \<Rightarrow> u8 list \<Rightarrow> io_header" where
  "io_header_of_bytes e bs =
     \<lparr>call_id = object_of_bytes e (take 4 bs),
      pad0 = object_of_bytes e (take 4 (drop 4 bs)),
      result_id = object_of_bytes e (take 8 (drop 8 bs))\<rparr>"

section \<open>Round trips\<close>

lemma length_bytes_le [simp]: "length (bytes_le n w) = n"
  by (induction n arbitrary: w) auto

lemma bit_word_le:
  "bit (word_le bs :: 'a::len word) i \<longleftrightarrow>
     i < LENGTH('a) \<and> i div 8 < length bs \<and> bit (bs ! (i div 8)) (i mod 8)"
proof (induction bs arbitrary: i)
  case Nil
  show ?case by simp
next
  case (Cons b bs)
  show ?case
  proof (cases "i < 8")
    case True
    then show ?thesis by (simp add: bit_or_iff bit_push_bit_iff bit_ucast_iff)
  next
    case False
    then obtain j where j: "i = j + 8" by (metis le_add_diff_inverse2 not_less)
    have "\<not> bit b i" using False by (simp add: bit_iff_odd_drop_bit not_less)
    moreover have "(j + 8) div 8 = Suc (j div 8)" by simp
    ultimately show ?thesis
      using j by (auto simp: bit_or_iff bit_push_bit_iff bit_ucast_iff Cons.IH)
  qed
qed

lemma nth_bytes_le: "i < n \<Longrightarrow> bytes_le n w ! i = ucast (drop_bit (8 * i) w)"
proof (induction n arbitrary: w i)
  case 0
  then show ?case by simp
next
  case (Suc n)
  then show ?case by (cases i) (simp_all add: algebra_simps)
qed

lemma word_le_bytes_le:
  assumes "LENGTH('a) = 8 * n"
  shows "word_le (bytes_le n (w :: 'a::len word)) = w"
proof (rule bit_word_eqI)
  fix i
  assume i: "i < LENGTH('a)"
  then have "i div 8 < n" using assms by simp
  moreover have "8 * (i div 8) + i mod 8 = i" by simp
  ultimately show "bit (word_le (bytes_le n w) :: 'a word) i = bit w i"
    using i by (simp add: bit_word_le nth_bytes_le bit_ucast_iff bit_drop_bit_eq)
qed

lemma bytes_le_word_le:
  assumes "LENGTH('a) = 8 * length bs"
  shows "bytes_le (length bs) (word_le bs :: 'a::len word) = bs"
proof (rule nth_equalityI)
  show "length (bytes_le (length bs) (word_le bs :: 'a word)) = length bs" by simp
next
  fix i
  assume "i < length (bytes_le (length bs) (word_le bs :: 'a word))"
  then have i: "i < length bs" by simp
  show "bytes_le (length bs) (word_le bs :: 'a word) ! i = bs ! i"
  proof (rule bit_word_eqI)
    fix j
    assume j: "j < LENGTH(8)"
    with i assms have "8 * i + j < LENGTH('a)" by simp
    with i j show "bit (bytes_le (length bs) (word_le bs :: 'a word) ! i) j = bit (bs ! i) j"
      by (simp add: nth_bytes_le bit_ucast_iff bit_drop_bit_eq bit_word_le)
  qed
qed

lemma length_object_bytes [simp]: "length (object_bytes e n w) = n"
  by (simp add: object_bytes_def split: endian.split)

lemma object_of_bytes_object_bytes:
  "LENGTH('a) = 8 * n \<Longrightarrow> object_of_bytes e (object_bytes e n (w :: 'a::len word)) = w"
  by (simp add: object_bytes_def object_of_bytes_def word_le_bytes_le split: endian.split)

lemma object_bytes_object_of_bytes:
  assumes "LENGTH('a) = 8 * n" and "length bs = n"
  shows "object_bytes e n (object_of_bytes e bs :: 'a::len word) = bs"
proof (cases e)
  case Little
  with assms bytes_le_word_le [of bs, where 'a = 'a] show ?thesis
    by (simp add: object_bytes_def object_of_bytes_def)
next
  case Big
  with assms bytes_le_word_le [of "rev bs", where 'a = 'a] show ?thesis
    by (simp add: object_bytes_def object_of_bytes_def)
qed

lemma length_io_header_bytes [simp]: "length (io_header_bytes e h) = sizeof_io_header"
  by (simp add: io_header_bytes_def sizeof_io_header_def)

lemma io_header_of_bytes_append:
  "io_header_of_bytes e (io_header_bytes e h @ body) = h"
  by (simp add: io_header_of_bytes_def io_header_bytes_def object_of_bytes_object_bytes)

lemma io_header_bytes_of_bytes:
  assumes "sizeof_io_header \<le> length bs"
  shows "io_header_bytes e (io_header_of_bytes e bs) = take sizeof_io_header bs"
proof -
  have "take sizeof_io_header bs = take 4 bs @ take 4 (drop 4 bs) @ take 8 (drop 8 bs)"
    by (simp add: sizeof_io_header_def take_add flip: append_assoc drop_drop)
      (metis (no_types) add.commute append.assoc drop_drop numeral_Bit0 take_add)
  with assms show ?thesis
    by (simp add: io_header_bytes_def io_header_of_bytes_def sizeof_io_header_def
        object_bytes_object_of_bytes)
qed

end
