(* ===== verification/Data_Cache.thy ===== *)
theory Data_Cache
  imports Io_Header
begin

text \<open>
  \<^verbatim>\<open>data_read\<close> and \<^verbatim>\<open>data_cache\<close> of \<^verbatim>\<open>include/radrpc/detail/data.hpp\<close>: the table of
  responses a client waits for. Every member function locks \<^verbatim>\<open>m_mtx\<close> for its whole body,
  so each is one atomic operation; \<^verbatim>\<open>wait\<close> releases the lock before it blocks on the row, so
  it has two parts. Rows are shared objects: a waiting function keeps its row after the table
  has dropped it, so the rows live in a store (\<open>dc_rows\<close>) and the table maps an id to the
  position of its row.
\<close>

section \<open>Data\<close>

datatype data_state = Queued | Waiting | Swapped

text \<open>
  \<open>dr_notified\<close> records that \<^verbatim>\<open>cv.notify_all()\<close> was called on the row. A blocked
  \<^verbatim>\<open>wait\<close> resumes when it was notified or when its timeout has passed.
\<close>

record 'b data_read =
  dr_timestamp :: time_point
  dr_valid_ms :: int
  dr_state :: data_state
  dr_read_buffer :: 'b
  dr_notified :: bool

definition data_read_new :: "'b flat_buffer \<Rightarrow> time_point \<Rightarrow> duration \<Rightarrow> 'b data_read" where
  "data_read_new B p_timestamp p_valid =
     \<lparr>dr_timestamp = p_timestamp, dr_valid_ms = milliseconds_count p_valid, dr_state = Queued,
      dr_read_buffer = fb_new B, dr_notified = False\<rparr>"

definition data_read_valid :: "time_point \<Rightarrow> 'b data_read \<Rightarrow> bool" where
  "data_read_valid now r \<longleftrightarrow> milliseconds_count (now - dr_timestamp r) < dr_valid_ms r"

type_synonym row_ref = nat

record 'b data_cache =
  dc_max_entries :: nat
  dc_id_counter :: u64
  dc_entries :: "(u64 \<times> row_ref) list"
  dc_rows :: "'b data_read list"

definition data_cache_new :: "nat \<Rightarrow> 'b data_cache" where
  "data_cache_new p_max_entries =
     \<lparr>dc_max_entries = p_max_entries, dc_id_counter = 0, dc_entries = [], dc_rows = []\<rparr>"

section \<open>Operations\<close>

definition data_cache_queue ::
  "'b flat_buffer \<Rightarrow> time_point \<Rightarrow> duration \<Rightarrow> 'b data_cache \<Rightarrow> u64 \<times> 'b data_cache" where
  "data_cache_queue B now valid c =
     (if dc_max_entries c \<le> length (dc_entries c) then (0, c)
      else let i = dc_id_counter c + 1 in
        (i, c\<lparr>dc_id_counter := i,
              dc_entries := AList.update i (length (dc_rows c)) (dc_entries c),
              dc_rows := dc_rows c @ [data_read_new B now valid]\<rparr>))"

text \<open>
  The first part of \<^verbatim>\<open>wait\<close>, under the table lock: the id is unknown, the row is already
  swapped, or the function blocks on the row.
\<close>

datatype wait_begin = Wait_missing | Wait_ready row_ref | Wait_blocked row_ref

definition data_cache_wait_begin :: "u64 \<Rightarrow> 'b data_cache \<Rightarrow> wait_begin \<times> 'b data_cache" where
  "data_cache_wait_begin i c =
     (case map_of (dc_entries c) i of
        None \<Rightarrow> (Wait_missing, c)
      | Some r \<Rightarrow>
          if dr_state (dc_rows c ! r) = Swapped
          then (Wait_ready r, c\<lparr>dc_entries := AList.delete i (dc_entries c)\<rparr>)
          else (Wait_blocked r,
                c\<lparr>dc_rows := (dc_rows c)[r := (dc_rows c ! r)\<lparr>dr_state := Waiting\<rparr>]\<rparr>))"

text \<open>
  The second part: the blocked function returns the value of the predicate of
  \<^verbatim>\<open>wait_for\<close>. \<open>during\<close> is what the other threads do to the cache until it returns.
\<close>

definition data_cache_swapped :: "row_ref \<Rightarrow> 'b data_cache \<Rightarrow> bool" where
  "data_cache_swapped r c \<longleftrightarrow> dr_state (dc_rows c ! r) = Swapped"

definition data_cache_wait ::
  "u64 \<Rightarrow> ('b data_cache \<Rightarrow> 'b data_cache) \<Rightarrow> 'b data_cache \<Rightarrow>
   bool \<times> row_ref option \<times> 'b data_cache" where
  "data_cache_wait i during c =
     (case data_cache_wait_begin i c of
        (Wait_missing, c1) \<Rightarrow> (False, None, c1)
      | (Wait_ready r, c1) \<Rightarrow> (True, Some r, c1)
      | (Wait_blocked r, c1) \<Rightarrow>
          (let c2 = during c1 in (data_cache_swapped r c2, Some r, c2)))"

definition data_cache_take :: "row_ref \<Rightarrow> 'b \<Rightarrow> 'b data_cache \<Rightarrow> 'b \<times> 'b data_cache" where
  "data_cache_take r buffer c =
     (dr_read_buffer (dc_rows c ! r),
      c\<lparr>dc_rows := (dc_rows c)[r := (dc_rows c ! r)\<lparr>dr_read_buffer := buffer\<rparr>]\<rparr>)"

definition data_cache_wait_buffer ::
  "u64 \<Rightarrow> ('b data_cache \<Rightarrow> 'b data_cache) \<Rightarrow> 'b \<Rightarrow> 'b data_cache \<Rightarrow>
   bool \<times> 'b \<times> 'b data_cache" where
  "data_cache_wait_buffer i during buffer c =
     (case data_cache_wait i during c of
        (success, None, c1) \<Rightarrow> (success, buffer, c1)
      | (success, Some r, c1) \<Rightarrow>
          (case data_cache_take r buffer c1 of (b, c2) \<Rightarrow> (success, b, c2)))"

definition data_cache_swap_notify ::
  "'b flat_buffer \<Rightarrow> u64 \<Rightarrow> 'b \<Rightarrow> 'b data_cache \<Rightarrow> 'b \<times> 'b data_cache" where
  "data_cache_swap_notify B i buffer c =
     (case map_of (dc_entries c) i of
        None \<Rightarrow> (buffer, c)
      | Some r \<Rightarrow>
          let row = dc_rows c ! r;
              row1 = row\<lparr>dr_read_buffer := buffer, dr_state := Swapped\<rparr>
          in (fb_new B,
              if dr_state row = Waiting
              then c\<lparr>dc_rows := (dc_rows c)[r := row1\<lparr>dr_notified := True\<rparr>],
                     dc_entries := AList.delete i (dc_entries c)\<rparr>
              else c\<lparr>dc_rows := (dc_rows c)[r := row1]\<rparr>))"

fun remove_obsolete_loop ::
  "time_point \<Rightarrow> 'b data_read list \<Rightarrow> (u64 \<times> row_ref) list \<Rightarrow> (u64 \<times> row_ref) list" where
  "remove_obsolete_loop now rows [] = []"
| "remove_obsolete_loop now rows ((i, r) # es) =
     (if \<not> data_read_valid now (rows ! r) then remove_obsolete_loop now rows es
      else (i, r) # remove_obsolete_loop now rows es)"

definition data_cache_remove_obsolete :: "time_point \<Rightarrow> 'b data_cache \<Rightarrow> 'b data_cache" where
  "data_cache_remove_obsolete now c =
     c\<lparr>dc_entries := remove_obsolete_loop now (dc_rows c) (dc_entries c)\<rparr>"

definition data_cache_size :: "'b data_cache \<Rightarrow> nat" where
  "data_cache_size c = length (dc_entries c)"

fun clear_loop :: "(u64 \<times> row_ref) list \<Rightarrow> 'b data_read list \<Rightarrow> 'b data_read list" where
  "clear_loop [] rows = rows"
| "clear_loop ((i, r) # es) rows =
     clear_loop es (rows[r := (rows ! r)\<lparr>dr_state := Swapped, dr_notified := True\<rparr>])"

definition data_cache_clear :: "'b data_cache \<Rightarrow> 'b data_cache" where
  "data_cache_clear c =
     c\<lparr>dc_rows := clear_loop (dc_entries c) (dc_rows c), dc_entries := []\<rparr>"

section \<open>Interleavings\<close>

text \<open>The atomic operations of all threads, and the run of a sequence of them.\<close>

datatype 'b cache_op =
    Op_queue time_point duration
  | Op_wait_begin u64
  | Op_take row_ref 'b
  | Op_swap_notify u64 'b
  | Op_remove_obsolete time_point
  | Op_clear

fun cache_exec :: "'b flat_buffer \<Rightarrow> 'b cache_op \<Rightarrow> 'b data_cache \<Rightarrow> 'b data_cache" where
  "cache_exec B (Op_queue now valid) c = snd (data_cache_queue B now valid c)"
| "cache_exec B (Op_wait_begin i) c = snd (data_cache_wait_begin i c)"
| "cache_exec B (Op_take r b) c = snd (data_cache_take r b c)"
| "cache_exec B (Op_swap_notify i b) c = snd (data_cache_swap_notify B i b c)"
| "cache_exec B (Op_remove_obsolete now) c = data_cache_remove_obsolete now c"
| "cache_exec B Op_clear c = data_cache_clear c"

definition cache_run :: "'b flat_buffer \<Rightarrow> 'b cache_op list \<Rightarrow> 'b data_cache \<Rightarrow> 'b data_cache" where
  "cache_run B ops c = fold (cache_exec B) ops c"

section \<open>Invariant\<close>

definition cache_inv :: "'b data_cache \<Rightarrow> bool" where
  "cache_inv c \<longleftrightarrow>
     distinct_keys (dc_entries c) \<and>
     distinct (map snd (dc_entries c)) \<and>
     length (dc_entries c) \<le> dc_max_entries c \<and>
     (\<forall>r \<in> snd ` set (dc_entries c). r < length (dc_rows c))"

text \<open>What a client of the table sees of an id: the state and the buffer of its row.\<close>

definition cache_view :: "'b data_cache \<Rightarrow> u64 \<Rightarrow> (data_state \<times> 'b) option" where
  "cache_view c i =
     map_option (\<lambda>r. (dr_state (dc_rows c ! r), dr_read_buffer (dc_rows c ! r)))
       (map_of (dc_entries c) i)"

definition ids_bounded :: "'b data_cache \<Rightarrow> bool" where
  "ids_bounded c \<longleftrightarrow> (\<forall>i \<in> fst ` set (dc_entries c). 0 < i \<and> i \<le> dc_id_counter c)"

lemmas data_cache_defs =
  data_cache_queue_def data_cache_wait_begin_def data_cache_take_def
  data_cache_swap_notify_def data_cache_remove_obsolete_def data_cache_clear_def


section \<open>The loops\<close>

lemma remove_obsolete_loop_filter:
  "remove_obsolete_loop now rows es = filter (\<lambda>(i, r). data_read_valid now (rows ! r)) es"
  by (induction now rows es rule: remove_obsolete_loop.induct) auto

lemma length_clear_loop [simp]: "length (clear_loop es rows) = length rows"
  by (induction es rows rule: clear_loop.induct) auto

lemma clear_loop_other: "r \<notin> snd ` set es \<Longrightarrow> clear_loop es rows ! r = rows ! r"
  by (induction es rows rule: clear_loop.induct) auto

lemma clear_loop_row:
  "r \<in> snd ` set es \<Longrightarrow> r < length rows \<Longrightarrow>
   clear_loop es rows ! r = (rows ! r)\<lparr>dr_state := Swapped, dr_notified := True\<rparr>"
proof (induction es rows rule: clear_loop.induct)
  case (1 rows)
  then show ?case by simp
next
  case (2 i r' es rows)
  show ?case
  proof (cases "r \<in> snd ` set es")
    case True
    with 2 show ?thesis by (cases "r = r'") auto
  next
    case False
    with 2 show ?thesis by (auto simp: clear_loop_other)
  qed
qed

section \<open>Every operation keeps the invariant\<close>

lemma cache_invD:
  assumes "cache_inv c" and "map_of (dc_entries c) i = Some r"
  shows "r < length (dc_rows c)" and "map_of (dc_entries c) j = Some r \<Longrightarrow> j = i"
proof -
  from assms have "(i, r) \<in> set (dc_entries c)" by (simp add: map_of_SomeD)
  with assms(1) show "r < length (dc_rows c)" by (fastforce simp: cache_inv_def)
  show "j = i" if "map_of (dc_entries c) j = Some r"
    using map_of_inject_values [OF _ that assms(2)] assms(1) by (simp add: cache_inv_def)
qed

lemma cache_inv_new: "cache_inv (data_cache_new n)"
  by (simp add: cache_inv_def data_cache_new_def)

lemma cache_inv_queue: "cache_inv c \<Longrightarrow> cache_inv (snd (data_cache_queue B now valid c))"
  using snd_update_subset [of "dc_id_counter c + 1" "length (dc_rows c)" "dc_entries c"]
    length_update_le [of "dc_id_counter c + 1" "length (dc_rows c)" "dc_entries c"]
  by (fastforce simp: data_cache_queue_def cache_inv_def Let_def intro!: distinct_snd_update)

lemma cache_inv_delete:
  "cache_inv c \<Longrightarrow> cache_inv (c\<lparr>dc_entries := AList.delete i (dc_entries c)\<rparr>)"
  using snd_delete_subset [of i "dc_entries c"] length_delete_le [of i "dc_entries c"]
  by (fastforce simp: cache_inv_def distinct_snd_delete)

lemma cache_inv_rows:
  "cache_inv c \<Longrightarrow> length rows = length (dc_rows c) \<Longrightarrow> cache_inv (c\<lparr>dc_rows := rows\<rparr>)"
  by (simp add: cache_inv_def)

lemma cache_inv_wait_begin: "cache_inv c \<Longrightarrow> cache_inv (snd (data_cache_wait_begin i c))"
  by (simp add: data_cache_wait_begin_def cache_inv_delete cache_inv_rows split: option.split)

lemma cache_inv_take: "cache_inv c \<Longrightarrow> cache_inv (snd (data_cache_take r b c))"
  by (simp add: data_cache_take_def cache_inv_rows)

lemma cache_inv_swap_notify:
  assumes "cache_inv c"
  shows "cache_inv (snd (data_cache_swap_notify B i b c))"
proof -
  have "cache_inv (c\<lparr>dc_rows := rows, dc_entries := AList.delete i (dc_entries c)\<rparr>)"
    if "length rows = length (dc_rows c)" for rows
    using cache_inv_delete [OF cache_inv_rows [OF assms that]] by simp
  with assms show ?thesis
    by (simp add: data_cache_swap_notify_def Let_def cache_inv_rows split: option.split)
qed

lemma cache_inv_remove_obsolete: "cache_inv c \<Longrightarrow> cache_inv (data_cache_remove_obsolete now c)"
  by (auto simp: data_cache_remove_obsolete_def cache_inv_def remove_obsolete_loop_filter
      intro: distinct_map_filter length_filter_le [THEN order_trans])

lemma cache_inv_clear: "cache_inv (data_cache_clear c)"
  by (simp add: data_cache_clear_def cache_inv_def)

lemma cache_inv_exec: "cache_inv c \<Longrightarrow> cache_inv (cache_exec B op c)"
  by (cases op)
    (simp_all add: cache_inv_queue cache_inv_wait_begin cache_inv_take cache_inv_swap_notify
      cache_inv_remove_obsolete cache_inv_clear)

lemma cache_inv_run: "cache_inv c \<Longrightarrow> cache_inv (cache_run B ops c)"
  by (induction ops arbitrary: c) (simp_all add: cache_run_def cache_inv_exec)

lemma dc_max_entries_exec [simp]: "dc_max_entries (cache_exec B op c) = dc_max_entries c"
  by (cases op) (auto simp: data_cache_defs Let_def split: option.split)

lemma dc_max_entries_run [simp]: "dc_max_entries (cache_run B ops c) = dc_max_entries c"
  by (induction ops arbitrary: c) (simp_all add: cache_run_def)


section \<open>Identifiers\<close>

text \<open>
  The counter is a 64-bit word. Until it wraps, which takes \<open>2 ^ 64\<close> calls of
  \<^verbatim>\<open>queue\<close>, no id is reused and no id is 0.
\<close>

lemma ids_bounded_new: "ids_bounded (data_cache_new n)"
  by (simp add: ids_bounded_def data_cache_new_def)

lemma ids_bounded_keys:
  "ids_bounded c \<Longrightarrow> fst ` set (dc_entries c') \<subseteq> fst ` set (dc_entries c) \<Longrightarrow>
   dc_id_counter c' = dc_id_counter c \<Longrightarrow> ids_bounded c'"
  unfolding ids_bounded_def by (simp only: subset_iff Ball_def) blast

lemma counter_step:
  fixes k :: u64
  assumes "unat k < 2 ^ 64 - 1"
  shows "0 < k + 1" and "k < k + 1" and "unat (k + 1) = unat k + 1"
proof -
  have u: "unat (k + 1) = unat k + 1"
    using assms by (simp add: unat_word_ariths)
  then show "unat (k + 1) = unat k + 1" .
  from u show "0 < k + 1" "k < k + 1" by (simp_all add: word_less_nat_alt)
qed

lemma queue_id_fresh:
  assumes "ids_bounded c" and "unat (dc_id_counter c) < 2 ^ 64 - 1"
  shows "dc_id_counter c + 1 \<notin> fst ` set (dc_entries c)"
  using assms counter_step(2) [OF assms(2)] by (fastforce simp: ids_bounded_def)

lemma ids_bounded_queue:
  assumes "ids_bounded c" and "unat (dc_id_counter c) < 2 ^ 64 - 1"
  shows "ids_bounded (snd (data_cache_queue B now valid c))"
proof -
  have "i \<le> dc_id_counter c + 1" if "i \<le> dc_id_counter c" for i
    using that counter_step(2) [OF assms(2)] by (meson order.strict_implies_order order_trans)
  with assms counter_step(1) [OF assms(2)] show ?thesis
    by (auto simp: data_cache_queue_def Let_def ids_bounded_def update_fresh queue_id_fresh)
qed

lemma keys_exec:
  "(\<And>now valid. op \<noteq> Op_queue now valid) \<Longrightarrow>
   fst ` set (dc_entries (cache_exec B op c)) \<subseteq> fst ` set (dc_entries c) \<and>
   dc_id_counter (cache_exec B op c) = dc_id_counter c"
  by (cases op)
    (force simp: data_cache_defs Let_def AList.delete_eq remove_obsolete_loop_filter
      split: option.split if_split)+

lemma ids_bounded_exec:
  assumes "ids_bounded c" and "unat (dc_id_counter c) < 2 ^ 64 - 1"
  shows "ids_bounded (cache_exec B op c)"
proof (cases "\<exists>now valid. op = Op_queue now valid")
  case True
  with ids_bounded_queue [OF assms] show ?thesis by auto
next
  case False
  with keys_exec [of op B c] show ?thesis by (auto intro: ids_bounded_keys [OF assms(1)])
qed

lemma counter_exec:
  assumes "unat (dc_id_counter c) < 2 ^ 64 - 1"
  shows "unat (dc_id_counter (cache_exec B op c)) \<le> Suc (unat (dc_id_counter c))"
  using counter_step(3) [OF assms]
  by (cases op) (auto simp: data_cache_defs Let_def split: option.split)

lemma ids_bounded_run:
  "ids_bounded c \<Longrightarrow> unat (dc_id_counter c) + length ops < 2 ^ 64 \<Longrightarrow>
   ids_bounded (cache_run B ops c) \<and>
   unat (dc_id_counter (cache_run B ops c)) \<le> unat (dc_id_counter c) + length ops"
proof (induction ops arbitrary: c)
  case Nil
  then show ?case by (simp add: cache_run_def)
next
  case (Cons op ops)
  from Cons.prems(2) have k: "unat (dc_id_counter c) < 2 ^ 64 - 1" by simp
  have b: "ids_bounded (cache_exec B op c)"
    by (rule ids_bounded_exec [OF Cons.prems(1) k])
  have n: "unat (dc_id_counter (cache_exec B op c)) \<le> Suc (unat (dc_id_counter c))"
    by (rule counter_exec [OF k])
  with Cons.prems(2) have "unat (dc_id_counter (cache_exec B op c)) + length ops < 2 ^ 64"
    by simp
  from Cons.IH [OF b this] n show ?case by (simp add: cache_run_def)
qed


section \<open>What each operation does to the view\<close>

lemma cache_view_queue:
  assumes "cache_inv c" and "length (dc_entries c) < dc_max_entries c"
  shows "cache_view (snd (data_cache_queue B now valid c)) =
     (cache_view c)(fst (data_cache_queue B now valid c) \<mapsto> (Queued, fb_new B))"
proof
  fix j
  show "cache_view (snd (data_cache_queue B now valid c)) j =
     ((cache_view c)(fst (data_cache_queue B now valid c) \<mapsto> (Queued, fb_new B))) j"
    using assms cache_invD(1) [OF assms(1), of j]
    by (auto simp: data_cache_queue_def cache_view_def Let_def update_conv' data_read_new_def
        nth_append map_option_case split: option.split)
qed

lemma cache_view_set_row:
  assumes "cache_inv c" and "map_of (dc_entries c) i = Some r"
  shows "cache_view (c\<lparr>dc_rows := (dc_rows c)[r := row]\<rparr>) =
     (cache_view c)(i \<mapsto> (dr_state row, dr_read_buffer row))"
proof
  fix j
  show "cache_view (c\<lparr>dc_rows := (dc_rows c)[r := row]\<rparr>) j =
     ((cache_view c)(i \<mapsto> (dr_state row, dr_read_buffer row))) j"
  proof (cases "j = i")
    case True
    with assms cache_invD(1) [OF assms] show ?thesis by (simp add: cache_view_def)
  next
    case False
    then have "map_of (dc_entries c) j \<noteq> Some r" using cache_invD(2) [OF assms] by blast
    then have "(dc_rows c)[r := row] ! r' = dc_rows c ! r'"
      if "map_of (dc_entries c) j = Some r'" for r'
      using that by (metis nth_list_update_neq)
    with False show ?thesis by (simp add: cache_view_def map_option_case split: option.split)
  qed
qed

lemma cache_view_delete:
  "cache_view (c\<lparr>dc_entries := AList.delete i (dc_entries c)\<rparr>) = (cache_view c)(i := None)"
  by (rule ext) (simp add: cache_view_def delete_conv')

lemma cache_view_set_row_delete:
  assumes "cache_inv c" and "map_of (dc_entries c) i = Some r"
  shows "cache_view (c\<lparr>dc_rows := (dc_rows c)[r := row],
       dc_entries := AList.delete i (dc_entries c)\<rparr>) = (cache_view c)(i := None)"
  using cache_view_delete [of i "c\<lparr>dc_rows := (dc_rows c)[r := row]\<rparr>"] cache_view_set_row [OF assms]
  by simp

lemma entries_rows_commute:
  "c\<lparr>dc_entries := es, dc_rows := rows\<rparr> = c\<lparr>dc_rows := rows, dc_entries := es\<rparr>"
  by simp

lemma cache_view_SomeE:
  assumes "cache_view c i = Some (st, x)"
  obtains r where "map_of (dc_entries c) i = Some r"
    and "dr_state (dc_rows c ! r) = st" and "dr_read_buffer (dc_rows c ! r) = x"
  using assms by (auto simp: cache_view_def)

lemmas cache_view_row_simps = cache_view_set_row cache_view_delete cache_view_set_row_delete

lemma cache_view_swap_notify:
  assumes "cache_inv c" and "cache_view c i = Some (st, x)"
  shows "cache_view (snd (data_cache_swap_notify B i b c)) =
     (if st = Waiting then (cache_view c)(i := None) else (cache_view c)(i \<mapsto> (Swapped, b)))"
  using assms(2) by (rule cache_view_SomeE)
    (auto simp: data_cache_swap_notify_def Let_def cache_view_row_simps assms(1))

lemma swap_notify_missing:
  "cache_view c i = None \<Longrightarrow> data_cache_swap_notify B i b c = (b, c)"
  by (simp add: data_cache_swap_notify_def cache_view_def)

lemma cache_view_wait_begin:
  assumes "cache_inv c" and "cache_view c i = Some (st, x)"
  shows "cache_view (snd (data_cache_wait_begin i c)) =
     (if st = Swapped then (cache_view c)(i := None) else (cache_view c)(i \<mapsto> (Waiting, x)))"
  using assms(2) by (rule cache_view_SomeE)
    (auto simp: data_cache_wait_begin_def cache_view_row_simps assms(1))

lemma wait_begin_missing:
  "cache_view c i = None \<Longrightarrow> data_cache_wait_begin i c = (Wait_missing, c)"
  by (simp add: data_cache_wait_begin_def cache_view_def)

lemma cache_view_remove_obsolete:
  assumes "cache_inv c"
  shows "cache_view (data_cache_remove_obsolete now c) i =
     (case map_of (dc_entries c) i of
        None \<Rightarrow> None
      | Some r \<Rightarrow> if data_read_valid now (dc_rows c ! r) then cache_view c i else None)"
  using assms
  by (auto simp: data_cache_remove_obsolete_def cache_view_def remove_obsolete_loop_filter
      map_of_filter_distinct cache_inv_def split: option.split)

lemma cache_view_clear [simp]: "cache_view (data_cache_clear c) = Map.empty"
  by (rule ext) (simp add: data_cache_clear_def cache_view_def)


section \<open>Rows a waiting function holds\<close>

text \<open>
  A row that has left the table is written by \<^verbatim>\<open>wait\<close> itself only (the final swap of
  \<open>data_cache_take\<close>): no operation of another thread reaches it.
\<close>

definition detached :: "row_ref \<Rightarrow> 'b data_cache \<Rightarrow> bool" where
  "detached r c \<longleftrightarrow> r < length (dc_rows c) \<and> r \<notin> snd ` set (dc_entries c)"

fun takes_row :: "row_ref \<Rightarrow> 'b cache_op \<Rightarrow> bool" where
  "takes_row r (Op_take r' b) \<longleftrightarrow> r' = r"
| "takes_row r op \<longleftrightarrow> False"

lemma rows_update_other:
  assumes "map_of es i = Some r'" and "r \<notin> snd ` set es"
  shows "rows[r' := v] ! r = rows ! r"
proof -
  from map_of_SomeD [OF assms(1)] have "r' \<in> snd ` set es" by force
  with assms(2) have "r' \<noteq> r" by auto
  then show ?thesis by simp
qed

lemma notin_delete: "r \<notin> snd ` set es \<Longrightarrow> r \<notin> snd ` set (AList.delete i es)"
  by (rule contra_subsetD [OF snd_delete_subset])

lemma detached_exec:
  assumes "detached r c" and "\<not> takes_row r op"
  shows "detached r (cache_exec B op c) \<and> dc_rows (cache_exec B op c) ! r = dc_rows c ! r"
proof (cases op)
  case (Op_queue now valid)
  with assms snd_update_subset [of "dc_id_counter c + 1" "length (dc_rows c)" "dc_entries c"]
  show ?thesis by (auto simp: detached_def data_cache_queue_def Let_def nth_append)
next
  case (Op_wait_begin i)
  with assms show ?thesis
    by (auto simp: detached_def data_cache_wait_begin_def rows_update_other notin_delete
        split: option.split)
next
  case (Op_take r' b)
  with assms show ?thesis by (auto simp: detached_def data_cache_take_def)
next
  case (Op_swap_notify i b)
  with assms show ?thesis
    by (auto simp: detached_def data_cache_swap_notify_def Let_def rows_update_other notin_delete
        split: option.split)
next
  case (Op_remove_obsolete now)
  with assms show ?thesis
    by (auto simp: detached_def data_cache_remove_obsolete_def remove_obsolete_loop_filter)
next
  case Op_clear
  with assms show ?thesis by (auto simp: detached_def data_cache_clear_def clear_loop_other)
qed

lemma detached_run:
  "detached r c \<Longrightarrow> \<forall>op \<in> set ops. \<not> takes_row r op \<Longrightarrow>
   detached r (cache_run B ops c) \<and> dc_rows (cache_run B ops c) ! r = dc_rows c ! r"
  by (induction ops arbitrary: c) (simp_all add: cache_run_def detached_exec)

text \<open>
  While a function waits on id \<open>i\<close>, these operations of other threads leave its row alone: all that
  do not swap \<open>i\<close>, remove obsolete entries at a time at which the row has expired, or clear the table.
\<close>

fun leaves_entry :: "u64 \<Rightarrow> row_ref \<Rightarrow> 'b data_read \<Rightarrow> 'b cache_op \<Rightarrow> bool" where
  "leaves_entry i r row (Op_queue now valid) \<longleftrightarrow> True"
| "leaves_entry i r row (Op_wait_begin j) \<longleftrightarrow> True"
| "leaves_entry i r row (Op_take r' b) \<longleftrightarrow> r' \<noteq> r"
| "leaves_entry i r row (Op_swap_notify j b) \<longleftrightarrow> j \<noteq> i"
| "leaves_entry i r row (Op_remove_obsolete now) \<longleftrightarrow> data_read_valid now row"
| "leaves_entry i r row Op_clear \<longleftrightarrow> False"

lemma data_read_valid_state [simp]:
  "data_read_valid now (row\<lparr>dr_state := st\<rparr>) = data_read_valid now row"
  by (simp add: data_read_valid_def)

lemma leaves_entry_state [simp]: "leaves_entry i r (row\<lparr>dr_state := st\<rparr>) op = leaves_entry i r row op"
  by (cases op) simp_all

definition waits_on :: "u64 \<Rightarrow> row_ref \<Rightarrow> 'b data_cache \<Rightarrow> bool" where
  "waits_on i r c \<longleftrightarrow>
     cache_inv c \<and> ids_bounded c \<and> map_of (dc_entries c) i = Some r \<and>
     dr_state (dc_rows c ! r) = Waiting"

lemma waits_on_exec:
  assumes w: "waits_on i r c" and l: "leaves_entry i r (dc_rows c ! r) op"
    and k: "unat (dc_id_counter c) < 2 ^ 64 - 1"
  shows "waits_on i r (cache_exec B op c) \<and> dc_rows (cache_exec B op c) ! r = dc_rows c ! r"
proof -
  from w have inv: "cache_inv c" and ids: "ids_bounded c"
    and m: "map_of (dc_entries c) i = Some r" and st: "dr_state (dc_rows c ! r) = Waiting"
    by (simp_all add: waits_on_def)
  from m have i: "i \<in> fst ` set (dc_entries c)" by (metis image_eqI map_of_SomeD fst_conv)
  have other: "r' \<noteq> r" if "map_of (dc_entries c) j = Some r'" "j \<noteq> i" for j r'
    using cache_invD(2) [OF inv m] that by blast
  have "map_of (dc_entries (cache_exec B op c)) i = Some r \<and>
        dc_rows (cache_exec B op c) ! r = dc_rows c ! r"
  proof (cases op)
    case (Op_queue now valid)
    moreover have "i \<noteq> dc_id_counter c + 1" using i queue_id_fresh [OF ids k] by metis
    ultimately show ?thesis
      using m cache_invD(1) [OF inv m]
      by (auto simp: data_cache_queue_def Let_def update_conv' nth_append)
  next
    case (Op_wait_begin j)
    have "(dc_rows c)[r := (dc_rows c ! r)\<lparr>dr_state := Waiting\<rparr>] ! r = dc_rows c ! r"
      using cache_invD(1) [OF inv m] st by simp
    then show ?thesis
      using Op_wait_begin m st other [of j]
      by (cases "j = i") (auto simp: data_cache_wait_begin_def delete_conv' split: option.split)
  next
    case (Op_swap_notify j b)
    then show ?thesis
      using l m other [of j]
      by (auto simp: data_cache_swap_notify_def Let_def delete_conv' split: option.split)
  next
    case (Op_remove_obsolete now)
    then show ?thesis
      using l m inv by (simp add: data_cache_remove_obsolete_def remove_obsolete_loop_filter map_of_filter_distinct cache_inv_def)
  qed (use l m in \<open>auto simp: data_cache_take_def\<close>)
  with inv ids k st show ?thesis
    by (simp add: waits_on_def cache_inv_exec ids_bounded_exec)
qed

lemma waits_on_run:
  "waits_on i r c \<Longrightarrow> \<forall>op \<in> set ops. leaves_entry i r (dc_rows c ! r) op \<Longrightarrow>
   unat (dc_id_counter c) + length ops < 2 ^ 64 \<Longrightarrow>
   waits_on i r (cache_run B ops c) \<and> dc_rows (cache_run B ops c) ! r = dc_rows c ! r"
proof (induction ops arbitrary: c)
  case Nil
  then show ?case by (simp add: cache_run_def)
next
  case (Cons op ops)
  from Cons.prems(3) have k: "unat (dc_id_counter c) < 2 ^ 64 - 1" by simp
  from waits_on_exec [OF Cons.prems(1) _ k] Cons.prems(2)
  have w: "waits_on i r (cache_exec B op c)"
    and eq: "dc_rows (cache_exec B op c) ! r = dc_rows c ! r" by auto
  from counter_exec [OF k, of B op] Cons.prems(3)
  have "unat (dc_id_counter (cache_exec B op c)) + length ops < 2 ^ 64" by simp
  from Cons.IH [OF w _ this] Cons.prems(2) eq show ?case by (simp add: cache_run_def)
qed

lemma wait_begin_blocks:
  assumes "cache_inv c" and "ids_bounded c" and "cache_view c i = Some (st, x)" and "st \<noteq> Swapped"
  obtains r where "data_cache_wait_begin i c =
      (Wait_blocked r, c\<lparr>dc_rows := (dc_rows c)[r := (dc_rows c ! r)\<lparr>dr_state := Waiting\<rparr>]\<rparr>)"
    and "map_of (dc_entries c) i = Some r" and "dr_read_buffer (dc_rows c ! r) = x"
    and "waits_on i r (snd (data_cache_wait_begin i c))"
    and "dc_rows (snd (data_cache_wait_begin i c)) ! r = (dc_rows c ! r)\<lparr>dr_state := Waiting\<rparr>"
proof -
  from assms(3) obtain r where r: "map_of (dc_entries c) i = Some r"
    "dr_state (dc_rows c ! r) = st" "dr_read_buffer (dc_rows c ! r) = x"
    by (rule cache_view_SomeE)
  moreover have "waits_on i r (c\<lparr>dc_rows := (dc_rows c)[r := (dc_rows c ! r)\<lparr>dr_state := Waiting\<rparr>]\<rparr>)"
    using assms(1,2) r(1) cache_invD(1) [OF assms(1) r(1)]
    by (simp add: waits_on_def cache_inv_rows ids_bounded_def)
  ultimately show thesis
    using assms(4) that [of r] cache_invD(1) [OF assms(1) r(1)] by (simp add: data_cache_wait_begin_def)
qed

lemma swap_notify_waiting:
  assumes "waits_on i r c"
  shows "detached r (snd (data_cache_swap_notify B i b c))"
    and "dc_rows (snd (data_cache_swap_notify B i b c)) ! r =
         (dc_rows c ! r)\<lparr>dr_read_buffer := b, dr_state := Swapped, dr_notified := True\<rparr>"
proof -
  from assms have inv: "cache_inv c" and m: "map_of (dc_entries c) i = Some r"
    and st: "dr_state (dc_rows c ! r) = Waiting" by (simp_all add: waits_on_def)
  have "r \<notin> snd ` set (AList.delete i (dc_entries c))"
  proof
    assume "r \<in> snd ` set (AList.delete i (dc_entries c))"
    then obtain j where "(j, r) \<in> set (dc_entries c)" "j \<noteq> i" by (auto simp: AList.delete_eq)
    moreover have "distinct (map fst (dc_entries c))"
      using inv by (simp add: cache_inv_def distinct_keys_def)
    ultimately show False using cache_invD(2) [OF inv m, of j] by simp
  qed
  with m st cache_invD(1) [OF inv m] show
    "detached r (snd (data_cache_swap_notify B i b c))"
    "dc_rows (snd (data_cache_swap_notify B i b c)) ! r =
         (dc_rows c ! r)\<lparr>dr_read_buffer := b, dr_state := Swapped, dr_notified := True\<rparr>"
    by (simp_all add: data_cache_swap_notify_def Let_def detached_def)
qed

lemma cache_run_append [simp]: "cache_run B (xs @ ys) c = cache_run B ys (cache_run B xs c)"
  by (simp add: cache_run_def)

lemma cache_run_Cons [simp]: "cache_run B (op # ops) c = cache_run B ops (cache_exec B op c)"
  by (simp add: cache_run_def)

lemma cache_run_Nil [simp]: "cache_run B [] c = c"
  by (simp add: cache_run_def)


section \<open>The interface to the session that receives responses\<close>

text \<open>
  A session delivers a response under the id its header carries. The laws say what a
  delivery does to the id it names and that it concerns no other id.
\<close>

locale response_store =
  fixes view :: "'s \<Rightarrow> u64 \<Rightarrow> (data_state \<times> 'b) option"
    and inv :: "'s \<Rightarrow> bool"
    and deliver :: "u64 \<Rightarrow> 'b \<Rightarrow> 's \<Rightarrow> 's"
  assumes deliver_inv: "inv s \<Longrightarrow> inv (deliver i b s)"
    and deliver_missing: "view s i = None \<Longrightarrow> deliver i b s = s"
    and deliver_waiting:
      "inv s \<Longrightarrow> view s i = Some (Waiting, x) \<Longrightarrow> view (deliver i b s) = (view s)(i := None)"
    and deliver_stored:
      "inv s \<Longrightarrow> view s i = Some (st, x) \<Longrightarrow> st \<noteq> Waiting \<Longrightarrow>
       view (deliver i b s) = (view s)(i \<mapsto> (Swapped, b))"
begin

lemma deliver_other: "inv s \<Longrightarrow> j \<noteq> i \<Longrightarrow> view (deliver i b s) j = view s j"
  by (cases "view s i")
    (auto simp: deliver_missing deliver_stored deliver_waiting, metis deliver_stored deliver_waiting fun_upd_apply)

lemma deliver_once:
  "inv s \<Longrightarrow> view s i = Some (Waiting, x) \<Longrightarrow> deliver i b' (deliver i b s) = deliver i b s"
  by (simp add: deliver_missing deliver_waiting)

lemma deliver_all_others:
  "inv s \<Longrightarrow> j \<notin> fst ` set ds \<Longrightarrow> view (fold (\<lambda>(i, b). deliver i b) ds s) j = view s j"
proof (induction ds arbitrary: s)
  case Nil
  then show ?case by simp
next
  case (Cons d ds)
  obtain i b where d: "d = (i, b)" by (cases d)
  have "inv (deliver i b s)" using Cons.prems(1) by (rule deliver_inv)
  with Cons.IH [of "deliver i b s"] Cons.prems d show ?case by (simp add: deliver_other)
qed

end

interpretation rs: response_store cache_view cache_inv
  "\<lambda>i b c. snd (data_cache_swap_notify B i b c)"
  by unfold_locales (simp_all add: cache_inv_swap_notify swap_notify_missing cache_view_swap_notify)

section \<open>Waiting\<close>

lemma wait_buffer_blocked:
  assumes "data_cache_wait_begin i c = (Wait_blocked r, c1)"
  shows "data_cache_wait_buffer i during buffer c =
     (data_cache_swapped r (during c1), dr_read_buffer (dc_rows (during c1) ! r),
      snd (data_cache_take r buffer (during c1)))"
  using assms by (simp add: data_cache_wait_buffer_def data_cache_wait_def Let_def data_cache_take_def)

lemma unat_counter_wait_begin [simp]:
  "dc_id_counter (snd (data_cache_wait_begin i c)) = dc_id_counter c"
  by (simp add: data_cache_wait_begin_def split: option.split)

lemma clear_waiting:
  assumes "waits_on i r c"
  shows "detached r (data_cache_clear c)"
    and "dc_rows (data_cache_clear c) ! r = (dc_rows c ! r)\<lparr>dr_state := Swapped, dr_notified := True\<rparr>"
proof -
  from assms have inv: "cache_inv c" and m: "map_of (dc_entries c) i = Some r"
    by (simp_all add: waits_on_def)
  from map_of_SomeD [OF m] have "r \<in> snd ` set (dc_entries c)" by force
  with cache_invD(1) [OF inv m] show "detached r (data_cache_clear c)"
    "dc_rows (data_cache_clear c) ! r = (dc_rows c ! r)\<lparr>dr_state := Swapped, dr_notified := True\<rparr>"
    by (simp_all add: data_cache_clear_def detached_def clear_loop_row)
qed

lemma cache_view_take:
  "cache_inv c \<Longrightarrow> map_of (dc_entries c) i = Some r \<Longrightarrow>
   cache_view (snd (data_cache_take r buffer c)) =
     (cache_view c)(i \<mapsto> (dr_state (dc_rows c ! r), buffer))"
  by (simp add: data_cache_take_def cache_view_set_row)


section \<open>Properties\<close>

lemmas data_cache_eval =
  cache_inv_def ids_bounded_def distinct_keys_def cache_view_def data_cache_queue_def
  data_cache_new_def data_read_new_def Let_def

text \<open>Whatever operations the threads interleave, the table keeps its invariant (one entry
  per id, one row per entry, every row allocated) and never holds more than
  \<^verbatim>\<open>m_max_entries\<close> entries.\<close>

theorem cache_capacity:
  "cache_inv (cache_run B ops (data_cache_new n)) \<and>
   data_cache_size (cache_run B ops (data_cache_new n)) \<le> n"
proof -
  have "cache_inv (cache_run B ops (data_cache_new n))"
    by (rule cache_inv_run [OF cache_inv_new])
  moreover have "dc_max_entries (cache_run B ops (data_cache_new n)) = n"
    by (simp add: data_cache_new_def)
  ultimately show ?thesis by (simp add: cache_inv_def data_cache_size_def)
qed

text \<open>In a session of fewer than \<open>2 ^ 64 - 1\<close> operations \<^verbatim>\<open>queue\<close> returns 0 exactly when
  the table is full and leaves it as it is then; otherwise the id it returns is not 0, is not
  in use, and is the only id whose entry changes.\<close>

theorem queue_returns_fresh_id:
  fixes B :: "'b flat_buffer" and n :: nat
  assumes "length ops < 2 ^ 64 - 1"
  defines "c \<equiv> cache_run B ops (data_cache_new n)"
  shows "(fst (data_cache_queue B now valid c) = 0 \<longleftrightarrow> data_cache_size c = n) \<and>
     (if data_cache_size c = n then snd (data_cache_queue B now valid c) = c
      else cache_view c (fst (data_cache_queue B now valid c)) = None \<and>
           cache_view (snd (data_cache_queue B now valid c)) =
             (cache_view c)(fst (data_cache_queue B now valid c) \<mapsto> (Queued, fb_new B)))"
proof -
  have inv: "cache_inv c" unfolding c_def by (rule cache_inv_run [OF cache_inv_new])
  have max: "dc_max_entries c = n" by (simp add: c_def data_cache_new_def)
  have "ids_bounded c \<and> unat (dc_id_counter c) \<le> length ops"
    using ids_bounded_run [OF ids_bounded_new, of n ops B] assms(1)
    by (simp add: c_def data_cache_new_def)
  then have ids: "ids_bounded c" and k: "unat (dc_id_counter c) < 2 ^ 64 - 1"
    using assms(1) by simp_all
  have fresh: "cache_view c (dc_id_counter c + 1) = None"
    using queue_id_fresh [OF ids k] by (simp add: cache_view_def map_of_eq_None_iff)
  have size: "data_cache_size c \<le> n" using inv max by (simp add: cache_inv_def data_cache_size_def)
  show ?thesis
  proof (cases "data_cache_size c = n")
    case True
    with max show ?thesis by (simp add: data_cache_queue_def data_cache_size_def)
  next
    case False
    with size max have "length (dc_entries c) < dc_max_entries c"
      by (simp add: data_cache_size_def)
    with cache_view_queue [OF inv this, of B now valid] False fresh counter_step(1) [OF k]
    show ?thesis by (simp add: data_cache_queue_def Let_def)
  qed
qed

theorem queue_returns_fresh_id_witness:
  "fst (data_cache_queue byte_buffer 0 0
      (cache_run byte_buffer [Op_queue 0 0] (data_cache_new 1))) = 0 \<and>
   cache_view (cache_run byte_buffer [Op_queue 0 0] (data_cache_new 2)) 2 = None"
  using queue_returns_fresh_id [of "[Op_queue 0 0]" byte_buffer 1 0 0]
    queue_returns_fresh_id [of "[Op_queue 0 0]" byte_buffer 2 0 0]
  by (simp add: data_cache_eval data_cache_size_def)

text \<open>C9: a response that arrives while its caller waits is handed to that caller. The
  other threads may do anything before it that leaves the entry in the table: receive other responses and
  remove obsolete entries after each of them, as long as this entry has not expired by then, but not clear the
  table or take the row. After it they may do anything, a second response with the same id included.
  Then \<^verbatim>\<open>wait\<close> returns true with exactly the bytes of the response.\<close>

theorem wait_receives_response:
  assumes inv: "cache_inv c" and ids: "ids_bounded c"
    and queued: "cache_view c i = Some (Queued, x)"
    and r: "map_of (dc_entries c) i = Some r"
    and before: "\<forall>op \<in> set ops1. leaves_entry i r (dc_rows c ! r) op"
    and count: "unat (dc_id_counter c) + length ops1 < 2 ^ 64"
    and after: "\<forall>op \<in> set ops2. \<not> takes_row r op"
  shows "\<exists>c'. data_cache_wait_buffer i (cache_run B (ops1 @ Op_swap_notify i b # ops2)) buffer c =
     (True, b, c')"
proof -
  from inv ids queued obtain r' c1 where beg: "data_cache_wait_begin i c = (Wait_blocked r', c1)"
    and r': "map_of (dc_entries c) i = Some r'" and w: "waits_on i r' c1"
    and row: "dc_rows c1 ! r' = (dc_rows c ! r')\<lparr>dr_state := Waiting\<rparr>"
    by (rule wait_begin_blocks) auto
  from beg have c1: "c1 = snd (data_cache_wait_begin i c)" by simp
  from r r' have rr: "r' = r" by simp
  let ?c2 = "cache_run B ops1 c1" and ?c3 = "cache_run B (ops1 @ [Op_swap_notify i b]) c1"
  have "waits_on i r ?c2" using waits_on_run [OF w, of ops1 B] before count c1 rr row by simp
  from swap_notify_waiting [OF this, of B b]
  have d: "detached r ?c3" and "dr_state (dc_rows ?c3 ! r) = Swapped"
    and "dr_read_buffer (dc_rows ?c3 ! r) = b" by simp_all
  with detached_run [OF d after, of B] show ?thesis
    by (simp add: wait_buffer_blocked [OF beg] rr data_cache_swapped_def)
qed


theorem wait_receives_response_witness:
  "\<exists>c'. data_cache_wait_buffer 1
      (cache_run byte_buffer ([Op_queue 0 0, Op_swap_notify 2 [9], Op_remove_obsolete 1000000] @
         Op_swap_notify 1 [7] # [Op_swap_notify 1 [8], Op_clear]))
      [] (cache_run byte_buffer [Op_queue 0 2000000] (data_cache_new 5)) = (True, [7], c')"
  by (rule wait_receives_response [where x = "[]" and r = 0])
    (simp_all add: data_cache_eval data_read_valid_def milliseconds_count_def signed_divide_int_def)

text \<open>A response that arrives before its caller waits is kept: queueing an id, receiving its
  response and then waiting returns true with the bytes of the response at once, and the
  table is what it was before.\<close>

theorem queue_swap_wait_roundtrip:
  assumes inv: "cache_inv c" and room: "length (dc_entries c) < dc_max_entries c"
    and fresh: "cache_view c (dc_id_counter c + 1) = None"
    and q: "data_cache_queue B now valid c = (i, c1)"
  shows "\<exists>c'. data_cache_wait_buffer i during buffer (snd (data_cache_swap_notify B i b c1)) =
     (True, b, c') \<and> cache_view c' = cache_view c"
proof -
  from q room have i: "i = dc_id_counter c + 1" by (auto simp: data_cache_queue_def Let_def)
  have inv1: "cache_inv c1" using cache_inv_queue [OF inv, of B now valid] q by simp
  have v1: "cache_view c1 = (cache_view c)(i \<mapsto> (Queued, fb_new B))"
    using cache_view_queue [OF inv room, of B now valid] q by simp
  let ?c2 = "snd (data_cache_swap_notify B i b c1)"
  have inv2: "cache_inv ?c2" using inv1 by (rule cache_inv_swap_notify)
  have v2: "cache_view ?c2 = (cache_view c)(i \<mapsto> (Swapped, b))"
    using rs.deliver_stored [OF inv1, of i Queued] v1 by simp
  then have "cache_view ?c2 i = Some (Swapped, b)" by simp
  then obtain r where r: "map_of (dc_entries ?c2) i = Some r" "dr_state (dc_rows ?c2 ! r) = Swapped"
    "dr_read_buffer (dc_rows ?c2 ! r) = b" by (rule cache_view_SomeE)
  let ?c3 = "?c2\<lparr>dc_entries := AList.delete i (dc_entries ?c2)\<rparr>"
  have "cache_view (snd (data_cache_take r buffer ?c3)) = (cache_view ?c2)(i := None)"
    using cache_view_set_row_delete [OF inv2 r(1)]
    by (simp add: data_cache_take_def entries_rows_commute)
  with r v2 fresh i show ?thesis
    by (simp add: data_cache_wait_buffer_def data_cache_wait_def data_cache_wait_begin_def
        data_cache_take_def fun_eq_iff)
qed

theorem queue_swap_wait_roundtrip_witness:
  "\<exists>c'. data_cache_wait_buffer 1 (\<lambda>c. c) []
     (snd (data_cache_swap_notify byte_buffer 1 [7]
        (snd (data_cache_queue byte_buffer 0 0 (data_cache_new 2))))) = (True, [7], c') \<and>
   cache_view c' = cache_view (data_cache_new 2)"
  by (rule queue_swap_wait_roundtrip)
    (simp_all add: data_cache_eval)

text \<open>Clearing the table releases every waiting function: \<^verbatim>\<open>wait\<close> returns true although
  nothing was received, with the buffer the row had.\<close>

theorem clear_releases_waiters:
  assumes inv: "cache_inv c" and ids: "ids_bounded c"
    and queued: "cache_view c i = Some (Queued, x)"
    and r: "map_of (dc_entries c) i = Some r"
    and before: "\<forall>op \<in> set ops1. leaves_entry i r (dc_rows c ! r) op"
    and count: "unat (dc_id_counter c) + length ops1 < 2 ^ 64"
    and after: "\<forall>op \<in> set ops2. \<not> takes_row r op"
  shows "\<exists>c'. data_cache_wait_buffer i (cache_run B (ops1 @ Op_clear # ops2)) buffer c =
     (True, x, c')"
proof -
  from inv ids queued obtain r' c1 where beg: "data_cache_wait_begin i c = (Wait_blocked r', c1)"
    and r': "map_of (dc_entries c) i = Some r'" and w: "waits_on i r' c1"
    and row: "dc_rows c1 ! r' = (dc_rows c ! r')\<lparr>dr_state := Waiting\<rparr>"
    and x: "dr_read_buffer (dc_rows c1 ! r') = x"
    by (rule wait_begin_blocks) (auto simp: cache_invD(1) [OF inv])
  from beg have c1: "c1 = snd (data_cache_wait_begin i c)" by simp
  from r r' have rr: "r' = r" by simp
  let ?c2 = "cache_run B ops1 c1" and ?c3 = "cache_run B (ops1 @ [Op_clear]) c1"
  have w2: "waits_on i r ?c2" and "dr_read_buffer (dc_rows ?c2 ! r) = x"
    using waits_on_run [OF w, of ops1 B] before count c1 rr row x by simp_all
  with clear_waiting [OF w2]
  have d: "detached r ?c3" and "dr_state (dc_rows ?c3 ! r) = Swapped"
    and "dr_read_buffer (dc_rows ?c3 ! r) = x" by simp_all
  with detached_run [OF d after, of B] show ?thesis
    by (simp add: wait_buffer_blocked [OF beg] rr data_cache_swapped_def)
qed

theorem clear_releases_waiters_witness:
  "\<exists>c'. data_cache_wait_buffer 1 (cache_run byte_buffer ([Op_queue 0 0] @ Op_clear # [Op_queue 0 0]))
      [3] (cache_run byte_buffer [Op_queue 0 0] (data_cache_new 5)) = (True, [], c')"
  by (rule clear_releases_waiters [where r = 0])
    (simp_all add: data_cache_eval)


text \<open>A \<^verbatim>\<open>wait\<close> whose response does not arrive in time returns false with the (empty)
  buffer of the row, and leaves its entry in the table, marked as waiting, where it keeps
  counting against the capacity.\<close>

theorem timed_out_wait_leaves_entry:
  assumes inv: "cache_inv c" and ids: "ids_bounded c"
    and queued: "cache_view c i = Some (Queued, x)"
    and r: "map_of (dc_entries c) i = Some r"
    and others: "\<forall>op \<in> set ops. leaves_entry i r (dc_rows c ! r) op"
    and count: "unat (dc_id_counter c) + length ops < 2 ^ 64"
  shows "\<exists>c'. data_cache_wait_buffer i (cache_run B ops) buffer c = (False, x, c') \<and>
     cache_view c' i = Some (Waiting, buffer)"
proof -
  from inv ids queued obtain r' c1 where beg: "data_cache_wait_begin i c = (Wait_blocked r', c1)"
    and r': "map_of (dc_entries c) i = Some r'" and w: "waits_on i r' c1"
    and row: "dc_rows c1 ! r' = (dc_rows c ! r')\<lparr>dr_state := Waiting\<rparr>"
    and x: "dr_read_buffer (dc_rows c1 ! r') = x"
    by (rule wait_begin_blocks) (auto simp: cache_invD(1) [OF inv])
  from beg have c1: "c1 = snd (data_cache_wait_begin i c)" by simp
  from r r' have rr: "r' = r" by simp
  let ?c2 = "cache_run B ops c1"
  have w2: "waits_on i r ?c2" and "dr_read_buffer (dc_rows ?c2 ! r) = x"
    using waits_on_run [OF w, of ops B] others count c1 rr row x by simp_all
  moreover from w2 have "cache_view (snd (data_cache_take r buffer ?c2)) i = Some (Waiting, buffer)"
    using cache_view_take [of ?c2 i r buffer] by (simp add: waits_on_def)
  ultimately show ?thesis
    by (simp add: wait_buffer_blocked [OF beg] rr data_cache_swapped_def waits_on_def)
qed

theorem timed_out_wait_leaves_entry_witness:
  "\<exists>c'. data_cache_wait_buffer 1 (cache_run byte_buffer [Op_swap_notify 2 [9], Op_queue 0 0])
      [] (cache_run byte_buffer [Op_queue 0 0] (data_cache_new 5)) = (False, [], c') \<and>
    cache_view c' 1 = Some (Waiting, [])"
  by (rule timed_out_wait_leaves_entry [where r = 0]) (simp_all add: data_cache_eval)

text \<open>C37: \<^verbatim>\<open>remove_obsolete\<close> keeps exactly the entries that are still valid, whatever state they are
  in: every entry past its validity is dropped and every other one stays as it is. So an entry is
  dropped even while a function waits on it, and the response that arrives afterwards is not delivered.\<close>

theorem remove_obsolete_drops_waiters:
  assumes inv: "cache_inv c" and r: "map_of (dc_entries c) i = Some r"
    and state: "dr_state (dc_rows c ! r) = Waiting"
    and old: "dr_valid_ms (dc_rows c ! r) \<le> milliseconds_count (now - dr_timestamp (dc_rows c ! r))"
  shows "(\<forall>j. cache_view (data_cache_remove_obsolete now c) j =
       (case map_of (dc_entries c) j of
          None \<Rightarrow> None
        | Some q \<Rightarrow>
            if milliseconds_count (now - dr_timestamp (dc_rows c ! q)) < dr_valid_ms (dc_rows c ! q) then cache_view c j
            else None)) \<and>
     cache_view (data_cache_remove_obsolete now c) i = None \<and>
     cache_run B [Op_remove_obsolete now, Op_swap_notify i b] c = data_cache_remove_obsolete now c \<and>
     \<not> data_cache_swapped r (cache_run B [Op_remove_obsolete now, Op_swap_notify i b] c)"
proof -
  have gone: "cache_view (data_cache_remove_obsolete now c) i = None"
    using old r by (simp add: cache_view_remove_obsolete [OF inv] data_read_valid_def)
  moreover from gone
  have "cache_run B [Op_remove_obsolete now, Op_swap_notify i b] c = data_cache_remove_obsolete now c"
    by (simp add: swap_notify_missing)
  moreover have "\<not> data_cache_swapped r (data_cache_remove_obsolete now c)"
    using state by (simp add: data_cache_swapped_def data_cache_remove_obsolete_def)
  ultimately show ?thesis
    by (auto simp: cache_view_remove_obsolete [OF inv] data_read_valid_def split: option.split)
qed

theorem remove_obsolete_drops_waiters_witness:
  "cache_view (data_cache_remove_obsolete 2000000
     (cache_run byte_buffer [Op_queue 0 1000000, Op_wait_begin 1] (data_cache_new 5))) 1 = None"
  using remove_obsolete_drops_waiters
    [of "cache_run byte_buffer [Op_queue 0 1000000, Op_wait_begin 1] (data_cache_new 5)" 1 0
        2000000 byte_buffer "[]"]
  by (simp add: data_cache_eval data_cache_wait_begin_def milliseconds_count_def signed_divide_int_def)

section \<open>The table as a store of responses\<close>

text \<open>
  What the table promises, without rows and references: a map from ids to what is stored under them. Which
  id a request gets is left open. A waiting function is known by the id it waits on.
\<close>

record 'b stored =
  st_state :: data_state
  st_buffer :: 'b
  st_created :: time_point
  st_valid_ms :: int

definition stored_of :: "'b data_read \<Rightarrow> 'b stored" where
  "stored_of row = \<lparr>st_state = dr_state row, st_buffer = dr_read_buffer row, st_created = dr_timestamp row,
     st_valid_ms = dr_valid_ms row\<rparr>"

definition store_view :: "'b data_cache \<Rightarrow> u64 \<rightharpoonup> 'b stored" where
  "store_view c i = map_option (\<lambda>r. stored_of (dc_rows c ! r)) (map_of (dc_entries c) i)"

datatype 'b store_op =
    St_queue time_point duration
  | St_wait_begin u64
  | St_wait_end u64 'b
  | St_swap_notify u64 'b
  | St_remove_obsolete time_point
  | St_clear

definition not_expired :: "time_point \<Rightarrow> 'b stored \<Rightarrow> bool" where
  "not_expired now x \<longleftrightarrow> milliseconds_count (now - st_created x) < st_valid_ms x"

fun store_step ::
  "'b flat_buffer \<Rightarrow> nat \<Rightarrow> 'b store_op \<Rightarrow> (u64 \<rightharpoonup> 'b stored) \<Rightarrow> (u64 \<rightharpoonup> 'b stored) \<Rightarrow> bool" where
  "store_step B n (St_queue now valid) A A' \<longleftrightarrow>
     (if card (dom A) = n then A' = A
      else \<exists>i. i \<noteq> 0 \<and> i \<notin> dom A \<and> A' = A(i \<mapsto> \<lparr>st_state = Queued, st_buffer = fb_new B, st_created = now,
        st_valid_ms = milliseconds_count valid\<rparr>))"
| "store_step B n (St_wait_begin i) A A' \<longleftrightarrow>
     A' = (case A i of None \<Rightarrow> A
           | Some x \<Rightarrow> if st_state x = Swapped then A(i := None) else A(i \<mapsto> x\<lparr>st_state := Waiting\<rparr>))"
| "store_step B n (St_wait_end i b) A A' \<longleftrightarrow>
     A' = (case A i of None \<Rightarrow> A | Some x \<Rightarrow> A(i \<mapsto> x\<lparr>st_buffer := b\<rparr>))"
| "store_step B n (St_swap_notify i b) A A' \<longleftrightarrow>
     A' = (case A i of None \<Rightarrow> A
           | Some x \<Rightarrow> if st_state x = Waiting then A(i := None)
                       else A(i \<mapsto> x\<lparr>st_state := Swapped, st_buffer := b\<rparr>))"
| "store_step B n (St_remove_obsolete now) A A' \<longleftrightarrow>
     A' = (\<lambda>i. case A i of Some x \<Rightarrow> if not_expired now x then Some x else None | None \<Rightarrow> None)"
| "store_step B n St_clear A A' \<longleftrightarrow> A' = Map.empty"

text \<open>\<open>w\<close> is the id the function of a final swap waits on.\<close>

fun store_op_of :: "u64 \<Rightarrow> 'b cache_op \<Rightarrow> 'b store_op" where
  "store_op_of w (Op_queue now valid) = St_queue now valid"
| "store_op_of w (Op_wait_begin i) = St_wait_begin i"
| "store_op_of w (Op_take r b) = St_wait_end w b"
| "store_op_of w (Op_swap_notify i b) = St_swap_notify i b"
| "store_op_of w (Op_remove_obsolete now) = St_remove_obsolete now"
| "store_op_of w Op_clear = St_clear"

lemma dom_store_view: "dom (store_view c) = fst ` set (dc_entries c)"
proof -
  have "dom (store_view c) = dom (map_of (dc_entries c))" by (auto simp: store_view_def)
  then show ?thesis by (simp add: dom_map_of_conv_image_fst)
qed

lemma card_store_view: "cache_inv c \<Longrightarrow> card (dom (store_view c)) = data_cache_size c"
  by (simp add: dom_store_view cache_inv_def distinct_keys_def data_cache_size_def distinct_card
      flip: set_map)

lemma store_view_set_row:
  assumes "cache_inv c" and "map_of (dc_entries c) i = Some r"
  shows "store_view (c\<lparr>dc_rows := (dc_rows c)[r := row]\<rparr>) = (store_view c)(i \<mapsto> stored_of row)"
proof
  fix j
  have "(dc_rows c)[r := row] ! q = dc_rows c ! q" if "map_of (dc_entries c) j = Some q" "j \<noteq> i" for q
    using cache_invD(2) [OF assms, of j] that by (metis nth_list_update_neq)
  then show "store_view (c\<lparr>dc_rows := (dc_rows c)[r := row]\<rparr>) j = ((store_view c)(i \<mapsto> stored_of row)) j"
    using assms cache_invD(1) [OF assms] by (cases "j = i") (auto simp: store_view_def map_option_case split: option.split)
qed

lemma store_view_delete:
  "store_view (c\<lparr>dc_entries := AList.delete i (dc_entries c)\<rparr>) = (store_view c)(i := None)"
  by (rule ext) (simp add: store_view_def delete_conv')

lemma store_view_set_row_delete:
  assumes "cache_inv c" and "map_of (dc_entries c) i = Some r"
  shows "store_view (c\<lparr>dc_rows := (dc_rows c)[r := row], dc_entries := AList.delete i (dc_entries c)\<rparr>) =
    (store_view c)(i := None)"
  using store_view_delete [of i "c\<lparr>dc_rows := (dc_rows c)[r := row]\<rparr>"] store_view_set_row [OF assms] by simp

lemma store_view_entry: "map_of (dc_entries c) i = Some r \<Longrightarrow> store_view c i = Some (stored_of (dc_rows c ! r))"
  by (simp add: store_view_def)

lemmas store_row_simps =
  store_view_set_row store_view_delete store_view_set_row_delete store_view_entry stored_of_def

text \<open>
  The row of id \<open>i\<close>, once it is queued: no other entry leads to it, and the id never gets another row.
\<close>

definition row_of_id :: "u64 \<Rightarrow> row_ref \<Rightarrow> 'b data_cache \<Rightarrow> bool" where
  "row_of_id i r c \<longleftrightarrow> r < length (dc_rows c) \<and> i \<le> dc_id_counter c \<and> (\<forall>(j, q) \<in> set (dc_entries c). j = i \<longleftrightarrow> q = r)"

lemma row_of_id_entry:
  assumes inv: "cache_inv c" and ids: "ids_bounded c" and m: "map_of (dc_entries c) i = Some r"
  shows "row_of_id i r c"
proof -
  have m': "map_of (dc_entries c) j = Some q" if "(j, q) \<in> set (dc_entries c)" for j q
    using that inv by (simp add: cache_inv_def distinct_keys_def)
  then have "j = i \<longleftrightarrow> q = r" if "(j, q) \<in> set (dc_entries c)" for j q
    using that m cache_invD(2) [OF inv m] by (metis option.inject)
  moreover have "i \<le> dc_id_counter c" using ids map_of_SomeD [OF m] by (force simp: ids_bounded_def)
  ultimately show ?thesis using cache_invD(1) [OF inv m] by (auto simp: row_of_id_def)
qed

lemma entries_exec:
  "(\<And>now valid. op \<noteq> Op_queue now valid) \<Longrightarrow>
   set (dc_entries (cache_exec B op c)) \<subseteq> set (dc_entries c) \<and> dc_id_counter (cache_exec B op c) = dc_id_counter c \<and>
   length (dc_rows (cache_exec B op c)) = length (dc_rows c)"
  by (cases op)
    (force simp: data_cache_defs Let_def AList.delete_eq remove_obsolete_loop_filter split: option.split if_split)+

lemma row_of_id_exec:
  assumes row: "row_of_id i r c" and ids: "ids_bounded c" and k: "unat (dc_id_counter c) < 2 ^ 64 - 1"
  shows "row_of_id i r (cache_exec B op c)"
proof (cases "\<exists>now valid. op = Op_queue now valid")
  case True
  then obtain now valid where op: "op = Op_queue now valid" by blast
  have i: "i \<le> dc_id_counter c" "dc_id_counter c < dc_id_counter c + 1"
    using row counter_step(2) [OF k] by (auto simp: row_of_id_def)
  then have "i \<le> dc_id_counter c + 1" "i \<noteq> dc_id_counter c + 1" by auto
  with row show ?thesis
    by (auto simp: op row_of_id_def data_cache_queue_def Let_def update_fresh queue_id_fresh [OF ids k])
next
  case False
  with entries_exec [of op B c] row show ?thesis by (auto simp: row_of_id_def)
qed

lemma row_of_id_run:
  "row_of_id i r c \<Longrightarrow> ids_bounded c \<Longrightarrow> unat (dc_id_counter c) + length ops < 2 ^ 64 \<Longrightarrow>
   row_of_id i r (cache_run B ops c)"
proof (induction ops arbitrary: c)
  case (Cons op ops)
  then have k: "unat (dc_id_counter c) < 2 ^ 64 - 1" by simp
  from counter_exec [OF k, of B op] Cons.prems(3)
  have "unat (dc_id_counter (cache_exec B op c)) + length ops < 2 ^ 64" by simp
  with Cons.IH [OF row_of_id_exec [OF Cons.prems(1,2) k] ids_bounded_exec [OF Cons.prems(2) k]] show ?case by simp
qed simp

lemma store_step_queue:
  assumes inv: "cache_inv c" and ids: "ids_bounded c" and k: "unat (dc_id_counter c) < 2 ^ 64 - 1"
  shows "store_step B (dc_max_entries c) (St_queue now valid) (store_view c)
    (store_view (cache_exec B (Op_queue now valid) c))"
proof (cases "data_cache_size c = dc_max_entries c")
  case True
  with inv show ?thesis by (simp add: card_store_view data_cache_queue_def data_cache_size_def)
next
  case False
  with inv have room: "length (dc_entries c) < dc_max_entries c"
    by (simp add: cache_inv_def data_cache_size_def)
  have "dc_id_counter c + 1 \<notin> dom (store_view c)"
    unfolding dom_store_view by (rule queue_id_fresh [OF ids k])
  moreover have "store_view (snd (data_cache_queue B now valid c)) = (store_view c)(dc_id_counter c + 1 \<mapsto>
      \<lparr>st_state = Queued, st_buffer = fb_new B, st_created = now, st_valid_ms = milliseconds_count valid\<rparr>)"
    using room cache_invD(1) [OF inv]
    by (auto simp: fun_eq_iff data_cache_queue_def store_view_def Let_def update_conv' data_read_new_def nth_append
        map_option_case stored_of_def split: option.split)
  ultimately show ?thesis
    using False counter_step(1) [OF k] card_store_view [OF inv] by (auto intro!: exI [of _ "dc_id_counter c + 1"])
qed

lemma store_step_wait_end:
  assumes inv: "cache_inv c" and row: "row_of_id i r c"
  shows "store_step B n (St_wait_end i b) (store_view c) (store_view (cache_exec B (Op_take r b) c))"
proof (cases "map_of (dc_entries c) i")
  case None
  have "r \<notin> snd ` set (dc_entries c)"
  proof
    assume "r \<in> snd ` set (dc_entries c)"
    then have "(i, r) \<in> set (dc_entries c)" using row by (auto simp: row_of_id_def)
    then have "i \<in> fst ` set (dc_entries c)" by (force simp: image_iff)
    with None show False by (simp add: map_of_eq_None_iff)
  qed
  then have other: "r \<noteq> q" if "map_of (dc_entries c) j = Some q" for j q using map_of_SomeD [OF that] by force
  have "store_view (snd (data_cache_take r b c)) = store_view c"
    by (simp add: nth_list_update_neq [OF other] fun_eq_iff store_view_def map_option_case data_cache_take_def split: option.split)
  with None show ?thesis by (simp add: store_view_def)
next
  case (Some q)
  then have "q = r" using row by (auto simp: row_of_id_def dest: map_of_SomeD)
  with Some show ?thesis by (simp add: data_cache_take_def store_row_simps inv)
qed

text \<open>The row a wait has got is that of its id ever after.\<close>

lemma wait_row:
  assumes "\<exists>ops1 ops2. ops = ops1 @ Op_wait_begin w # ops2 \<and>
      fst (data_cache_wait_begin w (cache_run B ops1 (data_cache_new n))) \<in> {Wait_ready r, Wait_blocked r}"
    and "length ops < 2 ^ 64"
  shows "row_of_id w r (cache_run B ops (data_cache_new n))"
proof -
  obtain ops1 ops2 where ops: "ops = ops1 @ Op_wait_begin w # ops2"
    and wb: "fst (data_cache_wait_begin w (cache_run B ops1 (data_cache_new n))) \<in> {Wait_ready r, Wait_blocked r}"
    using assms(1) by blast
  let ?c = "cache_run B ops1 (data_cache_new n)"
  have bound: "ids_bounded ?c" "unat (dc_id_counter ?c) \<le> length ops1" "cache_inv ?c"
    using ids_bounded_run [OF ids_bounded_new, of n ops1 B] assms(2) cache_inv_run [OF cache_inv_new]
    by (simp_all add: ops data_cache_new_def)
  from wb have "map_of (dc_entries ?c) w = Some r" by (auto simp: data_cache_wait_begin_def split: option.splits if_splits)
  from row_of_id_run [OF row_of_id_entry [OF bound(3,1) this], of "Op_wait_begin w # ops2" B] bound assms(2)
  show ?thesis by (simp add: ops)
qed

text \<open>C12: the table with its shared rows implements the store: whatever sequence of fewer than
  \<open>2 ^ 64 - 1\<close> operations came before, every operation does to the map of ids exactly what the store
  does, with the state, the buffer and the validity of each entry. The final swap of a function that waits
  on an id (on the row it has got when it began to wait) puts its buffer into the entry if the wait has
  timed out and the entry is still there, and changes nothing if the entry has gone.\<close>

theorem cache_refines_store:
  fixes B :: "'b flat_buffer" and n :: nat
  assumes "length ops < 2 ^ 64 - 1"
  defines "c \<equiv> cache_run B ops (data_cache_new n)"
  assumes wait_end: "\<And>r b. op = Op_take r b \<Longrightarrow> \<exists>ops1 ops2. ops = ops1 @ Op_wait_begin w # ops2 \<and>
    fst (data_cache_wait_begin w (cache_run B ops1 (data_cache_new n))) \<in> {Wait_ready r, Wait_blocked r}"
  shows "store_step B n (store_op_of w op) (store_view c) (store_view (cache_exec B op c))"
proof -
  have inv: "cache_inv c" unfolding c_def by (rule cache_inv_run [OF cache_inv_new])
  have max: "dc_max_entries c = n" by (simp add: c_def data_cache_new_def)
  have ids: "ids_bounded c" and k: "unat (dc_id_counter c) < 2 ^ 64 - 1"
    using ids_bounded_run [OF ids_bounded_new, of n ops B] assms(1) by (simp_all add: c_def data_cache_new_def)
  show ?thesis
  proof (cases op)
    case (Op_queue now valid)
    with store_step_queue [OF inv ids k] max show ?thesis by simp
  next
    case (Op_wait_begin i)
    then show ?thesis
      by (cases "map_of (dc_entries c) i") (auto simp: data_cache_wait_begin_def store_row_simps inv store_view_def)
  next
    case (Op_take r b)
    from wait_end [OF Op_take] have "row_of_id w r c" unfolding c_def by (rule wait_row) (use assms(1) in simp)
    with Op_take show ?thesis by (simp only: store_op_of.simps store_step_wait_end [OF inv])
  next
    case (Op_swap_notify i b)
    then show ?thesis
      by (cases "map_of (dc_entries c) i")
        (auto simp: data_cache_swap_notify_def Let_def store_row_simps inv store_view_def)
  next
    case (Op_remove_obsolete now)
    have "store_view (data_cache_remove_obsolete now c) i =
        (case store_view c i of Some x \<Rightarrow> if not_expired now x then Some x else None | None \<Rightarrow> None)" for i
      using inv by (auto simp: data_cache_remove_obsolete_def store_view_def remove_obsolete_loop_filter
        map_of_filter_distinct cache_inv_def not_expired_def data_read_valid_def stored_of_def split: option.split)
    with Op_remove_obsolete show ?thesis by (auto simp: fun_eq_iff)
  next
    case Op_clear
    then show ?thesis by (simp add: fun_eq_iff data_cache_clear_def store_view_def)
  qed
qed

theorem cache_refines_store_witness:
  "store_step byte_buffer 3 (St_wait_end 1 [7])
     (store_view (cache_run byte_buffer [Op_queue 0 0, Op_wait_begin 1, Op_queue 0 0] (data_cache_new 3)))
     (store_view (cache_exec byte_buffer (Op_take 0 [7])
        (cache_run byte_buffer [Op_queue 0 0, Op_wait_begin 1, Op_queue 0 0] (data_cache_new 3))))"
proof -
  have "fst (data_cache_wait_begin 1 (cache_run byte_buffer [Op_queue 0 0] (data_cache_new 3))) = Wait_blocked 0"
    by (simp add: data_cache_eval data_cache_wait_begin_def)
  then have "\<exists>ops1 ops2. [Op_queue 0 0, Op_wait_begin 1, Op_queue 0 0] = ops1 @ Op_wait_begin 1 # ops2 \<and>
      fst (data_cache_wait_begin 1 (cache_run byte_buffer ops1 (data_cache_new 3))) \<in> {Wait_ready 0, Wait_blocked 0}"
    by (intro exI [of _ "[Op_queue 0 0]"] exI [of _ "[Op_queue 0 0]"]) simp
  then show ?thesis
    using cache_refines_store [of "[Op_queue 0 0, Op_wait_begin 1, Op_queue 0 0]" "Op_take 0 [7]" 1 byte_buffer 3] by simp
qed

end
