(* ===== verification/Cache_Lifetime.thy ===== *)
theory Cache_Lifetime
  imports Data_Cache "HOL-Library.Multiset"
begin

text \<open>
  The lifetime of the rows of \<^verbatim>\<open>data_cache\<close> (\<^verbatim>\<open>include/radrpc/detail/data.hpp\<close>). A row is owned
  by shared pointers, and each of them is followed here: the one of its entry in the table, the copies the
  operations make for themselves and those of the functions that wait. A copy adds one to the count of the
  row, the end of a pointer takes one away, and the pointer that makes it zero runs the deleter, which calls the
  delete callback of the second overload of \<^verbatim>\<open>queue\<close>. Nothing else deletes a row. The cache of
  \<open>Data_Cache\<close> is one field of the state.
\<close>

section \<open>State\<close>

text \<open>
  \<open>oc_refs\<close> and \<open>oc_callbacks\<close> are what the control block of each row has: its count and its deleter.
  \<open>oc_deleted\<close> and \<open>oc_called\<close> are what the deleters have done.
\<close>

record ('b, 'k) owned_cache =
  oc_cache :: "'b data_cache"
  oc_refs :: "nat list"
  oc_callbacks :: "'k option list"
  oc_deleted :: "row_ref list"
  oc_called :: "'k list"

definition owned_cache_new :: "nat \<Rightarrow> ('b, 'k) owned_cache" where
  "owned_cache_new n = \<lparr>oc_cache = data_cache_new n, oc_refs = [], oc_callbacks = [], oc_deleted = [], oc_called = []\<rparr>"

text \<open>The deleter of a row: \<^verbatim>\<open>delete p\<close>, then the callback if there is one.\<close>

definition callback_of :: "'k option list \<Rightarrow> row_ref \<Rightarrow> 'k list" where
  "callback_of cbs r = (case cbs ! r of None \<Rightarrow> [] | Some cb \<Rightarrow> [cb])"

definition row_deleter :: "row_ref \<Rightarrow> ('b, 'k) owned_cache \<Rightarrow> ('b, 'k) owned_cache" where
  "row_deleter r oc = oc\<lparr>oc_deleted := oc_deleted oc @ [r],
     oc_called := oc_called oc @ callback_of (oc_callbacks oc) r\<rparr>"

text \<open>\<^verbatim>\<open>shared_from_this()\<close> and the copy of a shared pointer; the end of one.\<close>

definition copy_ref :: "row_ref \<Rightarrow> ('b, 'k) owned_cache \<Rightarrow> ('b, 'k) owned_cache" where
  "copy_ref r oc = oc\<lparr>oc_refs := (oc_refs oc)[r := Suc (oc_refs oc ! r)]\<rparr>"

definition drop_ref :: "row_ref \<Rightarrow> ('b, 'k) owned_cache \<Rightarrow> ('b, 'k) owned_cache" where
  "drop_ref r oc =
     (let n = oc_refs oc ! r - 1; oc1 = oc\<lparr>oc_refs := (oc_refs oc)[r := n]\<rparr>
      in if n = 0 then row_deleter r oc1 else oc1)"

section \<open>Operations\<close>

text \<open>
  The overload with a callback; an empty function is \<open>None\<close>, and so is the callback of a row of the
  other overload. Storing under an id ends the pointer of the entry the id had.
\<close>

definition data_cache_queue_callback ::
  "'b flat_buffer \<Rightarrow> time_point \<Rightarrow> duration \<Rightarrow> 'k option \<Rightarrow> ('b, 'k) owned_cache \<Rightarrow> u64 \<times> ('b, 'k) owned_cache" where
  "data_cache_queue_callback B now valid delete_callback oc =
     (let c = oc_cache oc in
      if dc_max_entries c \<le> length (dc_entries c) then (0, oc)
      else let i = dc_id_counter c + 1;
               oc1 = oc\<lparr>oc_cache := c\<lparr>dc_id_counter := i,
                          dc_entries := AList.update i (length (dc_rows c)) (dc_entries c),
                          dc_rows := dc_rows c @ [data_read_new B now valid]\<rparr>,
                        oc_refs := oc_refs oc @ [1], oc_callbacks := oc_callbacks oc @ [delete_callback]\<rparr>
           in (i, case map_of (dc_entries c) i of None \<Rightarrow> oc1 | Some q \<Rightarrow> drop_ref q oc1))"

text \<open>
  \<^verbatim>\<open>wait\<close> copies the pointer of the entry; a row that is already swapped leaves the table. The copy ends
  when the function returns.
\<close>

definition owned_wait_begin :: "u64 \<Rightarrow> ('b, 'k) owned_cache \<Rightarrow> wait_begin \<times> ('b, 'k) owned_cache" where
  "owned_wait_begin i oc =
     (case map_of (dc_entries (oc_cache oc)) i of
        None \<Rightarrow> (Wait_missing, oc)
      | Some r \<Rightarrow>
          (let oc1 = copy_ref r oc
           in case data_cache_wait_begin i (oc_cache oc) of
                (Wait_ready q, c) \<Rightarrow> (Wait_ready q, drop_ref r (oc1\<lparr>oc_cache := c\<rparr>))
              | (w, c) \<Rightarrow> (w, oc1\<lparr>oc_cache := c\<rparr>)))"

definition owned_wait_end :: "row_ref \<Rightarrow> 'b \<Rightarrow> ('b, 'k) owned_cache \<Rightarrow> 'b \<times> ('b, 'k) owned_cache" where
  "owned_wait_end r buffer oc =
     (case data_cache_take r buffer (oc_cache oc) of (b, c) \<Rightarrow> (b, drop_ref r (oc\<lparr>oc_cache := c\<rparr>)))"

text \<open>The others hold a copy of their own while they work on a row.\<close>

definition owned_swap_notify :: "'b flat_buffer \<Rightarrow> u64 \<Rightarrow> 'b \<Rightarrow> ('b, 'k) owned_cache \<Rightarrow> 'b \<times> ('b, 'k) owned_cache" where
  "owned_swap_notify B i buffer oc =
     (case map_of (dc_entries (oc_cache oc)) i of
        None \<Rightarrow> (buffer, oc)
      | Some r \<Rightarrow>
          (case data_cache_swap_notify B i buffer (oc_cache oc) of
             (b, c) \<Rightarrow>
               (let oc1 = (copy_ref r oc)\<lparr>oc_cache := c\<rparr>;
                    oc2 = (if dr_state (dc_rows (oc_cache oc) ! r) = Waiting then drop_ref r oc1 else oc1)
                in (b, drop_ref r oc2))))"

fun owned_remove_loop ::
  "time_point \<Rightarrow> 'b data_read list \<Rightarrow> (u64 \<times> row_ref) list \<Rightarrow> ('b, 'k) owned_cache \<Rightarrow> ('b, 'k) owned_cache" where
  "owned_remove_loop now rows [] oc = oc"
| "owned_remove_loop now rows ((i, r) # es) oc =
     (let oc1 = copy_ref r oc;
          oc2 = (if \<not> data_read_valid now (rows ! r) then drop_ref r oc1 else oc1)
      in owned_remove_loop now rows es (drop_ref r oc2))"

definition owned_remove_obsolete :: "time_point \<Rightarrow> ('b, 'k) owned_cache \<Rightarrow> ('b, 'k) owned_cache" where
  "owned_remove_obsolete now oc =
     (owned_remove_loop now (dc_rows (oc_cache oc)) (dc_entries (oc_cache oc)) oc)
       \<lparr>oc_cache := data_cache_remove_obsolete now (oc_cache oc)\<rparr>"

fun owned_clear_loop :: "(u64 \<times> row_ref) list \<Rightarrow> ('b, 'k) owned_cache \<Rightarrow> ('b, 'k) owned_cache" where
  "owned_clear_loop [] oc = oc"
| "owned_clear_loop ((i, r) # es) oc = owned_clear_loop es (drop_ref r (drop_ref r (copy_ref r oc)))"

definition owned_clear :: "('b, 'k) owned_cache \<Rightarrow> ('b, 'k) owned_cache" where
  "owned_clear oc = (owned_clear_loop (dc_entries (oc_cache oc)) oc)\<lparr>oc_cache := data_cache_clear (oc_cache oc)\<rparr>"

section \<open>The calls of all threads\<close>

text \<open>
  \<open>us_waiting\<close> are the rows of the functions that are inside \<^verbatim>\<open>wait\<close>, as its first part has told them, and
  \<open>us_given\<close> the callbacks passed to those calls of \<^verbatim>\<open>queue\<close> that found room in the table. Neither is read by an
  operation.
\<close>

record ('b, 'k) cache_users =
  us_cache :: "('b, 'k) owned_cache"
  us_waiting :: "row_ref list"
  us_given :: "'k list"

definition users_new :: "nat \<Rightarrow> ('b, 'k) cache_users" where
  "users_new n = \<lparr>us_cache = owned_cache_new n, us_waiting = [], us_given = []\<rparr>"

definition has_room :: "('b, 'k) cache_users \<Rightarrow> bool" where
  "has_room u \<longleftrightarrow> data_cache_size (oc_cache (us_cache u)) < dc_max_entries (oc_cache (us_cache u))"

fun wait_rows :: "wait_begin \<Rightarrow> row_ref list" where
  "wait_rows Wait_missing = []"
| "wait_rows (Wait_ready r) = [r]"
| "wait_rows (Wait_blocked r) = [r]"

datatype ('b, 'k) owned_op =
    Own_queue time_point duration "'k option"
  | Own_wait_begin u64
  | Own_wait_end row_ref 'b
  | Own_swap_notify u64 'b
  | Own_remove_obsolete time_point
  | Own_clear

fun owned_exec :: "'b flat_buffer \<Rightarrow> ('b, 'k) owned_op \<Rightarrow> ('b, 'k) cache_users \<Rightarrow> ('b, 'k) cache_users" where
  "owned_exec B (Own_queue now valid cb) u =
     u\<lparr>us_cache := snd (data_cache_queue_callback B now valid cb (us_cache u)),
       us_given := us_given u @ (if has_room u then (case cb of None \<Rightarrow> [] | Some k \<Rightarrow> [k]) else [])\<rparr>"
| "owned_exec B (Own_wait_begin i) u =
     (case owned_wait_begin i (us_cache u) of (w, oc) \<Rightarrow> u\<lparr>us_cache := oc, us_waiting := us_waiting u @ wait_rows w\<rparr>)"
| "owned_exec B (Own_wait_end r b) u =
     u\<lparr>us_cache := snd (owned_wait_end r b (us_cache u)), us_waiting := remove1 r (us_waiting u)\<rparr>"
| "owned_exec B (Own_swap_notify i b) u = u\<lparr>us_cache := snd (owned_swap_notify B i b (us_cache u))\<rparr>"
| "owned_exec B (Own_remove_obsolete now) u = u\<lparr>us_cache := owned_remove_obsolete now (us_cache u)\<rparr>"
| "owned_exec B Own_clear u = u\<lparr>us_cache := owned_clear (us_cache u)\<rparr>"

text \<open>Only a function that is inside \<^verbatim>\<open>wait\<close> returns from it.\<close>

fun owned_legal :: "('b, 'k) owned_op \<Rightarrow> ('b, 'k) cache_users \<Rightarrow> bool" where
  "owned_legal (Own_wait_end r b) u \<longleftrightarrow> r \<in> set (us_waiting u)"
| "owned_legal _ u \<longleftrightarrow> True"

inductive owned_step ::
  "'b flat_buffer \<Rightarrow> ('b, 'k) cache_users \<Rightarrow> ('b, 'k) owned_op \<Rightarrow> ('b, 'k) cache_users \<Rightarrow> bool"
  for B :: "'b flat_buffer" where
  owned_stepI: "owned_legal op u \<Longrightarrow> owned_step B u op (owned_exec B op u)"

inductive_simps owned_step_iff: "owned_step B u op u'"

definition owned_run :: "'b flat_buffer \<Rightarrow> ('b, 'k) owned_op list \<Rightarrow> ('b, 'k) cache_users \<Rightarrow> ('b, 'k) cache_users" where
  "owned_run B ops u = fold (owned_exec B) ops u"

definition owned_start :: "('b, 'k) cache_users \<Rightarrow> bool" where
  "owned_start u \<longleftrightarrow> (\<exists>n. u = users_new n)"

section \<open>Counting\<close>

text \<open>\<open>counted oc M\<close>: the counts of the rows are those of the shared pointers \<open>M\<close> that there are.\<close>

definition counted :: "('b, 'k) owned_cache \<Rightarrow> row_ref multiset \<Rightarrow> bool" where
  "counted oc M \<longleftrightarrow> length (oc_callbacks oc) = length (oc_refs oc) \<and> set_mset M \<subseteq> {..<length (oc_refs oc)} \<and>
     (\<forall>r < length (oc_refs oc). oc_refs oc ! r = count M r) \<and> distinct (oc_deleted oc) \<and>
     set (oc_deleted oc) = {..<length (oc_refs oc)} - set_mset M \<and>
     oc_called oc = concat (map (callback_of (oc_callbacks oc)) (oc_deleted oc))"

lemma counted_cache [simp]: "counted (oc\<lparr>oc_cache := c\<rparr>) M = counted oc M"
  by (simp add: counted_def)

lemma counted_copy: "counted oc M \<Longrightarrow> r \<in># M \<Longrightarrow> counted (copy_ref r oc) (add_mset r M)"
  by (auto simp: counted_def copy_ref_def nth_list_update)

lemma counted_drop:
  assumes c: "counted oc (add_mset r M)"
  shows "counted (drop_ref r oc) M"
proof -
  let ?n = "length (oc_refs oc)"
  have n: "oc_refs oc ! r - 1 = count M r" "r < ?n" using c by (auto simp: counted_def)
  have refs: "\<forall>q < ?n. (oc_refs oc)[r := count M r] ! q = count M q"
    using c by (auto simp: counted_def nth_list_update)
  show ?thesis
  proof (cases "count M r = 0")
    case True
    then have "r \<notin># M" by (simp add: count_eq_zero_iff)
    moreover from this have "{..<?n} - set_mset M = insert r ({..<?n} - set_mset (add_mset r M))" using n(2) by auto
    ultimately show ?thesis
      using c refs n(2) True by (auto simp: counted_def drop_ref_def row_deleter_def Let_def n(1))
  next
    case False
    then have "set_mset (add_mset r M) = set_mset M" by (auto simp: count_eq_zero_iff)
    moreover have "drop_ref r oc = oc\<lparr>oc_refs := (oc_refs oc)[r := count M r]\<rparr>"
      unfolding drop_ref_def Let_def n(1) if_not_P [OF False] ..
    ultimately show ?thesis using c refs by (simp add: counted_def)
  qed
qed

lemma counted_new:
  assumes c: "counted oc M"
  shows "counted (oc\<lparr>oc_cache := cache, oc_refs := oc_refs oc @ [1], oc_callbacks := oc_callbacks oc @ [cb]\<rparr>)
    (add_mset (length (oc_refs oc)) M)"
proof -
  let ?n = "length (oc_refs oc)"
  have len: "length (oc_callbacks oc) = ?n" and below: "?n \<notin># M" "set (oc_deleted oc) \<subseteq> {..<?n}"
    using c by (auto simp: counted_def)
  have "callback_of (oc_callbacks oc @ [cb]) r = callback_of (oc_callbacks oc) r" if "r \<in> set (oc_deleted oc)" for r
    using that below(2) len by (auto simp: callback_of_def nth_append)
  then have "map (callback_of (oc_callbacks oc @ [cb])) (oc_deleted oc) = map (callback_of (oc_callbacks oc)) (oc_deleted oc)"
    by simp
  then have "oc_called oc = concat (map (callback_of (oc_callbacks oc @ [cb])) (oc_deleted oc))"
    using c by (simp only: counted_def)
  moreover have "count M ?n = 0" using below(1) by (simp add: count_eq_zero_iff)
  ultimately show ?thesis using c below(1) by (auto simp: counted_def nth_append less_Suc_eq simp del: map_eq_conv)
qed

lemma update_pointers:
  "mset (map snd (AList.update k v es)) =
     add_mset v (case map_of es k of None \<Rightarrow> mset (map snd es) | Some q \<Rightarrow> mset (map snd es) - {#q#})"
proof (induction es)
  case (Cons x es)
  obtain j q where x: "x = (j, q)" by (cases x)
  show ?case
  proof (cases "map_of es k")
    case (Some p)
    then have "p \<in># mset (map snd es)" by (force dest: map_of_SomeD)
    with Cons Some show ?thesis by (auto simp: x)
  qed (use Cons in \<open>auto simp: x\<close>)
qed simp

lemma delete_pointers:
  "distinct (map fst es) \<Longrightarrow> map_of es k = Some q \<Longrightarrow> mset (map snd es) = add_mset q (mset (map snd (AList.delete k es)))"
  by (induction es) (auto simp: delete_id split: if_splits dest: map_of_SomeD)

text \<open>The pointers of the entries, and the steps of the operations on the counts.\<close>

abbreviation entry_refs :: "'b data_cache \<Rightarrow> row_ref multiset" where
  "entry_refs c \<equiv> mset (map snd (dc_entries c))"

lemma entry_ref: "map_of (dc_entries c) i = Some r \<Longrightarrow> r \<in># entry_refs c"
  by (force dest: map_of_SomeD)

lemma ref_frame [simp]:
  "oc_cache (drop_ref r oc) = oc_cache oc" "length (oc_refs (drop_ref r oc)) = length (oc_refs oc)"
  "oc_callbacks (drop_ref r oc) = oc_callbacks oc" "oc_cache (copy_ref r oc) = oc_cache oc"
  "length (oc_refs (copy_ref r oc)) = length (oc_refs oc)" "oc_callbacks (copy_ref r oc) = oc_callbacks oc"
  by (simp_all add: drop_ref_def copy_ref_def row_deleter_def Let_def)

lemma queue_frame:
  "oc_cache (snd (data_cache_queue_callback B now valid cb oc)) = snd (data_cache_queue B now valid (oc_cache oc))"
  "length (oc_refs oc) = length (dc_rows (oc_cache oc)) \<Longrightarrow> length (oc_refs (snd (data_cache_queue_callback B now valid cb oc))) =
     length (dc_rows (snd (data_cache_queue B now valid (oc_cache oc))))"
  "oc_callbacks (snd (data_cache_queue_callback B now valid cb oc)) = oc_callbacks oc @
     (if dc_max_entries (oc_cache oc) \<le> length (dc_entries (oc_cache oc)) then [] else [cb])"
  by (simp_all add: data_cache_queue_callback_def data_cache_queue_def Let_def split: option.split)

lemma counted_queue:
  assumes c: "counted oc (entry_refs (oc_cache oc) + N)" and len: "length (oc_refs oc) = length (dc_rows (oc_cache oc))"
  shows "counted (snd (data_cache_queue_callback B now valid cb oc))
    (entry_refs (snd (data_cache_queue B now valid (oc_cache oc))) + N)"
proof (cases "dc_max_entries (oc_cache oc) \<le> length (dc_entries (oc_cache oc))")
  case True
  with c show ?thesis by (simp add: data_cache_queue_callback_def data_cache_queue_def)
next
  case False
  let ?c = "oc_cache oc" and ?i = "dc_id_counter (oc_cache oc) + 1"
  note new = counted_new [OF c, unfolded len]
  show ?thesis
  proof (cases "map_of (dc_entries ?c) ?i")
    case None
    with False new show ?thesis
      by (simp add: data_cache_queue_callback_def data_cache_queue_def Let_def update_pointers del: mset_map)
  next
    case (Some q)
    then have "add_mset (length (dc_rows ?c)) (entry_refs ?c + N) =
        add_mset q (add_mset (length (dc_rows ?c)) (entry_refs ?c - {#q#} + N))"
      using entry_ref [OF Some] by (simp add: insert_DiffM del: mset_map)
    from counted_drop [OF new [unfolded this]] False Some show ?thesis
      by (simp add: data_cache_queue_callback_def data_cache_queue_def Let_def update_pointers del: mset_map)
  qed
qed

lemma counted_wait_begin:
  assumes inv: "cache_inv (oc_cache oc)" and c: "counted oc (entry_refs (oc_cache oc) + N)"
  shows "counted (snd (owned_wait_begin i oc))
    (entry_refs (oc_cache (snd (owned_wait_begin i oc))) + (mset (wait_rows (fst (owned_wait_begin i oc))) + N))"
proof (cases "map_of (dc_entries (oc_cache oc)) i")
  case None
  with c show ?thesis by (simp add: owned_wait_begin_def)
next
  case (Some r)
  let ?c = "oc_cache oc"
  have copied: "counted (copy_ref r oc) (add_mset r (entry_refs ?c + N))"
    using counted_copy [OF c] entry_ref [OF Some] by simp
  show ?thesis
  proof (cases "dr_state (dc_rows ?c ! r) = Swapped")
    case True
    have "entry_refs ?c = add_mset r (mset (map snd (AList.delete i (dc_entries ?c))))"
      using Some inv by (intro delete_pointers) (simp_all add: cache_inv_def distinct_keys_def)
    with copied counted_drop [of "(copy_ref r oc)\<lparr>oc_cache := cc\<rparr>" r for cc] Some True show ?thesis
      by (simp add: owned_wait_begin_def data_cache_wait_begin_def Let_def)
  next
    case False
    with copied Some show ?thesis by (simp add: owned_wait_begin_def data_cache_wait_begin_def Let_def)
  qed
qed

lemma counted_wait_end:
  assumes c: "counted oc (entry_refs (oc_cache oc) + add_mset r N)"
  shows "counted (snd (owned_wait_end r b oc)) (entry_refs (oc_cache oc) + N)"
  using counted_drop [of "oc\<lparr>oc_cache := cc\<rparr>" r "entry_refs (oc_cache oc) + N" for cc] c
  by (simp add: owned_wait_end_def split_def)

lemma counted_swap_notify:
  assumes inv: "cache_inv (oc_cache oc)" and c: "counted oc (entry_refs (oc_cache oc) + N)"
  shows "counted (snd (owned_swap_notify B i b oc)) (entry_refs (snd (data_cache_swap_notify B i b (oc_cache oc))) + N)"
proof (cases "map_of (dc_entries (oc_cache oc)) i")
  case None
  with c show ?thesis by (simp add: owned_swap_notify_def data_cache_swap_notify_def)
next
  case (Some r)
  let ?c = "oc_cache oc"
  have copied: "counted ((copy_ref r oc)\<lparr>oc_cache := cc\<rparr>) (add_mset r (entry_refs ?c + N))" for cc
    using counted_copy [OF c] entry_ref [OF Some] by simp
  show ?thesis
  proof (cases "dr_state (dc_rows ?c ! r) = Waiting")
    case True
    have "entry_refs ?c = add_mset r (mset (map snd (AList.delete i (dc_entries ?c))))"
      using Some inv by (intro delete_pointers) (simp_all add: cache_inv_def distinct_keys_def)
    then have "counted ((copy_ref r oc)\<lparr>oc_cache := cc\<rparr>)
        (add_mset r (add_mset r (mset (map snd (AList.delete i (dc_entries ?c))) + N)))" for cc
      using copied [of cc] by simp
    from counted_drop [OF counted_drop [OF this]] Some True show ?thesis
      by (simp add: owned_swap_notify_def data_cache_swap_notify_def Let_def del: mset_map)
  next
    case False
    with counted_drop [OF copied] Some show ?thesis
      by (simp add: owned_swap_notify_def data_cache_swap_notify_def Let_def split_def)
  qed
qed

lemma counted_remove_loop:
  "counted oc (mset (map snd es) + N) \<Longrightarrow>
   counted (owned_remove_loop now rows es oc) (mset (map snd (remove_obsolete_loop now rows es)) + N)"
proof (induction es arbitrary: oc N)
  case (Cons x es)
  obtain i r where x: "x = (i, r)" by (cases x)
  from Cons.prems have "counted (copy_ref r oc) (add_mset r (add_mset r (mset (map snd es) + N)))"
    using counted_copy [of oc _ r] by (simp add: x)
  note copied = counted_drop [OF this]
  show ?case
  proof (cases "data_read_valid now (rows ! r)")
    case True
    with Cons.IH [of "drop_ref r (copy_ref r oc)" "add_mset r N"] copied show ?thesis by (simp add: x)
  next
    case False
    with Cons.IH [OF counted_drop [OF copied]] show ?thesis by (simp add: x)
  qed
qed simp

lemma counted_clear_loop: "counted oc (mset (map snd es) + N) \<Longrightarrow> counted (owned_clear_loop es oc) N"
proof (induction es arbitrary: oc)
  case (Cons x es)
  obtain i r where x: "x = (i, r)" by (cases x)
  from Cons.prems have "counted (copy_ref r oc) (add_mset r (add_mset r (mset (map snd es) + N)))"
    using counted_copy [of oc _ r] by (simp add: x)
  then have "counted (drop_ref r (drop_ref r (copy_ref r oc))) (mset (map snd es) + N)" by (intro counted_drop)
  with Cons.IH show ?case by (simp add: x)
qed simp

section \<open>Invariant\<close>

definition users_inv :: "('b, 'k) cache_users \<Rightarrow> bool" where
  "users_inv u \<longleftrightarrow> cache_inv (oc_cache (us_cache u)) \<and>
     length (oc_refs (us_cache u)) = length (dc_rows (oc_cache (us_cache u))) \<and>
     counted (us_cache u) (entry_refs (oc_cache (us_cache u)) + mset (us_waiting u)) \<and>
     us_given u = List.map_filter id (oc_callbacks (us_cache u))"

text \<open>
  With the references forgotten every operation is the one of the cache, so what is proved of the cache
  holds of the table with its shared pointers.
\<close>

fun cache_op_of :: "('b, 'k) owned_op \<Rightarrow> 'b cache_op" where
  "cache_op_of (Own_queue now valid cb) = Op_queue now valid"
| "cache_op_of (Own_wait_begin i) = Op_wait_begin i"
| "cache_op_of (Own_wait_end r b) = Op_take r b"
| "cache_op_of (Own_swap_notify i b) = Op_swap_notify i b"
| "cache_op_of (Own_remove_obsolete now) = Op_remove_obsolete now"
| "cache_op_of Own_clear = Op_clear"

lemma loop_frame [simp]:
  "length (oc_refs (owned_remove_loop now rows es oc)) = length (oc_refs oc)"
  "oc_callbacks (owned_remove_loop now rows es oc) = oc_callbacks oc"
  "length (oc_refs (owned_clear_loop es oc)) = length (oc_refs oc)"
  "oc_callbacks (owned_clear_loop es oc) = oc_callbacks oc"
  by (induction es arbitrary: oc) (auto simp: Let_def)

lemma wait_begin_frame:
  "oc_cache (snd (owned_wait_begin i oc)) = snd (data_cache_wait_begin i (oc_cache oc))"
  "length (oc_refs (snd (owned_wait_begin i oc))) = length (oc_refs oc)"
  "oc_callbacks (snd (owned_wait_begin i oc)) = oc_callbacks oc"
  by (auto simp: owned_wait_begin_def data_cache_wait_begin_def Let_def split: option.split)

lemma swap_notify_frame:
  "oc_cache (snd (owned_swap_notify B i b oc)) = snd (data_cache_swap_notify B i b (oc_cache oc))"
  "length (oc_refs (snd (owned_swap_notify B i b oc))) = length (oc_refs oc)"
  "oc_callbacks (snd (owned_swap_notify B i b oc)) = oc_callbacks oc"
  by (auto simp: owned_swap_notify_def data_cache_swap_notify_def Let_def split: option.split prod.split)

lemma owned_exec_cache: "oc_cache (us_cache (owned_exec B op u)) = cache_exec B (cache_op_of op) (oc_cache (us_cache u))"
  by (cases op) (simp_all add: queue_frame wait_begin_frame swap_notify_frame owned_wait_end_def owned_remove_obsolete_def
      owned_clear_def split_def)

lemma users_inv_exec:
  assumes inv: "users_inv u" and legal: "owned_legal op u"
  shows "users_inv (owned_exec B op u)"
proof -
  let ?oc = "us_cache u" and ?u = "owned_exec B op u"
  have ci: "cache_inv (oc_cache ?oc)" and len: "length (oc_refs ?oc) = length (dc_rows (oc_cache ?oc))"
    and c: "counted ?oc (entry_refs (oc_cache ?oc) + mset (us_waiting u))"
    and given: "us_given u = List.map_filter id (oc_callbacks ?oc)"
    using inv by (simp_all add: users_inv_def)
  have "cache_inv (oc_cache (us_cache ?u))" unfolding owned_exec_cache by (rule cache_inv_exec [OF ci])
  moreover have "length (oc_refs (us_cache ?u)) = length (dc_rows (oc_cache (us_cache ?u)))"
    unfolding owned_exec_cache using len entries_exec [of "cache_op_of op" B "oc_cache ?oc"]
    by (cases op) (simp_all add: queue_frame wait_begin_frame swap_notify_frame owned_wait_end_def owned_remove_obsolete_def
      owned_clear_def split_def)
  moreover have "us_given ?u = List.map_filter id (oc_callbacks (us_cache ?u))"
    using given by (cases op) (auto simp: queue_frame wait_begin_frame swap_notify_frame owned_wait_end_def
      owned_remove_obsolete_def owned_clear_def split_def has_room_def data_cache_size_def List.map_filter_def split: option.split)
  moreover have "counted (us_cache ?u) (entry_refs (oc_cache (us_cache ?u)) + mset (us_waiting ?u))"
  proof (cases op)
    case (Own_queue now valid cb)
    with counted_queue [OF c len] show ?thesis by (simp add: queue_frame del: mset_map)
  next
    case (Own_wait_begin i)
    with counted_wait_begin [OF ci c, of i] show ?thesis by (simp add: split_def add_ac del: mset_map)
  next
    case (Own_wait_end r b)
    then have "mset (us_waiting u) = add_mset r (mset (remove1 r (us_waiting u)))" using legal by simp
    note counted_wait_end [OF c [unfolded this], of b]
    with Own_wait_end show ?thesis
      by (simp add: owned_wait_end_def data_cache_take_def del: mset_map mset_remove1)
  next
    case (Own_swap_notify i b)
    with counted_swap_notify [OF ci c, of B i b] show ?thesis by (simp add: swap_notify_frame del: mset_map)
  next
    case (Own_remove_obsolete now)
    with counted_remove_loop [OF c, of now "dc_rows (oc_cache ?oc)"] show ?thesis
      by (simp add: owned_remove_obsolete_def data_cache_remove_obsolete_def del: mset_map)
  next
    case Own_clear
    with counted_clear_loop [OF c] show ?thesis by (simp add: owned_clear_def data_cache_clear_def)
  qed
  ultimately show ?thesis by (simp add: users_inv_def)
qed

lemma users_inv_new: "users_inv (users_new n)"
  using cache_inv_new [of n]
  by (simp add: users_inv_def users_new_def owned_cache_new_def counted_def List.map_filter_def) (simp add: data_cache_new_def)

interpretation lifetime_sys: invariant_system owned_start "owned_step B" users_inv
  by unfold_locales (auto simp: owned_start_def owned_step_iff users_inv_new users_inv_exec)

section \<open>Properties\<close>

text \<open>C15: the rows of the cache live exactly as long as they are used. In every state the calls of any
  number of threads can reach, a row has been deleted if and only if no entry of the table leads to it and no
  function that is inside \<^verbatim>\<open>wait\<close> has it: none is deleted while it is used and none leaks. No row is deleted
  twice, and no pointer leads to a row that was never made.\<close>

theorem rows_live_while_used:
  fixes B :: "'b flat_buffer" and u :: "('b, 'k) cache_users"
  assumes "reachable owned_start (owned_step B) u"
  defines "c \<equiv> oc_cache (us_cache u)" and "used \<equiv> snd ` set (dc_entries (oc_cache (us_cache u))) \<union> set (us_waiting u)"
  shows "set (oc_deleted (us_cache u)) = {..<length (dc_rows c)} - used \<and> used \<subseteq> {..<length (dc_rows c)} \<and>
    distinct (oc_deleted (us_cache u))"
proof -
  have inv: "users_inv u" using assms(1) by (rule lifetime_sys.reachable_inv)
  then have len: "length (oc_refs (us_cache u)) = length (dc_rows c)" by (simp add: users_inv_def c_def)
  have "used \<subseteq> {..<length (oc_refs (us_cache u))}" using inv by (auto simp: users_inv_def counted_def used_def)
  moreover have "set (oc_deleted (us_cache u)) = {..<length (oc_refs (us_cache u))} - used \<and> distinct (oc_deleted (us_cache u))"
    using inv by (simp add: users_inv_def counted_def used_def)
  ultimately show ?thesis unfolding len by simp
qed

lemma owned_run_simps [simp]:
  "owned_run B [] u = u" "owned_run B (op # ops) u = owned_run B ops (owned_exec B op u)"
  by (simp_all add: owned_run_def)

lemma owned_reachable_exec:
  "reachable owned_start (owned_step B) u \<Longrightarrow> owned_legal op u \<Longrightarrow> reachable owned_start (owned_step B) (owned_exec B op u)"
  by (rule reach_step) (auto intro: owned_stepI)

lemma owned_reachable_new: "reachable owned_start (owned_step B) (users_new n)"
  by (rule reach_init) (auto simp: owned_start_def)

lemmas owned_eval = users_new_def owned_cache_new_def data_cache_new_def data_cache_queue_callback_def owned_wait_begin_def
  owned_wait_end_def data_cache_wait_begin_def data_cache_take_def data_cache_remove_obsolete_def data_read_valid_def
  data_read_new_def milliseconds_count_def signed_divide_int_def owned_remove_obsolete_def copy_ref_def drop_ref_def
  row_deleter_def callback_of_def has_room_def data_cache_size_def Let_def

text \<open>An entry expires while a function waits on it: the row stays until the function returns.\<close>

theorem rows_live_while_used_witness:
  "oc_deleted (us_cache (owned_run byte_buffer [Own_queue 0 1000000 (Some ''a''), Own_wait_begin 1,
       Own_remove_obsolete 2000000] (users_new 5))) = [] \<and>
   set (oc_deleted (us_cache (owned_run byte_buffer [Own_queue 0 1000000 (Some ''a''), Own_wait_begin 1,
       Own_remove_obsolete 2000000, Own_wait_end 0 []] (users_new 5)))) = {0}"
proof -
  let ?u = "owned_run byte_buffer [Own_queue 0 1000000 (Some ''a''), Own_wait_begin 1,
       Own_remove_obsolete 2000000] (users_new 5)"
  have "reachable owned_start (owned_step byte_buffer) ?u"
    unfolding owned_run_simps by (intro owned_reachable_exec owned_reachable_new) simp_all
  moreover from this have "reachable owned_start (owned_step byte_buffer) (owned_exec byte_buffer (Own_wait_end 0 []) ?u)"
    by (rule owned_reachable_exec) (simp add: owned_eval)
  ultimately show ?thesis
    using rows_live_while_used [of byte_buffer ?u]
      rows_live_while_used [of byte_buffer "owned_exec byte_buffer (Own_wait_end 0 []) ?u"]
    by (simp add: owned_eval lessThan_Suc)
qed

text \<open>Ending every wait, in whatever order the functions return.\<close>

lemma wait_end_fields:
  "dc_entries (oc_cache (us_cache (owned_exec B (Own_wait_end r b) u))) = dc_entries (oc_cache (us_cache u))"
  "us_waiting (owned_exec B (Own_wait_end r b) u) = remove1 r (us_waiting u)"
  "us_given (owned_exec B (Own_wait_end r b) u) = us_given u"
  by (simp_all add: owned_wait_end_def data_cache_take_def)

lemma waits_end:
  fixes B :: "'b flat_buffer"
  assumes "users_inv u" and "mset (map fst ends) = mset (us_waiting u)"
  defines "u' \<equiv> owned_run B (map (\<lambda>(r, b). Own_wait_end r b) ends) u"
  shows "users_inv u' \<and> us_waiting u' = [] \<and> dc_entries (oc_cache (us_cache u')) = dc_entries (oc_cache (us_cache u)) \<and>
    us_given u' = us_given u"
  using assms(1,2) unfolding u'_def
proof (induction ends arbitrary: u)
  case (Cons x ends)
  obtain r b where x: "x = (r, b)" by (cases x)
  let ?u = "owned_exec B (Own_wait_end r b) u"
  have r: "r \<in> set (us_waiting u)" using Cons.prems(2) x by (metis fst_conv list.set_intros(1) list.simps(9) mset_eq_setD)
  then have "users_inv ?u" using Cons.prems(1) by (intro users_inv_exec) simp_all
  moreover have "mset (map fst ends) = mset (us_waiting ?u)"
    using Cons.prems(2) x by (simp add: wait_end_fields(2) del: owned_exec.simps) (metis add_mset_remove_trivial)
  ultimately show ?case using Cons.IH [of ?u] by (simp add: x wait_end_fields del: owned_exec.simps)
qed simp

lemma concat_callbacks: "concat (map (callback_of cbs) [0..<length cbs]) = List.map_filter id cbs"
proof -
  have "concat (map (callback_of cbs) [0..<length cbs]) = concat (map (case_option [] (\<lambda>cb. [cb])) (map ((!) cbs) [0..<length cbs]))"
    by (simp add: callback_of_def [abs_def] comp_def)
  also have "\<dots> = concat (map (case_option [] (\<lambda>cb. [cb])) cbs)" by (simp add: map_nth)
  also have "\<dots> = List.map_filter id cbs" by (induction cbs) (simp_all split: option.split)
  finally show ?thesis .
qed

lemma all_deleted:
  assumes "users_inv u" and "dc_entries (oc_cache (us_cache u)) = []" and "us_waiting u = []"
  shows "mset (oc_called (us_cache u)) = mset (us_given u)"
proof -
  let ?oc = "us_cache u"
  have c: "counted ?oc {#}" and given: "us_given u = List.map_filter id (oc_callbacks ?oc)"
    using assms by (simp_all add: users_inv_def)
  let ?n = "length (oc_callbacks ?oc)"
  have "set (oc_deleted ?oc) = set [0..<?n]" "distinct (oc_deleted ?oc)"
    using c by (auto simp: counted_def)
  then have "mset (oc_deleted ?oc) = mset [0..<?n]" by (metis distinct_upt set_eq_iff_mset_eq_distinct)
  then have "mset (concat (map (callback_of (oc_callbacks ?oc)) (oc_deleted ?oc))) =
      mset (concat (map (callback_of (oc_callbacks ?oc)) [0..<?n]))"
    by (simp add: mset_concat flip: sum_mset_sum_list)
  then show ?thesis using c by (simp add: counted_def given flip: concat_callbacks)
qed

text \<open>C16: every callback is called once. From every state the calls of any number of threads can reach, when the
  cache is then cleared (as a session does that closes) and the functions that are inside \<^verbatim>\<open>wait\<close> return, in any
  order, the callbacks called are exactly those that were passed to \<^verbatim>\<open>queue\<close> when the table had
  room, each as often as it was passed; a callback passed to a call that was refused is never called.\<close>

theorem callbacks_called_once:
  fixes B :: "'b flat_buffer" and u :: "('b, 'k) cache_users"
  assumes "reachable owned_start (owned_step B) u" and ends: "mset (map fst ends) = mset (us_waiting u)"
  shows "mset (oc_called (us_cache (owned_run B (Own_clear # map (\<lambda>(r, b). Own_wait_end r b) ends) u))) = mset (us_given u)"
proof -
  let ?u = "owned_exec B Own_clear u"
  have "users_inv ?u"
    using lifetime_sys.reachable_inv [OF assms(1)] by (rule users_inv_exec) simp
  moreover have "dc_entries (oc_cache (us_cache ?u)) = []" "us_waiting ?u = us_waiting u" "us_given ?u = us_given u"
    by (simp_all add: owned_clear_def data_cache_clear_def)
  ultimately show ?thesis
    using waits_end [of ?u ends B] ends all_deleted [of "owned_run B (map (\<lambda>(r, b). Own_wait_end r b) ends) ?u"]
    by (simp del: owned_exec.simps)
qed

theorem callbacks_called_once_witness:
  "mset (oc_called (us_cache (owned_run byte_buffer (Own_clear # map (\<lambda>(r, b). Own_wait_end r b) [(0, [])])
     (owned_run byte_buffer [Own_queue 0 0 (Some ''a''), Own_queue 0 0 None, Own_queue 0 0 (Some ''b''),
        Own_queue 0 0 (Some ''refused''), Own_wait_begin 1] (users_new 3))))) = {#''a'', ''b''#}"
proof -
  let ?u = "owned_run byte_buffer [Own_queue 0 0 (Some ''a''), Own_queue 0 0 None, Own_queue 0 0 (Some ''b''),
    Own_queue 0 0 (Some ''refused''), Own_wait_begin 1] (users_new 3)"
  have "reachable owned_start (owned_step byte_buffer) ?u"
    unfolding owned_run_simps by (intro owned_reachable_exec owned_reachable_new) simp_all
  moreover have "us_waiting ?u = [0]" "us_given ?u = [''a'', ''b'']"
    by (simp_all add: owned_eval)
  ultimately show ?thesis using callbacks_called_once [of byte_buffer ?u "[(0, [])]"] by simp
qed

end
