(* ===== verification/Operations.thy ===== *)
theory Operations
  imports Radrpc_Types
begin

text \<open>
  \<^verbatim>\<open>include/radrpc/detail/operations.hpp\<close>: posting a handler to the executor of a session
  without owning the session, with or without waiting for it, and the timeouts a thread sets
  for its next calls.
\<close>

section \<open>Promises\<close>

text \<open>
  A \<^verbatim>\<open>std::promise<bool>\<close> is owned by the function that waits for it; handlers hold a
  \<^verbatim>\<open>std::weak_ptr\<close>. In a store of promises \<open>None\<close> is a promise whose owner is gone,
  \<open>Some None\<close> one without a value and \<open>Some (Some v)\<close> one with the value \<open>v\<close>. A second
  \<^verbatim>\<open>set_value\<close> throws.
\<close>

type_synonym promises = "nat \<Rightarrow> bool option option"

definition promise_set_value :: "nat \<Rightarrow> bool \<Rightarrow> promises \<Rightarrow> error_code \<times> promises" where
  "promise_set_value p v P =
     (case P p of
        None \<Rightarrow> (No_error, P)
      | Some None \<Rightarrow> (No_error, P(p \<mapsto> Some v))
      | Some (Some _) \<Rightarrow> (Other_error 0, P))"

definition promise_ready :: "promises \<Rightarrow> nat \<Rightarrow> bool" where
  "promise_ready P p \<longleftrightarrow> (\<exists>v. P p = Some (Some v))"

lemma promise_ready_code [code]:
  "promise_ready P p \<longleftrightarrow> (case P p of Some (Some v) \<Rightarrow> True | _ \<Rightarrow> False)"
  by (auto simp: promise_ready_def split: option.split)

lemma promise_set_value_keeps:
  "P p = Some (Some v) \<Longrightarrow> snd (promise_set_value q w P) p = Some (Some v)"
  by (auto simp: promise_set_value_def split: option.split)

lemma promise_set_value_other [simp]:
  "q \<noteq> p \<Longrightarrow> snd (promise_set_value p v P) q = P q"
  by (simp add: promise_set_value_def split: option.split)

lemma promise_set_value_pending [simp]:
  "P p = Some None \<Longrightarrow> snd (promise_set_value p v P) p = Some (Some v)"
  by (simp add: promise_set_value_def)

section \<open>Posting\<close>

text \<open>
  What the executor runs for a posted handler: \<open>alive\<close> tells whether the weak reference to the
  session could be locked, an empty \<^verbatim>\<open>std::function\<close> is \<open>None\<close>.
\<close>

definition weak_post :: "bool \<Rightarrow> ('s \<Rightarrow> 's) option \<Rightarrow> 's \<Rightarrow> 's" where
  "weak_post alive handler s =
     (if alive then (case handler of Some h \<Rightarrow> h s | None \<Rightarrow> s) else s)"

definition wait_weak_post_handler ::
  "bool \<Rightarrow> ('s \<Rightarrow> 's) option \<Rightarrow> nat \<Rightarrow> 's \<times> promises \<Rightarrow> 's \<times> promises" where
  "wait_weak_post_handler alive handler p = (\<lambda>(s, P).
     (if alive then (case handler of Some h \<Rightarrow> h s | None \<Rightarrow> s) else s,
      snd (promise_set_value p True P)))"

text \<open>
  The waiting function: it posts, waits, and reports whether the promise has a value.
  \<open>executor\<close> is what the executor does with the posted handler until the wait ends.
\<close>

definition wait_weak_post ::
  "bool \<Rightarrow> (('s \<times> promises \<Rightarrow> 's \<times> promises) \<Rightarrow> 's \<times> promises \<Rightarrow> 's \<times> promises) \<Rightarrow>
   ('s \<Rightarrow> 's) option \<Rightarrow> nat \<Rightarrow> 's \<times> promises \<Rightarrow> bool \<times> 's \<times> promises" where
  "wait_weak_post alive executor handler p = (\<lambda>(s, P).
     case executor (wait_weak_post_handler alive handler p) (s, P(p \<mapsto> None)) of
       (s1, P1) \<Rightarrow> (promise_ready P1 p, s1, P1(p := None)))"

section \<open>Thread-local timeouts\<close>

record tls =
  tls_send_timeout :: duration
  tls_response_timeout :: duration

definition tls_new :: tls where
  "tls_new = \<lparr>tls_send_timeout = duration_zero, tls_response_timeout = duration_zero\<rparr>"

definition send_timeout :: "duration \<Rightarrow> tls \<Rightarrow> duration \<times> tls" where
  "send_timeout timeout t =
     (if timeout = duration_max then (tls_send_timeout t, t)
      else (duration_zero, t\<lparr>tls_send_timeout := timeout\<rparr>))"

definition response_timeout :: "duration \<Rightarrow> tls \<Rightarrow> duration \<times> tls" where
  "response_timeout timeout t =
     (if timeout = duration_max then (tls_response_timeout t, t)
      else (duration_zero, t\<lparr>tls_response_timeout := timeout\<rparr>))"

text \<open>
  Both are one function that reads or writes a setting of the thread: called with the
  greatest duration (its default argument) it reads, called with any other value it writes.
\<close>

locale thread_setting =
  fixes setting :: "tls \<Rightarrow> duration"
    and access :: "duration \<Rightarrow> tls \<Rightarrow> duration \<times> tls"
  assumes access_get: "access duration_max t = (setting t, t)"
    and access_set: "d \<noteq> duration_max \<Longrightarrow> fst (access d t) = duration_zero \<and> setting (snd (access d t)) = d"
begin

lemma get_after_set: "d \<noteq> duration_max \<Longrightarrow> fst (access duration_max (snd (access d t))) = d"
  by (simp add: access_get access_set)

lemma set_max_ignored: "snd (access duration_max t) = t"
  by (simp add: access_get)

text \<open>The pattern of the callers: a zero setting means the configured default.\<close>

lemma effective_timeout:
  "d \<noteq> duration_max \<Longrightarrow> d \<noteq> duration_zero \<Longrightarrow>
   (let x = fst (access duration_max (snd (access d t))) in if x = duration_zero then dflt else x) = d"
  by (simp add: get_after_set Let_def)

lemma effective_default:
  "(let x = fst (access duration_max (snd (access duration_zero t))) in if x = duration_zero then dflt else x) = dflt"
  using get_after_set [of duration_zero t] by (simp add: Let_def)

end

interpretation send_tls: thread_setting tls_send_timeout send_timeout
  by unfold_locales (simp_all add: send_timeout_def)

interpretation response_tls: thread_setting tls_response_timeout response_timeout
  by unfold_locales (simp_all add: response_timeout_def)

lemma send_timeout_frame [simp]:
  "tls_response_timeout (snd (send_timeout d t)) = tls_response_timeout t"
  by (simp add: send_timeout_def)

lemma response_timeout_frame [simp]:
  "tls_send_timeout (snd (response_timeout d t)) = tls_send_timeout t"
  by (simp add: response_timeout_def)

end
