(* ===== verification/Data_Queue.thy ===== *)
theory Data_Queue
  imports Io_Header Operations
begin

text \<open>
  \<^verbatim>\<open>data_send\<close>, \<^verbatim>\<open>data_push\<close> and \<^verbatim>\<open>data_queue\<close> of \<^verbatim>\<open>include/radrpc/detail/data.hpp\<close>, and the
  contract both kinds of session keep between their queue and the stream they write to:
  one write at a time, in the order of the queue.
\<close>

section \<open>Messages\<close>

text \<open>
  The body of a \<^verbatim>\<open>data_send\<close> belongs to the caller and is only referenced; the body of a
  \<^verbatim>\<open>data_push\<close> is owned.
\<close>

record data_send =
  ds_result_callback :: nat
  ds_body_ptr :: u64
  ds_body_size :: u64
  ds_header :: io_header

definition data_send_new :: "u32 \<Rightarrow> u64 \<Rightarrow> nat \<Rightarrow> u64 \<Rightarrow> u64 \<Rightarrow> data_send" where
  "data_send_new p_call_id p_result_id p_result_callback p_body_ptr p_body_size =
     \<lparr>ds_result_callback = p_result_callback, ds_body_ptr = p_body_ptr,
      ds_body_size = p_body_size, ds_header = io_header_new p_call_id p_result_id\<rparr>"

record data_push =
  dp_header :: io_header
  dp_body :: "u8 list"

definition data_push_new :: "io_header \<Rightarrow> data_push" where
  "data_push_new p_io_header = \<lparr>dp_header = p_io_header, dp_body = []\<rparr>"

section \<open>The queue of the client\<close>

record data_queue =
  dq_max_entries :: nat
  dq_entries :: "data_send list"

definition data_queue_new :: "nat \<Rightarrow> data_queue" where
  "data_queue_new p_max_entries = \<lparr>dq_max_entries = p_max_entries, dq_entries = []\<rparr>"

definition data_queue_queue ::
  "u32 \<Rightarrow> u64 \<Rightarrow> nat \<Rightarrow> u64 \<Rightarrow> u64 \<Rightarrow> data_queue \<Rightarrow> bool \<times> data_queue" where
  "data_queue_queue p_call_id p_result_id callback p_body_ptr p_body_size q =
     (if dq_max_entries q \<le> length (dq_entries q) then (False, q)
      else (True, q\<lparr>dq_entries := dq_entries q @
              [data_send_new p_call_id p_result_id callback p_body_ptr p_body_size]\<rparr>))"

definition data_queue_is_writing :: "data_queue \<Rightarrow> bool" where
  "data_queue_is_writing q \<longleftrightarrow> 1 < length (dq_entries q)"

text \<open>\<^verbatim>\<open>front()\<close> and \<^verbatim>\<open>pop_front()\<close> of an empty deque are undefined: \<open>None\<close>.\<close>

definition data_queue_front :: "data_queue \<Rightarrow> data_send option" where
  "data_queue_front q = (case dq_entries q of [] \<Rightarrow> None | m # ms \<Rightarrow> Some m)"

text \<open>The exception of a promise that already has its value is caught and dropped.\<close>

definition data_queue_write_next ::
  "promises \<Rightarrow> data_queue \<Rightarrow> (bool \<times> promises \<times> data_queue) option" where
  "data_queue_write_next P q =
     (case dq_entries q of
        [] \<Rightarrow> None
      | m # ms \<Rightarrow>
          Some (ms \<noteq> [], snd (promise_set_value (ds_result_callback m) True P),
                q\<lparr>dq_entries := ms\<rparr>))"

fun clear_callbacks :: "data_send list \<Rightarrow> promises \<Rightarrow> promises" where
  "clear_callbacks [] P = P"
| "clear_callbacks (m # ms) P =
     clear_callbacks ms (snd (promise_set_value (ds_result_callback m) False P))"

definition data_queue_clear :: "promises \<Rightarrow> data_queue \<Rightarrow> promises \<times> data_queue" where
  "data_queue_clear P q = (clear_callbacks (dq_entries q) P, q\<lparr>dq_entries := []\<rparr>)"

section \<open>Callbacks\<close>

lemma clear_callbacks_keeps: "P p = Some (Some v) \<Longrightarrow> clear_callbacks ms P p = Some (Some v)"
  by (induction ms arbitrary: P) (simp_all add: promise_set_value_keeps)

lemma clear_callbacks_other: "p \<notin> ds_result_callback ` set ms \<Longrightarrow> clear_callbacks ms P p = P p"
  by (induction ms arbitrary: P) simp_all

lemma clear_callbacks_pending:
  "p \<in> ds_result_callback ` set ms \<Longrightarrow> P p = Some None \<Longrightarrow> clear_callbacks ms P p = Some (Some False)"
proof (induction ms arbitrary: P)
  case Nil
  then show ?case by simp
next
  case (Cons m ms)
  show ?case
  proof (cases "ds_result_callback m = p")
    case True
    with Cons.prems show ?thesis by (simp add: clear_callbacks_keeps)
  next
    case False
    with Cons show ?thesis by auto
  qed
qed

section \<open>The contract between a queue and its stream\<close>

text \<open>
  \<open>items s\<close> are the queued messages, \<open>flying s\<close> the writes the stream has started and not
  completed, \<open>started s\<close> all writes started so far and \<open>wire\<close> what is written for a message.
  \<open>push\<close> is the handler that accepts a message built by \<open>make\<close> from its arguments, \<open>pop\<close> the stream dropping a completed write
  and \<open>wrote\<close> the completion handler.
\<close>

locale write_pipeline =
  fixes items :: "'s \<Rightarrow> 'm list"
    and flying :: "'s \<Rightarrow> 'w list"
    and started :: "'s \<Rightarrow> 'w list"
    and wire :: "'m \<Rightarrow> 'w"
    and accepts :: "'s \<Rightarrow> bool"
    and goes_on :: "error_code \<Rightarrow> 's \<Rightarrow> bool"
    and make :: "'a \<Rightarrow> 'm"
    and push :: "'a \<Rightarrow> 's \<Rightarrow> 's"
    and pop :: "'s \<Rightarrow> 's"
    and wrote :: "error_code \<Rightarrow> 's \<Rightarrow> 's"
    and cap :: "'s \<Rightarrow> nat"
  assumes push_refused:
      "\<not> accepts s \<Longrightarrow> items (push a s) = items s \<and> flying (push a s) = flying s \<and>
         started (push a s) = started s"
    and push_accepted:
      "accepts s \<Longrightarrow> items (push a s) = items s @ [make a] \<and>
         (if items s = []
          then flying (push a s) = flying s @ [wire (make a)] \<and>
               started (push a s) = started s @ [wire (make a)]
          else flying (push a s) = flying s \<and> started (push a s) = started s)"
    and accepts_room: "accepts s \<Longrightarrow> length (items s) < cap s"
    and pop_frame: "items (pop s) = items s \<and> flying (pop s) = tl (flying s) \<and>
         started (pop s) = started s \<and> cap (pop s) = cap s \<and> (goes_on ec (pop s) \<longleftrightarrow> goes_on ec s)"
    and wrote_next:
      "goes_on ec s \<Longrightarrow> items s = m # ms \<Longrightarrow> items (wrote ec s) = ms \<and>
         (case ms of
            [] \<Rightarrow> flying (wrote ec s) = flying s \<and> started (wrote ec s) = started s
          | m' # _ \<Rightarrow> flying (wrote ec s) = flying s @ [wire m'] \<and>
                     started (wrote ec s) = started s @ [wire m'])"
    and wrote_failed:
      "\<not> goes_on ec s \<Longrightarrow> items (wrote ec s) = [] \<and> flying (wrote ec s) = flying s \<and>
         started (wrote ec s) = started s"
    and cap_push: "cap (push a s) = cap s"
    and cap_wrote: "items s \<noteq> [] \<Longrightarrow> cap (wrote ec s) = cap s"
begin

definition one_writer :: "'s \<Rightarrow> bool" where
  "one_writer s \<longleftrightarrow> flying s = map wire (take 1 (items s)) \<and> length (items s) \<le> cap s"

text \<open>The writes started so far followed by those the queue still has to start.\<close>

definition outgoing :: "'s \<Rightarrow> 'w list" where
  "outgoing s = started s @ map wire (tl (items s))"

lemma one_writer_push: "one_writer s \<Longrightarrow> one_writer (push a s)"
proof (cases "accepts s")
  case True
  moreover assume "one_writer s"
  ultimately show ?thesis
    using push_accepted [of s a] accepts_room [of s] cap_push [of a s]
    by (cases "items s") (auto simp: one_writer_def)
next
  case False
  moreover assume "one_writer s"
  ultimately show ?thesis using push_refused [of s a] cap_push [of a s] by (simp add: one_writer_def)
qed

lemma one_writer_wrote:
  assumes "one_writer s" and "flying s \<noteq> []"
  shows "one_writer (wrote ec (pop s))"
proof -
  from assms obtain m ms where items: "items s = m # ms" by (cases "items s") (auto simp: one_writer_def)
  with assms(1) have f: "flying (pop s) = []" "items (pop s) = m # ms" and c: "length (m # ms) \<le> cap (pop s)"
    using pop_frame [of s ec] by (simp_all add: one_writer_def)
  have cw: "cap (wrote ec (pop s)) = cap (pop s)" using cap_wrote [of "pop s" ec] f(2) by simp
  show ?thesis
  proof (cases "goes_on ec (pop s)")
    case True
    from wrote_next [OF True f(2)] f c cw show ?thesis
      by (auto simp: one_writer_def split: list.splits)
  next
    case False
    from wrote_failed [OF False] f c cw show ?thesis by (simp add: one_writer_def)
  qed
qed

lemma at_most_one_write: "one_writer s \<Longrightarrow> length (flying s) \<le> 1"
  by (simp add: one_writer_def)

lemma outgoing_push:
  "outgoing (push a s) = (if accepts s then outgoing s @ [wire (make a)] else outgoing s)"
proof (cases "accepts s")
  case True
  then show ?thesis using push_accepted [OF True, of a] by (cases "items s") (auto simp: outgoing_def)
next
  case False
  then show ?thesis using push_refused [OF False, of a] by (simp add: outgoing_def)
qed

lemma outgoing_wrote:
  assumes "items s \<noteq> []" and "goes_on ec s"
  shows "outgoing (wrote ec (pop s)) = outgoing s"
proof -
  from assms(1) obtain m ms where "items s = m # ms" by (cases "items s") auto
  with assms(2) wrote_next [of ec "pop s" m ms] pop_frame [of s ec] show ?thesis
    by (auto simp: outgoing_def split: list.splits)
qed

text \<open>A run of accepted and refused messages and of completed writes.\<close>

fun pipeline_run :: "('a + error_code) list \<Rightarrow> 's \<Rightarrow> 's" where
  "pipeline_run [] s = s"
| "pipeline_run (Inl a # es) s = pipeline_run es (push a s)"
| "pipeline_run (Inr ec # es) s =
     (if flying s = [] then pipeline_run es s else pipeline_run es (wrote ec (pop s)))"

fun accepted :: "('a + error_code) list \<Rightarrow> 's \<Rightarrow> 'a list" where
  "accepted [] s = []"
| "accepted (Inl a # es) s = (if accepts s then a # accepted es (push a s) else accepted es (push a s))"
| "accepted (Inr ec # es) s =
     (if flying s = [] then accepted es s else accepted es (wrote ec (pop s)))"

fun undisturbed :: "('a + error_code) list \<Rightarrow> 's \<Rightarrow> bool" where
  "undisturbed [] s \<longleftrightarrow> True"
| "undisturbed (Inl a # es) s \<longleftrightarrow> undisturbed es (push a s)"
| "undisturbed (Inr ec # es) s \<longleftrightarrow>
     (if flying s = [] then undisturbed es s else goes_on ec s \<and> undisturbed es (wrote ec (pop s)))"

lemma run_one_writer: "one_writer s \<Longrightarrow> one_writer (pipeline_run es s)"
  by (induction es s rule: pipeline_run.induct) (simp_all add: one_writer_push one_writer_wrote)

lemma fifo:
  "one_writer s \<Longrightarrow> undisturbed es s \<Longrightarrow>
   outgoing (pipeline_run es s) = outgoing s @ map (wire \<circ> make) (accepted es s)"
proof (induction es s rule: pipeline_run.induct)
  case (1 s)
  then show ?case by simp
next
  case (2 a es s)
  then show ?case by (simp add: one_writer_push outgoing_push)
next
  case (3 ec es s)
  show ?case
  proof (cases "flying s = []")
    case True
    with 3 show ?thesis by simp
  next
    case False
    with 3(3) have "items s \<noteq> []" by (auto simp: one_writer_def)
    with 3 False outgoing_wrote [of s ec] show ?thesis by (simp add: one_writer_wrote)
  qed
qed

lemma started_prefix:
  "one_writer s \<Longrightarrow> undisturbed es s \<Longrightarrow> outgoing s = [] \<Longrightarrow>
   started (pipeline_run es s) =
     map (wire \<circ> make) (take (length (started (pipeline_run es s))) (accepted es s))"
  using fifo [of s es] by (simp add: outgoing_def append_eq_conv_conj take_map)

end

end
