(* ===== verification/Write_Order.thy ===== *)
theory Write_Order
  imports Data_Queue
begin

text \<open>
  The order of writes over a run of events, proved once for both kinds of session.
\<close>

text \<open>
  \<open>started\<close> are the writes started so far, \<open>outgoing\<close> those followed by the ones the queue still
  holds, \<open>taken ev s\<close> the messages event \<open>ev\<close> makes the session take into its queue, and a
  session is \<open>dead\<close> once it has had a write error: its queue is dropped for good.
\<close>

locale ordered_events =
  fixes started :: "'s \<Rightarrow> 'w list"
    and outgoing :: "'s \<Rightarrow> 'w list"
    and wire :: "'m \<Rightarrow> 'w"
    and dead :: "'s \<Rightarrow> bool"
    and enabled :: "'e \<Rightarrow> 's \<Rightarrow> bool"
    and exec :: "'e \<Rightarrow> 's \<Rightarrow> 's"
    and taken :: "'e \<Rightarrow> 's \<Rightarrow> 'm list"
    and inv :: "'s \<Rightarrow> bool"
  assumes inv_exec: "inv s \<Longrightarrow> enabled ev s \<Longrightarrow> inv (exec ev s)"
    and taken_disabled: "\<not> enabled ev s \<Longrightarrow> taken ev s = []"
    and outgoing_started: "\<exists>zs. outgoing s = started s @ zs"
    and live_exec: "inv s \<Longrightarrow> enabled ev s \<Longrightarrow> \<not> dead (exec ev s) \<Longrightarrow>
      \<not> dead s \<and> outgoing (exec ev s) = outgoing s @ map wire (taken ev s)"
    and dead_exec: "inv s \<Longrightarrow> enabled ev s \<Longrightarrow> dead (exec ev s) \<Longrightarrow>
      started (exec ev s) = started s \<and> taken ev s = []"
begin

fun run :: "'e list \<Rightarrow> 's \<Rightarrow> 's" where
  "run [] s = s"
| "run (ev # evs) s = run evs (if enabled ev s then exec ev s else s)"

fun taken_run :: "'e list \<Rightarrow> 's \<Rightarrow> 'm list" where
  "taken_run [] s = []"
| "taken_run (ev # evs) s = taken ev s @ taken_run evs (if enabled ev s then exec ev s else s)"

definition ordered :: "'m list \<Rightarrow> 's \<Rightarrow> bool" where
  "ordered ms s \<longleftrightarrow>
     (\<exists>k. started s = map wire (take k ms)) \<and> (\<not> dead s \<longrightarrow> outgoing s = map wire ms)"

lemma ordered_exec:
  assumes "inv s" and "enabled ev s" and "ordered ms s"
  shows "ordered (ms @ taken ev s) (exec ev s)"
proof (cases "dead (exec ev s)")
  case True
  with dead_exec [OF assms(1,2)] assms(3) show ?thesis by (simp add: ordered_def)
next
  case False
  with live_exec [OF assms(1,2)] assms(3)
  have out: "outgoing (exec ev s) = map wire (ms @ taken ev s)" by (simp add: ordered_def)
  moreover obtain zs where "outgoing (exec ev s) = started (exec ev s) @ zs"
    using outgoing_started by blast
  ultimately have "started (exec ev s) = map wire (take (length (started (exec ev s))) (ms @ taken ev s))"
    by (metis append_eq_conv_conj take_map)
  with out show ?thesis by (auto simp: ordered_def)
qed

lemma ordered_run: "inv s \<Longrightarrow> ordered ms s \<Longrightarrow> ordered (ms @ taken_run evs s) (run evs s)"
proof (induction evs arbitrary: s ms)
  case Nil
  then show ?case by simp
next
  case (Cons ev evs)
  show ?case
  proof (cases "enabled ev s")
    case True
    with Cons.IH [OF inv_exec [OF Cons.prems(1) True] ordered_exec [OF Cons.prems(1) True Cons.prems(2)]]
    show ?thesis by simp
  next
    case False
    with Cons taken_disabled [OF False] show ?thesis by simp
  qed
qed

lemma inv_run: "inv s \<Longrightarrow> inv (run evs s)"
  by (induction evs arbitrary: s) (simp_all add: inv_exec)

end

end
