(* ===== verification/Stream_Ops.thy ===== *)
theory Stream_Ops
  imports Radrpc_Prelude
begin

text \<open>
  The websocket stream of a session is a library object. The model records what the code asks
  of it: the operations it has started and that have not completed. Which of them completes
  next, when and with which error code is the environment's choice; a completion takes the
  operation off the record and runs the handler the code bound to it.
\<close>

record 'w stream_ops =
  so_reads :: nat
  so_writes :: "'w list"
  so_started :: "'w list"
  so_pings :: nat
  so_closes :: nat
  so_close_count :: nat

definition stream_new :: "'w stream_ops" where
  "stream_new =
     \<lparr>so_reads = 0, so_writes = [], so_started = [], so_pings = 0, so_closes = 0, so_close_count = 0\<rparr>"

definition async_read :: "'w stream_ops \<Rightarrow> 'w stream_ops" where
  "async_read st = st\<lparr>so_reads := Suc (so_reads st)\<rparr>"

definition async_write :: "'w \<Rightarrow> 'w stream_ops \<Rightarrow> 'w stream_ops" where
  "async_write w st = st\<lparr>so_writes := so_writes st @ [w], so_started := so_started st @ [w]\<rparr>"

definition async_ping :: "'w stream_ops \<Rightarrow> 'w stream_ops" where
  "async_ping st = st\<lparr>so_pings := Suc (so_pings st)\<rparr>"

definition async_close :: "'w stream_ops \<Rightarrow> 'w stream_ops" where
  "async_close st = st\<lparr>so_closes := Suc (so_closes st), so_close_count := Suc (so_close_count st)\<rparr>"

definition read_done :: "'w stream_ops \<Rightarrow> 'w stream_ops" where
  "read_done st = st\<lparr>so_reads := so_reads st - 1\<rparr>"

definition write_done :: "'w stream_ops \<Rightarrow> 'w stream_ops" where
  "write_done st = st\<lparr>so_writes := tl (so_writes st)\<rparr>"

definition ping_done :: "'w stream_ops \<Rightarrow> 'w stream_ops" where
  "ping_done st = st\<lparr>so_pings := so_pings st - 1\<rparr>"

definition close_done :: "'w stream_ops \<Rightarrow> 'w stream_ops" where
  "close_done st = st\<lparr>so_closes := so_closes st - 1\<rparr>"

lemmas stream_ops_defs [simp] =
  stream_new_def async_read_def async_write_def async_ping_def async_close_def
  read_done_def write_done_def ping_done_def close_done_def

text \<open>The control frames of a websocket.\<close>

datatype frame_type = Frame_close | Frame_ping | Frame_pong

section \<open>Timers\<close>

text \<open>
  A \<^verbatim>\<open>steady_timer\<close> of the library: its expiry and the waits in progress. \<^verbatim>\<open>expires_after\<close>
  moves the expiry (as an integer: the library does not wrap the sum) and makes the waits in
  progress complete early; a wait in progress may complete at any time and with any error code,
  and the handlers look at the expiry themselves.
\<close>

record timer_ops =
  tm_expiry :: int
  tm_waits :: nat

definition timer_new :: timer_ops where
  "timer_new = \<lparr>tm_expiry = 2 ^ 63 - 1, tm_waits = 0\<rparr>"

definition expires_after :: "time_point \<Rightarrow> duration \<Rightarrow> timer_ops \<Rightarrow> timer_ops" where
  "expires_after now d tm = tm\<lparr>tm_expiry := sint now + sint d\<rparr>"

definition async_wait :: "timer_ops \<Rightarrow> timer_ops" where
  "async_wait tm = tm\<lparr>tm_waits := Suc (tm_waits tm)\<rparr>"

definition wait_done :: "timer_ops \<Rightarrow> timer_ops" where
  "wait_done tm = tm\<lparr>tm_waits := tm_waits tm - 1\<rparr>"

lemmas timer_ops_defs [simp] = timer_new_def expires_after_def async_wait_def wait_done_def

end
