(* ===== verification/Client_Session.thy ===== *)
theory Client_Session
  imports Data_Cache Write_Order Stream_Ops
begin

text \<open>
  \<^verbatim>\<open>client_session\<close> of \<^verbatim>\<open>include/radrpc/impl/client/client_session.hpp\<close>: sending, receiving
  and pinging over one connection, with \<^verbatim>\<open>close_session\<close> of the derived class, which the
  handlers call. The handlers run one at a time on the io thread; the functions a user calls
  post a handler, block, and read what the io thread did meanwhile.
\<close>

section \<open>State\<close>

text \<open>
  A write references the bytes of the header in the queue and the caller's bytes: it is the
  header's bytes, the pointer and the size.
\<close>

type_synonym client_wire = "u8 list \<times> u64 \<times> u64"

datatype posted =
    Post_handle_send u32 u64 nat u64 u64
  | Post_handle_ping
  | Post_close_session

text \<open>
  \<open>cs_posted\<close> are the handlers posted to the executor, \<open>cs_promises\<close> the promises of the
  functions that wait, \<open>cs_broadcasts\<close> the calls made to bound broadcast handlers (id and
  bytes) and \<open>cs_fault\<close> tells that the front of an empty queue was used.
\<close>

record 'b client_session =
  cs_read_buffer :: 'b
  cs_client_timeout :: client_timeout
  cs_cache :: "'b data_cache"
  cs_queue :: data_queue
  cs_ping :: bool
  cs_pong :: bool
  cs_read_error :: bool
  cs_write_error :: bool
  cs_close :: bool
  cs_close_received :: bool
  cs_stream :: "client_wire stream_ops"
  cs_posted :: "posted list"
  cs_promises :: promises
  cs_next_promise :: nat
  cs_broadcasts :: "(u32 \<times> u8 list) list"
  cs_fault :: bool

definition client_session_new :: "'b flat_buffer \<Rightarrow> client_timeout \<Rightarrow> 'b client_session" where
  "client_session_new B p_client_timeout =
     \<lparr>cs_read_buffer = fb_new B, cs_client_timeout = p_client_timeout,
      cs_cache = data_cache_new queue_recv_max, cs_queue = data_queue_new queue_send_max,
      cs_ping = False, cs_pong = False, cs_read_error = False, cs_write_error = False,
      cs_close = False, cs_close_received = False, cs_stream = stream_new, cs_posted = [],
      cs_promises = (\<lambda>_. None), cs_next_promise = 0, cs_broadcasts = [], cs_fault = False\<rparr>"

section \<open>Handlers\<close>

definition client_wire_of :: "endian \<Rightarrow> data_send \<Rightarrow> client_wire" where
  "client_wire_of e m = (io_header_bytes e (ds_header m), ds_body_ptr m, ds_body_size m)"

definition close_session :: "'b client_session \<Rightarrow> 'b client_session" where
  "close_session s =
     (if cs_close s \<or> cs_close_received s then s
      else s\<lparr>cs_close := True, cs_stream := async_close (cs_stream s)\<rparr>)"

definition handle_ping :: "'b client_session \<Rightarrow> 'b client_session" where
  "handle_ping s =
     (if cs_ping s then s else s\<lparr>cs_ping := True, cs_stream := async_ping (cs_stream s)\<rparr>)"

definition on_ping :: "error_code \<Rightarrow> 'b client_session \<Rightarrow> 'b client_session" where
  "on_ping ec s = s\<lparr>cs_ping := False\<rparr>"

definition client_write :: "endian \<Rightarrow> 'b client_session \<Rightarrow> 'b client_session" where
  "client_write e s =
     (case data_queue_front (cs_queue s) of
        None \<Rightarrow> s\<lparr>cs_fault := True\<rparr>
      | Some m \<Rightarrow> s\<lparr>cs_stream := async_write (client_wire_of e m) (cs_stream s)\<rparr>)"

definition handle_send ::
  "endian \<Rightarrow> u32 \<Rightarrow> u64 \<Rightarrow> nat \<Rightarrow> u64 \<Rightarrow> u64 \<Rightarrow> 'b client_session \<Rightarrow> 'b client_session" where
  "handle_send e p_call_id p_result_id callback data_ptr data_size s =
     (if cs_close s \<or> cs_close_received s \<or> cs_write_error s \<or> cs_read_error s then s
      else case data_queue_queue p_call_id p_result_id callback data_ptr data_size (cs_queue s) of
        (False, q) \<Rightarrow> s\<lparr>cs_queue := q\<rparr>
      | (True, q) \<Rightarrow>
          (let s1 = s\<lparr>cs_queue := q\<rparr>
           in if data_queue_is_writing q then s1 else client_write e s1))"

definition client_on_write :: "endian \<Rightarrow> error_code \<Rightarrow> 'b client_session \<Rightarrow> 'b client_session" where
  "client_on_write e ec s =
     (if failed ec \<or> cs_close s \<or> cs_close_received s \<or> cs_read_error s
      then (case data_queue_clear (cs_promises s) (cs_queue s) of
              (P, q) \<Rightarrow> close_session (s\<lparr>cs_promises := P, cs_queue := q, cs_write_error := True\<rparr>))
      else case data_queue_write_next (cs_promises s) (cs_queue s) of
        None \<Rightarrow> s\<lparr>cs_fault := True\<rparr>
      | Some (go, P, q) \<Rightarrow>
          (let s1 = s\<lparr>cs_promises := P, cs_queue := q\<rparr>
           in if go then client_write e s1 else s1))"

definition client_read :: "'b client_session \<Rightarrow> 'b client_session" where
  "client_read s = s\<lparr>cs_stream := async_read (cs_stream s)\<rparr>"

text \<open>
  The bound broadcast handlers: an id may be bound to an empty function. A handler receives
  the read buffer and may change it.
\<close>

type_synonym 'b broadcast_handlers = "u32 \<Rightarrow> ('b \<Rightarrow> 'b) option option"

definition client_dispatch ::
  "'b flat_buffer \<Rightarrow> endian \<Rightarrow> 'b broadcast_handlers \<Rightarrow> 'b client_session \<Rightarrow> 'b client_session" where
  "client_dispatch B e m_bound_funcs s =
     (let front = fb_bytes B (cs_read_buffer s) in
      if sizeof_io_header \<le> length front
      then let header = io_header_of_bytes e front;
               rest = fb_consume B (cs_read_buffer s) sizeof_io_header
           in case m_bound_funcs (call_id header) of
                Some func \<Rightarrow>
                  (case func of
                     Some h \<Rightarrow> s\<lparr>cs_read_buffer := h rest,
                                 cs_broadcasts := cs_broadcasts s @ [(call_id header, fb_bytes B rest)]\<rparr>
                   | None \<Rightarrow> s\<lparr>cs_read_buffer := rest\<rparr>)
              | None \<Rightarrow>
                  (case data_cache_swap_notify B (result_id header) rest (cs_cache s) of
                     (b, c) \<Rightarrow> s\<lparr>cs_read_buffer := b, cs_cache := c\<rparr>)
      else s)"

definition client_on_read ::
  "'b flat_buffer \<Rightarrow> endian \<Rightarrow> 'b broadcast_handlers \<Rightarrow> time_point \<Rightarrow> error_code \<Rightarrow>
   'b client_session \<Rightarrow> 'b client_session" where
  "client_on_read B e m_bound_funcs now ec s =
     (if failed ec \<or> cs_close_received s
      then close_session (s\<lparr>cs_cache := data_cache_clear (cs_cache s), cs_read_error := True\<rparr>)
      else
        (let s1 = client_dispatch B e m_bound_funcs s;
             s2 = s1\<lparr>cs_cache := data_cache_remove_obsolete now (cs_cache s1)\<rparr>;
             s3 = s2\<lparr>cs_read_buffer :=
                       fb_consume B (cs_read_buffer s2) (fb_size B (cs_read_buffer s2))\<rparr>
         in client_read s3))"

definition on_control_callback :: "frame_type \<Rightarrow> 'b client_session \<Rightarrow> 'b client_session" where
  "on_control_callback kind s =
     (if kind = Frame_pong then s\<lparr>cs_pong := True\<rparr>
      else if kind = Frame_close then s\<lparr>cs_close_received := True\<rparr>
      else s)"

fun run_posted :: "endian \<Rightarrow> posted \<Rightarrow> 'b client_session \<Rightarrow> 'b client_session" where
  "run_posted e (Post_handle_send c r p d n) s = weak_post True (Some (handle_send e c r p d n)) s"
| "run_posted e Post_handle_ping s = weak_post True (Some handle_ping) s"
| "run_posted e Post_close_session s = weak_post True (Some close_session) s"


section \<open>The functions a user calls\<close>

text \<open>
  \<open>io t\<close> is what the io thread (and other callers) do to the session while the function waits
  for at most \<open>t\<close>. The promise is owned by the function: it is gone when the function returns.
\<close>

type_synonym 'b io = "duration \<Rightarrow> 'b client_session \<Rightarrow> 'b client_session"

definition post_send ::
  "u32 \<Rightarrow> u64 \<Rightarrow> u64 \<Rightarrow> u64 \<Rightarrow> 'b client_session \<Rightarrow> nat \<times> 'b client_session" where
  "post_send p_call_id p_result_id data_ptr data_size s =
     (let p = cs_next_promise s in
      (p, s\<lparr>cs_next_promise := Suc p, cs_promises := (cs_promises s)(p \<mapsto> None),
            cs_posted := cs_posted s @
              [Post_handle_send p_call_id p_result_id p data_ptr data_size]\<rparr>))"

definition drop_promise :: "nat \<Rightarrow> 'b client_session \<Rightarrow> 'b client_session" where
  "drop_promise p s = s\<lparr>cs_promises := (cs_promises s)(p := None)\<rparr>"

text \<open>
  \<^verbatim>\<open>written.wait_for(send_timeout)\<close>. The wait ends when \<open>io\<close> has done what happens until then: it is told
  the limit, and whether the promise then has its value decides the result. A limit such as the default \<^verbatim>\<open>duration::max()\<close>
  is never passed; a wait under it that nothing ends has no \<open>io\<close>, so what is said of the functions below is said
  of the waits that end.
\<close>

definition wait_written ::
  "'b io \<Rightarrow> nat \<Rightarrow> tls \<Rightarrow> 'b client_session \<Rightarrow> bool \<times> tls \<times> 'b client_session" where
  "wait_written io p t s =
     (let (d, t1) = send_timeout duration_max t;
          d1 = (if d = duration_zero then ct_send_timeout (cs_client_timeout s) else d);
          s1 = io d1 s
      in (promise_ready (cs_promises s1) p, snd (send_timeout duration_zero t1), s1))"

definition client_session_send ::
  "'b io \<Rightarrow> u32 \<Rightarrow> u64 \<Rightarrow> u64 \<Rightarrow> tls \<Rightarrow> 'b client_session \<Rightarrow>
   error_code \<times> tls \<times> 'b client_session" where
  "client_session_send io p_call_id data_ptr data_size t s =
     (let (p, s1) = post_send p_call_id 0 data_ptr data_size s;
          (ready, t1, s2) = wait_written io p t s1
      in (if ready then No_error else Timed_out, t1, drop_promise p s2))"

text \<open>\<^verbatim>\<open>m_cache.wait\<close> on the cache of the session, with the io thread running meanwhile.\<close>

definition session_wait ::
  "('b client_session \<Rightarrow> 'b client_session) \<Rightarrow> u64 \<Rightarrow> 'b \<Rightarrow> 'b client_session \<Rightarrow>
   bool \<times> 'b \<times> 'b client_session" where
  "session_wait io i recv s =
     (case data_cache_wait_begin i (cs_cache s) of
        (Wait_missing, c) \<Rightarrow> (False, recv, s\<lparr>cs_cache := c\<rparr>)
      | (Wait_ready r, c) \<Rightarrow>
          (case data_cache_take r recv c of (b, c1) \<Rightarrow> (True, b, s\<lparr>cs_cache := c1\<rparr>))
      | (Wait_blocked r, c) \<Rightarrow>
          (let s1 = io (s\<lparr>cs_cache := c\<rparr>) in
           case data_cache_take r recv (cs_cache s1) of
             (b, c1) \<Rightarrow> (data_cache_swapped r (cs_cache s1), b, s1\<lparr>cs_cache := c1\<rparr>)))"

text \<open>
  The entry is valid for twice the configured timeout. The multiplication is one of signed 64-bit numbers; when it
  overflows its result is undefined in C++, and here it is what the usual machines compute, the product modulo
  \<open>2 ^ 64\<close>. The default timeout \<^verbatim>\<open>duration::max()\<close> is such a case.
\<close>

definition client_session_send_recv ::
  "'b flat_buffer \<Rightarrow> time_point \<Rightarrow> 'b io \<Rightarrow> 'b io \<Rightarrow> u32 \<Rightarrow> u64 \<Rightarrow> u64 \<Rightarrow> 'b \<Rightarrow> tls \<Rightarrow>
   'b client_session \<Rightarrow> error_code \<times> 'b \<times> tls \<times> 'b client_session" where
  "client_session_send_recv B now io1 io2 p_call_id data_ptr data_size recv t s =
     (case data_cache_queue B now (ct_response_timeout (cs_client_timeout s) * 2) (cs_cache s) of
        (rid, c) \<Rightarrow>
          (let s0 = s\<lparr>cs_cache := c\<rparr> in
           if rid = 0 then (Operation_aborted, recv, t, s0)
           else
             (let (p, s1) = post_send p_call_id rid data_ptr data_size s0;
                  (ready, t1, s2) = wait_written io1 p t s1
              in if \<not> ready then (Timed_out, recv, t1, drop_promise p s2)
                 else
                   (let (d, t2) = response_timeout duration_max t1;
                        d1 = (if d = duration_zero
                              then ct_response_timeout (cs_client_timeout s2) else d);
                        (ok, b, s3) = session_wait (io2 d1) rid recv s2;
                        t3 = snd (response_timeout duration_zero t2)
                    in (if ok then No_error else Timed_out, b, t3, drop_promise p s3)))))"

text \<open>
  \<^verbatim>\<open>ping()\<close>: \<open>io1\<close> is what the io thread does between the post and the reset of
  \<^verbatim>\<open>m_pong\<close>, \<open>io2\<close> what it does while the function waits for the pong.
\<close>

definition client_session_ping ::
  "('b client_session \<Rightarrow> 'b client_session) \<Rightarrow> 'b io \<Rightarrow> tls \<Rightarrow> 'b client_session \<Rightarrow>
   bool \<times> tls \<times> 'b client_session" where
  "client_session_ping io1 io2 t s =
     (let s1 = io1 (s\<lparr>cs_posted := cs_posted s @ [Post_handle_ping]\<rparr>);
          (d, t1) = response_timeout duration_max t;
          d1 = (if d = duration_zero then ct_response_timeout (cs_client_timeout s1) else d);
          s2 = io2 d1 (s1\<lparr>cs_pong := False\<rparr>)
      in (cs_pong s2, snd (response_timeout duration_zero t1), s2))"

section \<open>Steps\<close>

text \<open>
  The events of a session: the io thread runs a posted handler or a completion handler, and
  the callers post (a send with a promise of its own, a ping, a close), leave and use the cache.
\<close>

datatype 'b client_event =
    Ev_posted
  | Ev_wrote error_code
  | Ev_read "'b broadcast_handlers" time_point error_code 'b
  | Ev_control frame_type
  | Ev_pinged error_code
  | Ev_closed error_code
  | Ev_post_send u32 u64 u64 u64
  | Ev_post posted
  | Ev_leave nat
  | Ev_cache "'b cache_op"

fun client_enabled :: "'b client_event \<Rightarrow> 'b client_session \<Rightarrow> bool" where
  "client_enabled Ev_posted s \<longleftrightarrow> cs_posted s \<noteq> []"
| "client_enabled (Ev_wrote ec) s \<longleftrightarrow> so_writes (cs_stream s) \<noteq> []"
| "client_enabled (Ev_read funcs now ec b) s \<longleftrightarrow> so_reads (cs_stream s) \<noteq> 0"
| "client_enabled (Ev_pinged ec) s \<longleftrightarrow> so_pings (cs_stream s) \<noteq> 0"
| "client_enabled (Ev_closed ec) s \<longleftrightarrow> so_closes (cs_stream s) \<noteq> 0"
| "client_enabled (Ev_post h) s \<longleftrightarrow> h = Post_handle_ping \<or> h = Post_close_session"
| "client_enabled ev s \<longleftrightarrow> True"

fun client_exec ::
  "'b flat_buffer \<Rightarrow> endian \<Rightarrow> 'b client_event \<Rightarrow> 'b client_session \<Rightarrow> 'b client_session" where
  "client_exec B e Ev_posted s =
     (case cs_posted s of [] \<Rightarrow> s | h # hs \<Rightarrow> run_posted e h (s\<lparr>cs_posted := hs\<rparr>))"
| "client_exec B e (Ev_wrote ec) s = client_on_write e ec (s\<lparr>cs_stream := write_done (cs_stream s)\<rparr>)"
| "client_exec B e (Ev_read funcs now ec b) s =
     client_on_read B e funcs now ec
       (s\<lparr>cs_stream := read_done (cs_stream s), cs_read_buffer := b\<rparr>)"
| "client_exec B e (Ev_control kind) s = on_control_callback kind s"
| "client_exec B e (Ev_pinged ec) s = on_ping ec (s\<lparr>cs_stream := ping_done (cs_stream s)\<rparr>)"
| "client_exec B e (Ev_closed ec) s = s\<lparr>cs_stream := close_done (cs_stream s)\<rparr>"
| "client_exec B e (Ev_post_send c r d n) s = snd (post_send c r d n s)"
| "client_exec B e (Ev_post h) s = s\<lparr>cs_posted := cs_posted s @ [h]\<rparr>"
| "client_exec B e (Ev_leave p) s = drop_promise p s"
| "client_exec B e (Ev_cache op) s = s\<lparr>cs_cache := cache_exec B op (cs_cache s)\<rparr>"

inductive client_step ::
  "'b flat_buffer \<Rightarrow> endian \<Rightarrow> 'b client_session \<Rightarrow> 'b client_event \<Rightarrow> 'b client_session \<Rightarrow> bool"
  for B :: "'b flat_buffer" and e :: endian
where
  client_stepI: "client_enabled ev s \<Longrightarrow> client_step B e s ev (client_exec B e ev s)"

text \<open>
  The session a connection hands over: built by the constructor, with the first read started
  (\<^verbatim>\<open>on_handshake\<close> calls \<^verbatim>\<open>read()\<close> once).
\<close>

definition client_connected :: "'b flat_buffer \<Rightarrow> 'b client_session \<Rightarrow> bool" where
  "client_connected B s \<longleftrightarrow> (\<exists>ct. s = client_read (client_session_new B ct))"


section \<open>Invariant\<close>

text \<open>
  The stream's rules (one write, one read, one ping at a time, one close) and the queue's: the
  write in flight is the front of the queue, which is never used when empty.
\<close>

definition client_inv :: "endian \<Rightarrow> 'b client_session \<Rightarrow> bool" where
  "client_inv e s \<longleftrightarrow>
     so_writes (cs_stream s) = map (client_wire_of e) (take 1 (dq_entries (cs_queue s))) \<and>
     length (dq_entries (cs_queue s)) \<le> dq_max_entries (cs_queue s) \<and>
     dq_max_entries (cs_queue s) = queue_send_max \<and>
     so_reads (cs_stream s) \<le> 1 \<and>
     so_pings (cs_stream s) = of_bool (cs_ping s) \<and>
     so_close_count (cs_stream s) = of_bool (cs_close s) \<and>
     so_closes (cs_stream s) \<le> so_close_count (cs_stream s) \<and>
     \<not> cs_fault s \<and>
     cache_inv (cs_cache s) \<and>
     (cs_write_error s \<longrightarrow> dq_entries (cs_queue s) = [])"

definition client_blocked :: "'b client_session \<Rightarrow> bool" where
  "client_blocked s \<longleftrightarrow> cs_close s \<or> cs_close_received s \<or> cs_write_error s \<or> cs_read_error s"

definition client_accepts :: "'b client_session \<Rightarrow> bool" where
  "client_accepts s \<longleftrightarrow>
     \<not> client_blocked s \<and> length (dq_entries (cs_queue s)) < dq_max_entries (cs_queue s)"

definition client_goes_on :: "error_code \<Rightarrow> 'b client_session \<Rightarrow> bool" where
  "client_goes_on ec s \<longleftrightarrow>
     \<not> (failed ec \<or> cs_close s \<or> cs_close_received s \<or> cs_read_error s)"

lemmas data_queue_defs =
  data_queue_queue_def data_queue_is_writing_def data_queue_front_def data_queue_write_next_def
  data_queue_clear_def data_queue_new_def

lemmas client_handler_defs =
  close_session_def client_write_def handle_send_def client_on_write_def client_read_def
  handle_ping_def on_ping_def on_control_callback_def weak_post_def data_queue_defs Let_def

lemma handle_send_refused: "\<not> client_accepts s \<Longrightarrow> handle_send e c r p d n s = s"
  by (auto simp: client_accepts_def client_blocked_def handle_send_def data_queue_queue_def)

lemma handle_send_accepted:
  "client_accepts s \<Longrightarrow> handle_send e c r p d n s =
     (let q = (cs_queue s)\<lparr>dq_entries := dq_entries (cs_queue s) @ [data_send_new c r p d n]\<rparr>
      in if dq_entries (cs_queue s) = []
         then s\<lparr>cs_queue := q,
                cs_stream := async_write (client_wire_of e (data_send_new c r p d n)) (cs_stream s)\<rparr>
         else s\<lparr>cs_queue := q\<rparr>)"
  by (auto simp: client_accepts_def client_blocked_def client_handler_defs)

lemma close_session_frame [simp]:
  "cs_queue (close_session s) = cs_queue s"
  "so_writes (cs_stream (close_session s)) = so_writes (cs_stream s)"
  "so_started (cs_stream (close_session s)) = so_started (cs_stream s)"
  "so_reads (cs_stream (close_session s)) = so_reads (cs_stream s)"
  "so_pings (cs_stream (close_session s)) = so_pings (cs_stream s)"
  "cs_cache (close_session s) = cs_cache s"
  "cs_fault (close_session s) = cs_fault s"
  "cs_ping (close_session s) = cs_ping s"
  "cs_write_error (close_session s) = cs_write_error s"
  "cs_promises (close_session s) = cs_promises s"
  by (simp_all add: close_session_def)

lemma on_write_failed:
  "\<not> client_goes_on ec s \<Longrightarrow> client_on_write e ec s =
     close_session (s\<lparr>cs_promises := clear_callbacks (dq_entries (cs_queue s)) (cs_promises s),
       cs_queue := (cs_queue s)\<lparr>dq_entries := []\<rparr>, cs_write_error := True\<rparr>)"
  by (auto simp: client_goes_on_def client_on_write_def data_queue_clear_def)

lemma on_write_next:
  "client_goes_on ec s \<Longrightarrow> dq_entries (cs_queue s) = m # ms \<Longrightarrow> client_on_write e ec s =
     (let s1 = s\<lparr>cs_promises := snd (promise_set_value (ds_result_callback m) True (cs_promises s)),
                cs_queue := (cs_queue s)\<lparr>dq_entries := ms\<rparr>\<rparr>
      in case ms of
           [] \<Rightarrow> s1
         | m' # _ \<Rightarrow> s1\<lparr>cs_stream := async_write (client_wire_of e m') (cs_stream s)\<rparr>)"
  by (auto simp: client_goes_on_def client_handler_defs split: list.split)

fun client_push :: "endian \<Rightarrow> u32 \<times> u64 \<times> nat \<times> u64 \<times> u64 \<Rightarrow> 'b client_session \<Rightarrow> 'b client_session" where
  "client_push e (c, r, p, d, n) s = handle_send e c r p d n s"

fun client_message :: "u32 \<times> u64 \<times> nat \<times> u64 \<times> u64 \<Rightarrow> data_send" where
  "client_message (c, r, p, d, n) = data_send_new c r p d n"

interpretation cw: write_pipeline
  "\<lambda>s. dq_entries (cs_queue s)" "\<lambda>s. so_writes (cs_stream s)" "\<lambda>s. so_started (cs_stream s)"
  "client_wire_of e" client_accepts client_goes_on client_message "client_push e"
  "\<lambda>s. s\<lparr>cs_stream := write_done (cs_stream s)\<rparr>" "client_on_write e"
  "\<lambda>s. dq_max_entries (cs_queue s)"
  for e :: endian
proof (unfold_locales, goal_cases)
  case (1 s a)
  then show ?case by (cases a) (simp add: handle_send_refused)
next
  case (2 s a)
  then show ?case by (cases a) (auto simp: handle_send_accepted Let_def)
next
  case (3 s)
  then show ?case by (simp add: client_accepts_def)
next
  case (4 s ec)
  then show ?case by (simp add: client_goes_on_def)
next
  case (5 ec s m ms)
  then show ?case by (auto simp: on_write_next Let_def split: list.split)
next
  case (6 ec s)
  then show ?case by (simp add: on_write_failed)
next
  case (7 a s)
  then show ?case
    by (cases a, cases "client_accepts s") (auto simp: handle_send_refused handle_send_accepted Let_def)
next
  case (8 s ec)
  then obtain m ms where "dq_entries (cs_queue s) = m # ms" by (cases "dq_entries (cs_queue s)") auto
  then show ?case
    by (cases "client_goes_on ec s")
      (auto simp: on_write_next on_write_failed Let_def split: list.split)
qed


subsection \<open>Every event keeps the invariant\<close>

text \<open>The part of the invariant that is about the stream's other operations and the cache.\<close>

definition client_frame_inv :: "'b client_session \<Rightarrow> bool" where
  "client_frame_inv s \<longleftrightarrow>
     dq_max_entries (cs_queue s) = queue_send_max \<and>
     so_reads (cs_stream s) \<le> 1 \<and>
     so_pings (cs_stream s) = of_bool (cs_ping s) \<and>
     so_close_count (cs_stream s) = of_bool (cs_close s) \<and>
     so_closes (cs_stream s) \<le> so_close_count (cs_stream s) \<and>
     \<not> cs_fault s \<and>
     cache_inv (cs_cache s) \<and>
     (cs_write_error s \<longrightarrow> dq_entries (cs_queue s) = [])"

lemma client_inv_split: "client_inv e s \<longleftrightarrow> cw.one_writer e s \<and> client_frame_inv s"
  by (auto simp: client_inv_def client_frame_inv_def cw.one_writer_def)

lemma client_inv_new: "client_inv e (client_session_new B ct)"
  by (simp add: client_inv_def client_session_new_def data_queue_new_def cache_inv_new)

lemma client_inv_close_session: "client_inv e s \<Longrightarrow> client_inv e (close_session s)"
  by (auto simp: client_inv_def close_session_def)

lemma client_inv_handle_send:
  assumes "client_inv e s"
  shows "client_inv e (handle_send e c r p d n s)"
proof -
  have "cw.one_writer e (handle_send e c r p d n s)"
    using cw.one_writer_push [of e s "(c, r, p, d, n)"] assms by (simp add: client_inv_split)
  moreover have "client_frame_inv (handle_send e c r p d n s)"
  proof (cases "client_accepts s")
    case True
    with assms show ?thesis
      by (auto simp: handle_send_accepted Let_def client_inv_split client_frame_inv_def
          client_accepts_def client_blocked_def)
  next
    case False
    with assms show ?thesis by (simp add: handle_send_refused client_inv_split)
  qed
  ultimately show ?thesis by (simp add: client_inv_split)
qed

lemma client_inv_on_write:
  assumes inv: "client_inv e s" and w: "so_writes (cs_stream s) \<noteq> []"
  shows "client_inv e (client_on_write e ec (s\<lparr>cs_stream := write_done (cs_stream s)\<rparr>))"
proof -
  let ?s = "s\<lparr>cs_stream := write_done (cs_stream s)\<rparr>"
  from inv w obtain m ms where q: "dq_entries (cs_queue ?s) = m # ms"
    by (cases "dq_entries (cs_queue s)") (auto simp: client_inv_def)
  have f: "client_frame_inv ?s" using inv by (simp add: client_inv_split client_frame_inv_def)
  have "cw.one_writer e (client_on_write e ec ?s)"
    using cw.one_writer_wrote [of e s ec] inv w by (simp add: client_inv_split)
  moreover have "client_frame_inv (client_on_write e ec ?s)"
  proof (cases "client_goes_on ec ?s")
    case True
    with f q show ?thesis
      by (auto simp: on_write_next Let_def client_frame_inv_def split: list.split)
  next
    case False
    with f show ?thesis by (auto simp: on_write_failed client_frame_inv_def close_session_def)
  qed
  ultimately show ?thesis by (simp add: client_inv_split)
qed

lemma client_dispatch_frame [simp]:
  "cs_queue (client_dispatch B e f s) = cs_queue s" "cs_stream (client_dispatch B e f s) = cs_stream s"
  "cs_ping (client_dispatch B e f s) = cs_ping s" "cs_close (client_dispatch B e f s) = cs_close s"
  "cs_fault (client_dispatch B e f s) = cs_fault s"
  "cs_write_error (client_dispatch B e f s) = cs_write_error s"
  "cs_posted (client_dispatch B e f s) = cs_posted s"
  "cs_promises (client_dispatch B e f s) = cs_promises s"
  by (auto simp: client_dispatch_def Let_def split: option.split prod.split)

lemma client_dispatch_cache:
  "cache_inv (cs_cache s) \<Longrightarrow> cache_inv (cs_cache (client_dispatch B e f s))"
  using cache_inv_swap_notify [of "cs_cache s" B]
  by (auto simp: client_dispatch_def Let_def split: option.split prod.split) (metis snd_conv)

lemma client_inv_on_read:
  assumes inv: "client_inv e s" and r: "so_reads (cs_stream s) \<noteq> 0"
  shows "client_inv e (client_on_read B e f now ec
     (s\<lparr>cs_stream := read_done (cs_stream s), cs_read_buffer := b\<rparr>))"
proof -
  let ?s = "s\<lparr>cs_stream := read_done (cs_stream s), cs_read_buffer := b\<rparr>"
  have s: "client_inv e ?s" "so_reads (cs_stream ?s) = 0"
    using inv r by (auto simp: client_inv_def)
  then have c: "client_inv e (?s\<lparr>cs_cache := data_cache_clear (cs_cache ?s), cs_read_error := True\<rparr>)"
    by (simp add: client_inv_def cache_inv_clear)
  have "cache_inv (data_cache_remove_obsolete now (cs_cache (client_dispatch B e f ?s)))"
    using s(1) by (simp add: client_inv_def client_dispatch_cache cache_inv_remove_obsolete)
  with s show ?thesis
    using client_inv_close_session [OF c]
    by (auto simp: client_on_read_def Let_def client_read_def client_inv_def)
qed

lemma client_inv_posted: "client_inv e s \<Longrightarrow> client_inv e (run_posted e h s)"
  by (cases h)
    (auto simp: weak_post_def client_inv_handle_send client_inv_close_session handle_ping_def,
      auto simp: client_inv_def)

lemma client_inv_exec:
  assumes "client_inv e s" and "client_enabled ev s"
  shows "client_inv e (client_exec B e ev s)"
proof (cases ev)
  case Ev_posted
  moreover have "client_inv e (s\<lparr>cs_posted := hs\<rparr>)" for hs
    using assms(1) by (simp add: client_inv_def)
  ultimately show ?thesis using assms(1) by (auto intro: client_inv_posted split: list.split)
next
  case (Ev_wrote ec)
  with assms show ?thesis by (simp add: client_inv_on_write del: stream_ops_defs)
next
  case (Ev_read f now ec b)
  with assms show ?thesis by (simp add: client_inv_on_read del: stream_ops_defs)
qed (use assms in \<open>auto simp: client_inv_def on_control_callback_def on_ping_def post_send_def
       drop_promise_def Let_def cache_inv_exec\<close>)

interpretation client_sys: invariant_system "client_connected B" "client_step B e" "client_inv e"
proof unfold_locales
  show "client_connected B s \<Longrightarrow> client_inv e s" for s
    by (auto simp: client_connected_def client_read_def client_inv_def client_session_new_def
        data_queue_new_def cache_inv_new)
  show "client_inv e s \<Longrightarrow> client_step B e s ev t \<Longrightarrow> client_inv e t" for s ev t
    by (auto elim!: client_step.cases intro: client_inv_exec)
qed


section \<open>The order of writes\<close>

fun client_run ::
  "'b flat_buffer \<Rightarrow> endian \<Rightarrow> 'b client_event list \<Rightarrow> 'b client_session \<Rightarrow> 'b client_session" where
  "client_run B e [] s = s"
| "client_run B e (ev # evs) s =
     client_run B e evs (if client_enabled ev s then client_exec B e ev s else s)"

text \<open>The messages the session takes into its queue at an event and over a run.\<close>

definition accepted_at :: "'b client_event \<Rightarrow> 'b client_session \<Rightarrow> data_send list" where
  "accepted_at ev s =
     (case ev of
        Ev_posted \<Rightarrow>
          (case cs_posted s of
             Post_handle_send c r p d n # hs \<Rightarrow>
               if client_accepts s then [data_send_new c r p d n] else []
           | _ \<Rightarrow> [])
      | _ \<Rightarrow> [])"

fun client_accepted ::
  "'b flat_buffer \<Rightarrow> endian \<Rightarrow> 'b client_event list \<Rightarrow> 'b client_session \<Rightarrow> data_send list" where
  "client_accepted B e [] s = []"
| "client_accepted B e (ev # evs) s =
     accepted_at ev s @ client_accepted B e evs (if client_enabled ev s then client_exec B e ev s else s)"

lemma client_run_reachable:
  "reachable (client_connected B) (client_step B e) s \<Longrightarrow>
   reachable (client_connected B) (client_step B e) (client_run B e evs s)"
  by (induction evs arbitrary: s) (auto intro: reachable.reach_step client_stepI)

lemma client_inv_run: "client_inv e s \<Longrightarrow> client_inv e (client_run B e evs s)"
  by (induction evs arbitrary: s) (simp_all add: client_inv_exec)

text \<open>An event that neither accepts a message nor completes a write leaves the output alone.\<close>

lemma exec_quiet:
  assumes "accepted_at ev s = []" and "\<And>ec. ev \<noteq> Ev_wrote ec"
  shows "cs_queue (client_exec B e ev s) = cs_queue s \<and>
     so_started (cs_stream (client_exec B e ev s)) = so_started (cs_stream s) \<and>
     cs_write_error (client_exec B e ev s) = cs_write_error s"
proof (cases ev)
  case Ev_posted
  show ?thesis
  proof (cases "cs_posted s")
    case Nil
    with Ev_posted show ?thesis by simp
  next
    case (Cons h hs)
    with Ev_posted assms(1) show ?thesis
      by (cases h) (auto simp: accepted_at_def weak_post_def handle_ping_def handle_send_refused
          client_accepts_def client_blocked_def split: if_splits)
  qed
next
  case (Ev_read f now ec b)
  then show ?thesis by (simp add: client_on_read_def Let_def client_read_def)
qed (use assms(2) in \<open>auto simp: on_control_callback_def on_ping_def post_send_def drop_promise_def Let_def\<close>)

lemma exec_accepts:
  assumes "accepted_at ev s = m # ms"
  shows "ms = [] \<and> client_accepts s \<and>
     cw.outgoing e (client_exec B e ev s) = cw.outgoing e s @ [client_wire_of e m] \<and>
     cs_write_error (client_exec B e ev s) = cs_write_error s"
proof -
  from assms obtain c r p d n hs where ev: "ev = Ev_posted" "client_accepts s" "ms = []"
    and h: "cs_posted s = Post_handle_send c r p d n # hs" and m: "m = data_send_new c r p d n"
    by (auto simp: accepted_at_def split: client_event.splits list.splits posted.splits if_splits)
  have acc: "client_accepts (s\<lparr>cs_posted := hs\<rparr>)"
    using ev(2) by (simp add: client_accepts_def client_blocked_def)
  have "cw.outgoing e (s\<lparr>cs_posted := hs\<rparr>) = cw.outgoing e s" by (simp add: cw.outgoing_def)
  with cw.outgoing_push [of e "(c, r, p, d, n)" "s\<lparr>cs_posted := hs\<rparr>"] acc ev h m show ?thesis
    by (simp add: weak_post_def handle_send_accepted Let_def)
qed

lemma exec_wrote:
  assumes inv: "client_inv e s" and en: "client_enabled (Ev_wrote ec) s"
  shows "\<not> cs_write_error s"
    and "client_goes_on ec s \<Longrightarrow> \<not> cs_write_error (client_exec B e (Ev_wrote ec) s) \<and>
      cw.outgoing e (client_exec B e (Ev_wrote ec) s) = cw.outgoing e s"
    and "\<not> client_goes_on ec s \<Longrightarrow> cs_write_error (client_exec B e (Ev_wrote ec) s) \<and>
      so_started (cs_stream (client_exec B e (Ev_wrote ec) s)) = so_started (cs_stream s)"
proof -
  let ?s = "s\<lparr>cs_stream := write_done (cs_stream s)\<rparr>"
  from inv en obtain m ms where q: "dq_entries (cs_queue s) = m # ms"
    by (cases "dq_entries (cs_queue s)") (auto simp: client_inv_def)
  with inv show we: "\<not> cs_write_error s" by (auto simp: client_inv_def)
  have g: "client_goes_on ec ?s = client_goes_on ec s" by (simp add: client_goes_on_def)
  show "client_goes_on ec s \<Longrightarrow> \<not> cs_write_error (client_exec B e (Ev_wrote ec) s) \<and>
      cw.outgoing e (client_exec B e (Ev_wrote ec) s) = cw.outgoing e s"
    using cw.outgoing_wrote [of s ec e] q g we by (auto simp: on_write_next Let_def split: list.splits)
  show "\<not> client_goes_on ec s \<Longrightarrow> cs_write_error (client_exec B e (Ev_wrote ec) s) \<and>
      so_started (cs_stream (client_exec B e (Ev_wrote ec) s)) = so_started (cs_stream s)"
    using g by (simp add: on_write_failed)
qed

lemma accepted_disabled: "\<not> client_enabled ev s \<Longrightarrow> accepted_at ev s = []"
  by (cases ev) (auto simp: accepted_at_def)

interpretation co: ordered_events "\<lambda>s. so_started (cs_stream s)" "cw.outgoing e" "client_wire_of e"
  cs_write_error client_enabled "client_exec B e" accepted_at "client_inv e"
  for B :: "'b flat_buffer" and e :: endian
proof (unfold_locales, goal_cases)
  case (1 s ev)
  then show ?case by (rule client_inv_exec)
next
  case (2 ev s)
  then show ?case by (rule accepted_disabled)
next
  case (3 s)
  then show ?case by (auto simp: cw.outgoing_def)
next
  case (4 s ev)
  show ?case
  proof (cases "accepted_at ev s")
    case (Cons m ms)
    with 4 exec_accepts [OF Cons, of e B] show ?thesis by simp
  next
    case Nil
    show ?thesis
    proof (cases "\<exists>ec. ev = Ev_wrote ec")
      case True
      then obtain ec where "ev = Ev_wrote ec" by blast
      with 4 Nil exec_wrote(1) [of e s ec] exec_wrote(2,3) [of e s ec B] show ?thesis
        by (cases "client_goes_on ec s") (simp_all del: client_exec.simps)
    next
      case False
      with 4 Nil exec_quiet [OF Nil, of B e] show ?thesis by (simp add: cw.outgoing_def)
    qed
  qed
next
  case (5 s ev)
  show ?case
  proof (cases "accepted_at ev s")
    case (Cons m ms)
    with 5 exec_accepts [OF Cons, of e B] show ?thesis by (simp add: client_accepts_def client_blocked_def)
  next
    case Nil
    show ?thesis
    proof (cases "\<exists>ec. ev = Ev_wrote ec")
      case True
      then obtain ec where "ev = Ev_wrote ec" by blast
      with 5 Nil exec_wrote(1) [of e s ec] exec_wrote(2,3) [of e s ec B] show ?thesis
        by (cases "client_goes_on ec s") (simp_all del: client_exec.simps)
    next
      case False
      with 5 Nil exec_quiet [OF Nil, of B e] show ?thesis by simp
    qed
  qed
qed

lemma client_run_eq: "client_run B e evs s = co.run B e evs s"
  by (induction evs arbitrary: s) simp_all

lemma client_accepted_eq: "client_accepted B e evs s = co.taken_run B e evs s"
  by (induction evs arbitrary: s) simp_all

lemma client_run_ordered:
  assumes "client_connected B s0"
  shows "co.ordered e (client_accepted B e evs s0) (client_run B e evs s0)"
proof -
  have "client_inv e s0" by (rule client_sys.inv_init [OF assms])
  moreover have "co.ordered e [] s0"
    using assms by (auto simp: client_connected_def co.ordered_def cw.outgoing_def
        client_read_def client_session_new_def data_queue_new_def)
  ultimately have "co.ordered e ([] @ co.taken_run B e evs s0) (co.run B e evs s0)"
    by (rule co.ordered_run)
  then show ?thesis by (simp add: client_run_eq client_accepted_eq)
qed

section \<open>What a sender learns\<close>

text \<open>
  \<open>tracks e p w s\<close>: every message that still carries promise \<open>p\<close> writes \<open>w\<close>, and if the
  promise has its value then \<open>w\<close> was handed to the stream or the session had a write error.
\<close>

definition tracks :: "endian \<Rightarrow> nat \<Rightarrow> client_wire \<Rightarrow> 'b client_session \<Rightarrow> bool" where
  "tracks e p w s \<longleftrightarrow>
     p < cs_next_promise s \<and>
     set (so_writes (cs_stream s)) \<subseteq> set (so_started (cs_stream s)) \<and>
     (\<forall>m \<in> set (dq_entries (cs_queue s)). ds_result_callback m = p \<longrightarrow> client_wire_of e m = w) \<and>
     (\<forall>c r d n. Post_handle_send c r p d n \<in> set (cs_posted s) \<longrightarrow>
        client_wire_of e (data_send_new c r p d n) = w) \<and>
     (promise_ready (cs_promises s) p \<longrightarrow>
        w \<in> set (so_started (cs_stream s)) \<or> cs_write_error s)"

lemma promise_ready_set:
  "promise_ready (snd (promise_set_value q v P)) p \<Longrightarrow> q \<noteq> p \<Longrightarrow> promise_ready P p"
  by (simp add: promise_ready_def)

lemma close_session_posted [simp]:
  "cs_posted (close_session s) = cs_posted s" "cs_next_promise (close_session s) = cs_next_promise s"
  by (simp_all add: close_session_def)

lemma tracks_handle_send:
  assumes "tracks e p w s" and "q = p \<Longrightarrow> client_wire_of e (data_send_new c r q d n) = w"
  shows "tracks e p w (handle_send e c r q d n s)"
proof (cases "client_accepts s")
  case True
  with assms show ?thesis
    by (auto simp: handle_send_accepted Let_def tracks_def data_send_new_def)
next
  case False
  with assms show ?thesis by (simp add: handle_send_refused)
qed

lemma tracks_posted:
  assumes "tracks e p w s" and h: "cs_posted s = h # hs"
  shows "tracks e p w (run_posted e h (s\<lparr>cs_posted := hs\<rparr>))"
proof -
  have t: "tracks e p w (s\<lparr>cs_posted := hs\<rparr>)" using assms by (simp add: tracks_def)
  show ?thesis
  proof (cases h)
    case (Post_handle_send c r q d n)
    moreover have "q = p \<Longrightarrow> client_wire_of e (data_send_new c r q d n) = w"
      using assms Post_handle_send by (auto simp: tracks_def)
    ultimately show ?thesis using tracks_handle_send [OF t] by (simp add: weak_post_def)
  qed (use t in \<open>auto simp: tracks_def weak_post_def handle_ping_def\<close>)
qed

lemma tracks_on_write:
  assumes inv: "client_inv e s" and w: "so_writes (cs_stream s) \<noteq> []" and t: "tracks e p w' s"
  shows "tracks e p w' (client_on_write e ec (s\<lparr>cs_stream := write_done (cs_stream s)\<rparr>))"
proof -
  let ?s = "s\<lparr>cs_stream := write_done (cs_stream s)\<rparr>"
  from inv w obtain m ms where q: "dq_entries (cs_queue ?s) = m # ms"
    by (cases "dq_entries (cs_queue s)") (auto simp: client_inv_def)
  with inv t have m: "client_wire_of e m \<in> set (so_started (cs_stream s))"
    by (simp add: client_inv_def tracks_def)
  have t': "tracks e p w' ?s" using t by (cases "so_writes (cs_stream s)") (auto simp: tracks_def)
  show ?thesis
  proof (cases "client_goes_on ec ?s")
    case True
    with t' q m show ?thesis
      by (auto simp: on_write_next Let_def tracks_def dest!: promise_ready_set split: list.split)
  next
    case False
    with t' show ?thesis by (simp add: on_write_failed tracks_def)
  qed
qed

lemma tracks_exec:
  assumes "client_inv e s" and "client_enabled ev s" and "tracks e p w s"
  shows "tracks e p w (client_exec B e ev s)"
proof (cases ev)
  case Ev_posted
  then show ?thesis
    using assms(3) tracks_posted [OF assms(3)] by (cases "cs_posted s") auto
next
  case (Ev_wrote ec)
  with assms tracks_on_write [OF assms(1) _ assms(3)] show ?thesis by simp
next
  case (Ev_read f now ec b)
  with assms(3) show ?thesis
    by (auto simp: client_on_read_def Let_def client_read_def tracks_def client_dispatch_def
        split: option.split prod.split)
next
  case (Ev_post_send c r d n)
  with assms(3) show ?thesis
    by (auto simp: tracks_def post_send_def Let_def promise_ready_def)
qed (use assms(2,3) in \<open>auto simp: tracks_def on_control_callback_def on_ping_def drop_promise_def
       promise_ready_def split: if_splits\<close>)

lemma tracks_run:
  "client_inv e s \<Longrightarrow> tracks e p w s \<Longrightarrow> tracks e p w (client_run B e evs s)"
  by (induction evs arbitrary: s) (simp_all add: client_inv_exec tracks_exec)

text \<open>Promises are numbered: those in use are below the next number.\<close>

definition client_fresh :: "'b client_session \<Rightarrow> bool" where
  "client_fresh s \<longleftrightarrow>
     set (so_writes (cs_stream s)) \<subseteq> set (so_started (cs_stream s)) \<and>
     (\<forall>m \<in> set (dq_entries (cs_queue s)). ds_result_callback m < cs_next_promise s) \<and>
     (\<forall>c r q d n. Post_handle_send c r q d n \<in> set (cs_posted s) \<longrightarrow> q < cs_next_promise s)"

lemma client_fresh_handle_send:
  "client_fresh s \<Longrightarrow> q < cs_next_promise s \<Longrightarrow> client_fresh (handle_send e c r q d n s)"
  by (cases "client_accepts s")
    (auto simp: handle_send_accepted handle_send_refused Let_def client_fresh_def data_send_new_def)

lemma client_fresh_posted:
  assumes "client_fresh s" and "cs_posted s = h # hs"
  shows "client_fresh (run_posted e h (s\<lparr>cs_posted := hs\<rparr>))"
proof -
  have t: "client_fresh (s\<lparr>cs_posted := hs\<rparr>)" using assms by (simp add: client_fresh_def)
  show ?thesis
  proof (cases h)
    case (Post_handle_send c r q d n)
    moreover have "q < cs_next_promise s"
      using assms Post_handle_send by (auto simp: client_fresh_def)
    ultimately show ?thesis using client_fresh_handle_send [OF t] by (simp add: weak_post_def)
  qed (use t in \<open>auto simp: client_fresh_def weak_post_def handle_ping_def\<close>)
qed

lemma client_fresh_on_write:
  assumes "client_inv e s" and "so_writes (cs_stream s) \<noteq> []" and "client_fresh s"
  shows "client_fresh (client_on_write e ec (s\<lparr>cs_stream := write_done (cs_stream s)\<rparr>))"
proof -
  let ?s = "s\<lparr>cs_stream := write_done (cs_stream s)\<rparr>"
  from assms obtain m ms where q: "dq_entries (cs_queue ?s) = m # ms"
    by (cases "dq_entries (cs_queue s)") (auto simp: client_inv_def)
  have t: "client_fresh ?s" using assms(3)
    by (cases "so_writes (cs_stream s)") (auto simp: client_fresh_def)
  with q show ?thesis
    by (cases "client_goes_on ec ?s")
      (auto simp: on_write_next on_write_failed Let_def client_fresh_def split: list.split)
qed

lemma client_fresh_exec:
  assumes "client_inv e s" and "client_enabled ev s" and "client_fresh s"
  shows "client_fresh (client_exec B e ev s)"
proof (cases ev)
  case Ev_posted
  then show ?thesis
    using assms(3) client_fresh_posted [OF assms(3)] by (cases "cs_posted s") auto
next
  case (Ev_wrote ec)
  with assms client_fresh_on_write [OF assms(1) _ assms(3)] show ?thesis by simp
next
  case (Ev_read f now ec b)
  with assms(3) show ?thesis
    by (auto simp: client_on_read_def Let_def client_read_def client_fresh_def client_dispatch_def
        split: option.split prod.split)
next
  case (Ev_post_send c r d n)
  with assms(3) show ?thesis
    by (fastforce simp: client_fresh_def post_send_def Let_def)
next
  case (Ev_post h)
  with assms(2,3) show ?thesis by (fastforce simp: client_fresh_def)
qed (use assms(2,3) in \<open>auto simp: client_fresh_def on_control_callback_def on_ping_def drop_promise_def\<close>)

interpretation fresh_sys: invariant_system "client_connected B" "client_step B e"
  "\<lambda>s. client_inv e s \<and> client_fresh s"
proof unfold_locales
  show "client_connected B s \<Longrightarrow> client_inv e s \<and> client_fresh s" for s
    using client_sys.inv_init [of B s e]
    by (auto simp: client_connected_def client_read_def client_fresh_def client_session_new_def
        data_queue_new_def)
  show "client_inv e s \<and> client_fresh s \<Longrightarrow> client_step B e s ev t \<Longrightarrow> client_inv e t \<and> client_fresh t"
    for s ev t
    by (auto elim!: client_step.cases intro: client_inv_exec client_fresh_exec)
qed

lemma tracks_post_send:
  "client_fresh s \<Longrightarrow> post_send c r d n s = (p, s1) \<Longrightarrow>
   tracks e p (client_wire_of e (data_send_new c r p d n)) s1"
  by (fastforce simp: post_send_def Let_def tracks_def promise_ready_def client_fresh_def)


section \<open>Properties\<close>

lemmas client_eval =
  client_session_new_def client_handler_defs post_send_def accepted_at_def client_accepts_def
  client_blocked_def queue_send_max_def promise_set_value_def promise_ready_code drop_promise_def
  data_send_new_def send_timeout_def response_timeout_def tls_new_def

lemma client_session_send_eq:
  "client_session_send (\<lambda>_. run) c d n t s =
     (if promise_ready (cs_promises (run (snd (post_send c 0 d n s)))) (cs_next_promise s)
      then No_error else Timed_out,
      snd (send_timeout duration_zero t),
      drop_promise (cs_next_promise s) (run (snd (post_send c 0 d n s))))"
  by (simp add: client_session_send_def wait_written_def post_send_def Let_def send_tls.access_get)

text \<open>C4: in every state a connected session can reach, whatever the io thread and the callers do,
  the stream has at most one write, one read and one ping in progress, is closed at most once,
  the queue stays within its limit and its front is never used while it is empty.\<close>

theorem client_stream_discipline:
  assumes "reachable (client_connected B) (client_step B e) s"
  shows "length (so_writes (cs_stream s)) \<le> 1 \<and> so_reads (cs_stream s) \<le> 1 \<and>
     so_pings (cs_stream s) \<le> 1 \<and> so_close_count (cs_stream s) \<le> 1 \<and>
     length (dq_entries (cs_queue s)) \<le> queue_send_max \<and> \<not> cs_fault s"
  using client_sys.reachable_inv [OF assms] by (simp add: client_inv_def)

theorem client_stream_discipline_witness:
  "so_reads (cs_stream (client_run byte_buffer Little
      [Ev_post_send 3 0 64 5, Ev_posted, Ev_wrote No_error]
      (client_read (client_session_new byte_buffer client_timeout_default)))) \<le> 1"
proof -
  have "reachable (client_connected byte_buffer) (client_step byte_buffer Little)
      (client_read (client_session_new byte_buffer client_timeout_default))"
    by (rule reachable.reach_init) (auto simp: client_connected_def)
  from client_stream_discipline [OF client_run_reachable [OF this]] show ?thesis by blast
qed

text \<open>C5: the session writes the messages it accepts in the order it accepts them, each once. Over
  any run the writes started are a prefix of the accepted messages, and without a write error
  the queue holds exactly the rest.\<close>

theorem client_writes_in_order:
  assumes "client_connected B s0"
  shows "(\<exists>k. so_started (cs_stream (client_run B e evs s0)) =
            map (client_wire_of e) (take k (client_accepted B e evs s0))) \<and>
     (\<not> cs_write_error (client_run B e evs s0) \<longrightarrow>
        so_started (cs_stream (client_run B e evs s0)) @
          map (client_wire_of e) (tl (dq_entries (cs_queue (client_run B e evs s0)))) =
        map (client_wire_of e) (client_accepted B e evs s0))"
  using client_run_ordered [OF assms, of e evs] by (simp add: co.ordered_def cw.outgoing_def)

theorem client_writes_in_order_witness:
  "so_started (cs_stream (client_run byte_buffer Little
      [Ev_post_send 3 0 64 5, Ev_post_send 4 0 128 6, Ev_posted, Ev_posted, Ev_wrote No_error]
      (client_read (client_session_new byte_buffer client_timeout_default)))) =
   map (client_wire_of Little) [data_send_new 3 0 0 64 5, data_send_new 4 0 1 128 6]"
  using client_writes_in_order [of byte_buffer
      "client_read (client_session_new byte_buffer client_timeout_default)" Little
      "[Ev_post_send 3 0 64 5, Ev_post_send 4 0 128 6, Ev_posted, Ev_posted, Ev_wrote No_error]"]
  by (simp add: client_connected_def client_eval)

text \<open>C17: when \<^verbatim>\<open>send\<close> reports no error, whatever happened while it waited, its message was
  handed to the stream or the session has had a write error.\<close>

theorem send_success_means_started:
  assumes r: "reachable (client_connected B) (client_step B e) s"
    and send: "client_session_send (\<lambda>_. client_run B e evs) c d n t s = (No_error, t', s')"
  shows "client_wire_of e (data_send_new c 0 (cs_next_promise s) d n) \<in> set (so_started (cs_stream s')) \<or>
     cs_write_error s'"
proof -
  from fresh_sys.reachable_inv [OF r] have inv: "client_inv e s" and fresh: "client_fresh s" by simp_all
  let ?p = "cs_next_promise s"
  obtain s1 where ps: "post_send c 0 d n s = (?p, s1)" by (simp add: post_send_def Let_def)
  have inv1: "client_inv e s1" using client_inv_exec [OF inv, of "Ev_post_send c 0 d n" B] ps by simp
  have tr: "tracks e ?p (client_wire_of e (data_send_new c 0 ?p d n)) (client_run B e evs s1)"
    by (rule tracks_run [OF inv1 tracks_post_send [OF fresh ps]])
  moreover from send ps have "promise_ready (cs_promises (client_run B e evs s1)) ?p"
    and "s' = drop_promise ?p (client_run B e evs s1)"
    by (auto simp: client_session_send_eq split: if_splits)
  ultimately show ?thesis by (auto simp: tracks_def drop_promise_def)
qed

theorem send_success_means_started_witness:
  "client_wire_of Little (data_send_new 3 0 0 64 5) \<in> set (so_started (cs_stream
     (snd (snd (client_session_send
        (\<lambda>_. client_run byte_buffer Little [Ev_posted, Ev_wrote No_error]) 3 64 5 tls_new
        (client_read (client_session_new byte_buffer client_timeout_default)))))))"
proof -
  let ?s0 = "client_read (client_session_new byte_buffer client_timeout_default)"
  let ?r = "client_session_send (\<lambda>_. client_run byte_buffer Little [Ev_posted, Ev_wrote No_error])
      3 64 5 tls_new ?s0"
  have "reachable (client_connected byte_buffer) (client_step byte_buffer Little) ?s0"
    by (rule reachable.reach_init) (auto simp: client_connected_def)
  moreover have "?r = (No_error, fst (snd ?r), snd (snd ?r))" and "\<not> cs_write_error (snd (snd ?r))"
    and "cs_next_promise ?s0 = 0"
    by (simp_all add: client_eval client_session_send_def wait_written_def)
  ultimately show ?thesis using send_success_means_started by metis
qed


text \<open>C39: a write that fails is reported to its sender as a success: the failed completion sets the
  promise of the message to false, and \<^verbatim>\<open>send\<close> only looks at whether the promise has a value.\<close>

theorem failed_write_reports_success:
  assumes inv: "client_inv e s" and idle: "dq_entries (cs_queue s) = []" "cs_posted s = []"
    and unblocked: "\<not> client_blocked s" and ec: "failed ec"
  shows "\<exists>t' s'. client_session_send (\<lambda>_. client_run B e [Ev_posted, Ev_wrote ec]) c d n t s =
     (No_error, t', s') \<and> cs_write_error s' \<and> cs_close s'"
proof -
  let ?p = "cs_next_promise s" and ?m = "data_send_new c 0 (cs_next_promise s) d n"
  let ?s1 = "s\<lparr>cs_next_promise := Suc ?p, cs_promises := (cs_promises s)(?p \<mapsto> None),
      cs_queue := (cs_queue s)\<lparr>dq_entries := [?m]\<rparr>,
      cs_stream := async_write (client_wire_of e ?m) (cs_stream s)\<rparr>"
  have acc: "client_accepts s"
    using inv idle unblocked by (simp add: client_accepts_def client_inv_def queue_send_max_def)
  have "client_run B e [Ev_posted] (snd (post_send c 0 d n s)) = ?s1"
    using acc idle by (simp add: post_send_def Let_def weak_post_def handle_send_accepted
        client_accepts_def client_blocked_def)
  moreover have "\<not> client_goes_on ec (?s1\<lparr>cs_stream := write_done (cs_stream ?s1)\<rparr>)"
    using ec by (simp add: client_goes_on_def)
  ultimately have run: "client_run B e [Ev_posted, Ev_wrote ec] (snd (post_send c 0 d n s)) =
      close_session (?s1\<lparr>cs_stream := write_done (cs_stream ?s1),
        cs_promises := (cs_promises s)(?p \<mapsto> Some False), cs_queue := (cs_queue s)\<lparr>dq_entries := []\<rparr>,
        cs_write_error := True\<rparr>)"
    by (simp add: on_write_failed promise_set_value_def data_send_new_def)
  from unblocked show ?thesis
    unfolding client_session_send_eq run
    by (simp add: promise_ready_code close_session_def client_blocked_def drop_promise_def)
qed

theorem failed_write_reports_success_witness:
  "\<exists>t' s'. client_session_send
      (\<lambda>_. client_run byte_buffer Little [Ev_posted, Ev_wrote (Other_error 104)]) 3 64 5 tls_new
      (client_session_new byte_buffer client_timeout_default) = (No_error, t', s') \<and>
    cs_write_error s' \<and> cs_close s'"
  by (rule failed_write_reports_success [OF client_inv_new])
    (simp_all add: client_eval)

text \<open>A frame whose call id has no broadcast handler is a response: the bytes after the header
  are handed to the cache under the result id of the header, no other id is concerned, no
  broadcast handler runs, and the next read starts with an empty buffer.\<close>

theorem client_on_read_response:
  assumes laws: "flat_buffer_laws B"
    and frame: "fb_bytes B (cs_read_buffer s) = io_header_bytes e h @ body"
    and unbound: "funcs (call_id h) = None" and open_: "\<not> cs_close_received s"
    and inv: "cache_inv (cs_cache s)"
  shows "\<exists>rest c. fb_bytes B rest = body \<and>
     c = snd (data_cache_swap_notify B (result_id h) rest (cs_cache s)) \<and>
     cs_cache (client_on_read B e funcs now No_error s) = data_cache_remove_obsolete now c \<and>
     (\<forall>j. j \<noteq> result_id h \<longrightarrow> cache_view c j = cache_view (cs_cache s) j) \<and>
     cs_broadcasts (client_on_read B e funcs now No_error s) = cs_broadcasts s \<and>
     fb_bytes B (cs_read_buffer (client_on_read B e funcs now No_error s)) = [] \<and>
     so_reads (cs_stream (client_on_read B e funcs now No_error s)) = Suc (so_reads (cs_stream s))"
proof -
  let ?rest = "fb_consume B (cs_read_buffer s) sizeof_io_header"
  let ?sn = "data_cache_swap_notify B (result_id h) ?rest (cs_cache s)"
  have rest: "fb_bytes B ?rest = body" using laws frame by (simp add: flat_buffer_consume)
  have "client_dispatch B e funcs s = s\<lparr>cs_read_buffer := fst ?sn, cs_cache := snd ?sn\<rparr>"
    using frame unbound
    by (simp add: client_dispatch_def Let_def io_header_of_bytes_append split: prod.split)
  then have "client_on_read B e funcs now No_error s = client_read (s\<lparr>
      cs_cache := data_cache_remove_obsolete now (snd ?sn),
      cs_read_buffer := fb_consume B (fst ?sn) (fb_size B (fst ?sn))\<rparr>)"
    using open_ by (simp add: client_on_read_def Let_def)
  moreover have "\<forall>j. j \<noteq> result_id h \<longrightarrow> cache_view (snd ?sn) j = cache_view (cs_cache s) j"
    using rs.deliver_other [OF inv] by blast
  ultimately show ?thesis
    using rest laws by (intro exI [of _ ?rest] exI [of _ "snd ?sn"])
      (simp add: client_read_def flat_buffer_consume_all)
qed

theorem client_on_read_response_witness:
  "\<exists>rest c. fb_bytes byte_buffer rest = [9] \<and>
     cs_cache (client_on_read byte_buffer Little (\<lambda>_. None) 0 No_error
       ((client_session_new byte_buffer client_timeout_default)\<lparr>
          cs_read_buffer := io_header_bytes Little (io_header_new 3 1) @ [9]\<rparr>)) =
     data_cache_remove_obsolete 0 c"
  using client_on_read_response [of byte_buffer
      "(client_session_new byte_buffer client_timeout_default)\<lparr>
          cs_read_buffer := io_header_bytes Little (io_header_new 3 1) @ [9]\<rparr>"
      Little "io_header_new 3 1" "[9]" "\<lambda>_. None" 0]
  by (simp add: client_session_new_def cache_inv_new) blast

text \<open>A frame whose call id is bound to a broadcast handler goes to that handler with the bytes
  after the header and never to the cache, whatever its result id: a caller that waits for a
  response to a call id the client also listens on does not receive it.\<close>

theorem client_on_read_broadcast:
  assumes laws: "flat_buffer_laws B"
    and frame: "fb_bytes B (cs_read_buffer s) = io_header_bytes e h @ body"
    and bound: "funcs (call_id h) = Some (Some f)" and open_: "\<not> cs_close_received s"
  shows "cs_broadcasts (client_on_read B e funcs now No_error s) =
       cs_broadcasts s @ [(call_id h, body)] \<and>
     cs_cache (client_on_read B e funcs now No_error s) = data_cache_remove_obsolete now (cs_cache s) \<and>
     fb_bytes B (cs_read_buffer (client_on_read B e funcs now No_error s)) = [] \<and>
     so_reads (cs_stream (client_on_read B e funcs now No_error s)) = Suc (so_reads (cs_stream s))"
proof -
  let ?rest = "fb_consume B (cs_read_buffer s) sizeof_io_header"
  have "client_dispatch B e funcs s =
      s\<lparr>cs_read_buffer := f ?rest, cs_broadcasts := cs_broadcasts s @ [(call_id h, body)]\<rparr>"
    using frame bound laws
    by (simp add: client_dispatch_def Let_def io_header_of_bytes_append flat_buffer_consume)
  then show ?thesis
    using open_ laws by (simp add: client_on_read_def Let_def client_read_def flat_buffer_consume_all)
qed

theorem client_on_read_broadcast_witness:
  "cs_broadcasts (client_on_read byte_buffer Big (\<lambda>_. Some (Some (\<lambda>b. b))) 0 No_error
       ((client_session_new byte_buffer client_timeout_default)\<lparr>
          cs_read_buffer := io_header_bytes Big (io_header_new 3 1) @ [9]\<rparr>)) = [(3, [9])]"
  using client_on_read_broadcast [of byte_buffer
      "(client_session_new byte_buffer client_timeout_default)\<lparr>
          cs_read_buffer := io_header_bytes Big (io_header_new 3 1) @ [9]\<rparr>"
      Big "io_header_new 3 1" "[9]" "\<lambda>_. Some (Some (\<lambda>b. b))" "\<lambda>b. b" 0]
  by (simp add: client_session_new_def io_header_new_def)


lemma send_timeout_reset: "tls_send_timeout (snd (send_timeout duration_zero t)) = duration_zero"
  by (simp add: send_timeout_def)

text \<open>A completed \<^verbatim>\<open>send_recv\<close> consumes both timeouts the thread has set for it, but one that
  gives up early does not: when its message is not written in time the response timeout stays
  set for the thread's next call, and when the cache is full both stay set.\<close>

theorem send_recv_timeouts:
  assumes q: "data_cache_queue B now (ct_response_timeout (cs_client_timeout s) * 2) (cs_cache s) = (rid, c1)"
    and run: "client_session_send_recv B now io1 io2 c d n recv t s = (ec, b, t', s')"
    and s2: "s2 = io1
        (if tls_send_timeout t = duration_zero then ct_send_timeout (cs_client_timeout s)
         else tls_send_timeout t)
        (snd (post_send c rid d n (s\<lparr>cs_cache := c1\<rparr>)))"
  shows "if rid = 0 then ec = Operation_aborted \<and> t' = t
     else tls_send_timeout t' = duration_zero \<and>
       (if promise_ready (cs_promises s2) (cs_next_promise s)
        then tls_response_timeout t' = duration_zero
        else ec = Timed_out \<and> tls_response_timeout t' = tls_response_timeout t)"
  using run s2
  by (auto simp: client_session_send_recv_def q post_send_def Let_def wait_written_def
      send_timeout_def response_timeout_def split: if_splits prod.splits)

theorem send_recv_timeouts_witness:
  "tls_response_timeout (fst (snd (snd (client_session_send_recv byte_buffer 0 (\<lambda>_ s. s) (\<lambda>_ s. s)
      3 64 5 [] \<lparr>tls_send_timeout = 7, tls_response_timeout = 9\<rparr>
      (client_session_new byte_buffer client_timeout_default))))) = 9"
proof -
  let ?s = "client_session_new byte_buffer client_timeout_default"
  let ?t = "\<lparr>tls_send_timeout = 7, tls_response_timeout = 9\<rparr>"
  let ?r = "client_session_send_recv byte_buffer 0 (\<lambda>_ s. s) (\<lambda>_ s. s) 3 64 5 [] ?t ?s"
  let ?q = "data_cache_queue byte_buffer 0 (ct_response_timeout (cs_client_timeout ?s) * 2) (cs_cache ?s)"
  have q: "?q = (1, snd ?q)"
    by (simp add: client_session_new_def data_cache_eval queue_recv_max_def)
  have r: "?r = (fst ?r, fst (snd ?r), fst (snd (snd ?r)), snd (snd (snd ?r)))" by simp
  have "\<not> promise_ready (cs_promises (snd (post_send 3 1 64 5 (?s\<lparr>cs_cache := snd ?q\<rparr>))))
      (cs_next_promise ?s)"
    by (simp add: post_send_def Let_def promise_ready_def client_session_new_def)
  with send_recv_timeouts [OF q r refl] show ?thesis by simp
qed

text \<open>C38: with the default client timeout (the greatest duration) twice the response timeout wraps
  around to a negative duration, so an entry queued by \<^verbatim>\<open>send_recv\<close> is obsolete at once: the
  first frame the session receives drops it, and its response is not delivered.\<close>

theorem default_response_timeout_expires:
  assumes inv: "cache_inv c" and room: "length (dc_entries c) < dc_max_entries c"
    and q: "data_cache_queue B now (ct_response_timeout client_timeout_default * 2) c = (i, c1)"
    and later: "0 \<le> sint (now' - now)"
  shows "cache_view c1 i = Some (Queued, fb_new B) \<and>
     cache_view (data_cache_remove_obsolete now' c1) i = None"
proof -
  have d: "milliseconds_count (duration_max * 2) = 0"
    by (simp add: milliseconds_count_def duration_max_def signed_divide_int_def)
  have inv1: "cache_inv c1" using cache_inv_queue [OF inv] q by (metis snd_conv)
  have v: "cache_view c1 i = Some (Queued, fb_new B)"
    using cache_view_queue [OF inv room] q by (metis fun_upd_same fst_conv snd_conv)
  from q room have c1: "map_of (dc_entries c1) i = Some (length (dc_rows c))"
      "dc_rows c1 ! length (dc_rows c) = data_read_new B now (duration_max * 2)"
    by (auto simp: data_cache_queue_def Let_def update_conv' client_timeout_default_def)
  have "0 \<le> milliseconds_count (now' - now)"
    using later by (simp add: milliseconds_count_def signed_divide_int_def sgn_if)
  then have "\<not> data_read_valid now' (data_read_new B now (duration_max * 2))"
    by (simp add: data_read_valid_def data_read_new_def d)
  with v c1 cache_view_remove_obsolete [OF inv1, of now' i] show ?thesis by simp
qed

theorem default_response_timeout_expires_witness:
  "cache_view (data_cache_remove_obsolete 1000 (snd (data_cache_queue byte_buffer 1000
     (ct_response_timeout client_timeout_default * 2) (data_cache_new 5)))) 1 = None"
proof -
  have "data_cache_queue byte_buffer 1000 (ct_response_timeout client_timeout_default * 2)
      (data_cache_new 5) =
    (1, snd (data_cache_queue byte_buffer 1000 (ct_response_timeout client_timeout_default * 2)
      (data_cache_new 5)))"
    by (simp add: data_cache_eval)
  from default_response_timeout_expires [OF cache_inv_new _ this, of 1000] show ?thesis
    by (simp add: data_cache_new_def)
qed

text \<open>\<^verbatim>\<open>ping()\<close> resets \<^verbatim>\<open>m_pong\<close> after it has posted the ping, so a pong that arrives before
  the reset is forgotten: the call reports no pong although the ping was sent and answered.\<close>

theorem ping_forgets_early_pong:
  assumes "cs_posted s = []" and "\<not> cs_ping s"
  shows "\<exists>t' s'. client_session_ping
       (client_run B e [Ev_posted, Ev_pinged No_error, Ev_control Frame_pong]) (\<lambda>_ s. s) t s =
       (False, t', s') \<and>
     cs_pong (client_run B e [Ev_posted, Ev_pinged No_error, Ev_control Frame_pong]
       (s\<lparr>cs_posted := cs_posted s @ [Post_handle_ping]\<rparr>))"
  using assms
  by (simp add: client_session_ping_def Let_def weak_post_def handle_ping_def on_ping_def
      on_control_callback_def split: prod.split)

theorem ping_forgets_early_pong_witness:
  "\<not> fst (client_session_ping
      (client_run byte_buffer Little [Ev_posted, Ev_pinged No_error, Ev_control Frame_pong])
      (\<lambda>_ s. s) tls_new (client_session_new byte_buffer client_timeout_default))"
  using ping_forgets_early_pong [of "client_session_new byte_buffer client_timeout_default"
      byte_buffer Little tls_new]
  by (auto simp: client_session_new_def)

end
