(* ===== verification/Handshake.thy ===== *)
theory Handshake
  imports Radrpc_Prelude
begin

text \<open>
  The decorators that copy the fields of a user's handshake into the handshake the stream
  sends: \<^verbatim>\<open>session_connect::on_ssl_handshake\<close> of
  \<^verbatim>\<open>include/radrpc/impl/client/client_session.hpp\<close> for the request,
  \<^verbatim>\<open>session_accept::on_read_handshake\<close> of \<^verbatim>\<open>include/radrpc/impl/server/server_session.hpp\<close>
  for the response. The container of the fields belongs to the networking library.
\<close>

section \<open>The fields of the networking library\<close>

text \<open>
  \<^verbatim>\<open>boost::beast::http::fields\<close> as a parameter: a field has the number of its standard name
  (0 is \<^verbatim>\<open>field::unknown\<close>), the text of its name and a value. \<open>hd_field_of\<close> is the library's
  translation of a text to such a number. \<open>http_fields_laws\<close> is what the library documents:
  \<^verbatim>\<open>set\<close> replaces every field of that name by one, \<^verbatim>\<open>insert\<close> puts a field after the last one
  with the same name, so both leave the fields of other names alone.
\<close>

record http_field =
  fld_name :: nat
  fld_name_string :: string
  fld_value :: string

record 'h http_fields =
  hd_new :: 'h
  hd_fields :: "'h \<Rightarrow> http_field list"
  hd_field_of :: "string \<Rightarrow> nat"
  hd_insert :: "string \<Rightarrow> string \<Rightarrow> 'h \<Rightarrow> 'h"
  hd_set :: "nat \<Rightarrow> string \<Rightarrow> 'h \<Rightarrow> 'h"

definition known_values :: "'h http_fields \<Rightarrow> nat \<Rightarrow> 'h \<Rightarrow> string list" where
  "known_values H n h = map fld_value (filter (\<lambda>f. fld_name f = n) (hd_fields H h))"

definition custom_values :: "'h http_fields \<Rightarrow> string \<Rightarrow> 'h \<Rightarrow> string list" where
  "custom_values H name h =
     map fld_value (filter (\<lambda>f. fld_name f = 0 \<and> fld_name_string f = name) (hd_fields H h))"

definition http_fields_laws :: "'h http_fields \<Rightarrow> bool" where
  "http_fields_laws H \<longleftrightarrow>
     (\<forall>h. \<forall>f \<in> set (hd_fields H h). fld_name f = hd_field_of H (fld_name_string f)) \<and>
     (\<forall>n v h m. n \<noteq> 0 \<longrightarrow> m \<noteq> 0 \<longrightarrow>
        known_values H m (hd_set H n v h) = (if m = n then [v] else known_values H m h)) \<and>
     (\<forall>n v h name. n \<noteq> 0 \<longrightarrow> custom_values H name (hd_set H n v h) = custom_values H name h) \<and>
     (\<forall>s v h m. hd_field_of H s = 0 \<longrightarrow> m \<noteq> 0 \<longrightarrow>
        known_values H m (hd_insert H s v h) = known_values H m h) \<and>
     (\<forall>s v h name. hd_field_of H s = 0 \<longrightarrow> custom_values H name (hd_insert H s v h) =
        (if name = s then custom_values H name h @ [v] else custom_values H name h))"

text \<open>
  An instance, for the witnesses: the list of the fields, where the standard name with number
  \<open>n\<close> is written as \<open>n\<close> letters x.
\<close>

definition list_field_of :: "string \<Rightarrow> nat" where
  "list_field_of s = (if list_all (\<lambda>c. c = CHR ''x'') s then length s else 0)"

definition list_http :: "(string \<times> string) list http_fields" where
  "list_http =
     \<lparr>hd_new = [],
      hd_fields = map (\<lambda>(s, v). \<lparr>fld_name = list_field_of s, fld_name_string = s, fld_value = v\<rparr>),
      hd_field_of = list_field_of,
      hd_insert = (\<lambda>s v h. h @ [(s, v)]),
      hd_set = (\<lambda>n v h. filter (\<lambda>(s, w). list_field_of s \<noteq> n) h @ [(replicate n CHR ''x'', v)])\<rparr>"

lemma list_field_of_replicate [simp]: "list_field_of (replicate n CHR ''x'') = n"
  by (simp add: list_field_of_def list_all_iff)

lemma http_fields_laws_list_http: "http_fields_laws list_http"
proof -
  have f: "filter (\<lambda>f. fld_name f = m)
      (map (\<lambda>(s, v). \<lparr>fld_name = list_field_of s, fld_name_string = s, fld_value = v\<rparr>) h) =
    map (\<lambda>(s, v). \<lparr>fld_name = list_field_of s, fld_name_string = s, fld_value = v\<rparr>)
      (filter (\<lambda>(s, v). list_field_of s = m) h)" for m h
    by (induction h) auto
  have g: "filter (\<lambda>f. fld_name f = 0 \<and> fld_name_string f = name)
      (map (\<lambda>(s, v). \<lparr>fld_name = list_field_of s, fld_name_string = s, fld_value = v\<rparr>) h) =
    map (\<lambda>(s, v). \<lparr>fld_name = list_field_of s, fld_name_string = s, fld_value = v\<rparr>)
      (filter (\<lambda>(s, v). list_field_of s = 0 \<and> s = name) h)" for name h
    by (induction h) auto
  have c: "filter (\<lambda>(s, v). list_field_of s = m) (filter (\<lambda>(s, w). list_field_of s \<noteq> n) h) =
      (if m = n then [] else filter (\<lambda>(s, v). list_field_of s = m) h)" for m n and h :: "(string \<times> string) list"
    by (induction h) auto
  have d: "n \<noteq> 0 \<Longrightarrow> filter (\<lambda>(s, v). list_field_of s = 0 \<and> s = name)
      (filter (\<lambda>(s, w). list_field_of s \<noteq> n) h) =
      filter (\<lambda>(s, v). list_field_of s = 0 \<and> s = name) h" for name n and h :: "(string \<times> string) list"
    by (induction h) auto
  show ?thesis
    by (auto simp: http_fields_laws_def known_values_def custom_values_def list_http_def f g c d simp del: filter_filter)
qed

section \<open>The decorators\<close>

definition decorate_field :: "'h http_fields \<Rightarrow> http_field \<Rightarrow> 'h \<Rightarrow> 'h" where
  "decorate_field H f msg =
     (if fld_name f = 0 then hd_insert H (fld_name_string f) (fld_value f) msg
      else hd_set H (fld_name f) (fld_value f) msg)"

definition request_decorator :: "'h http_fields \<Rightarrow> 'h \<Rightarrow> 'h \<Rightarrow> 'h" where
  "request_decorator H set_req req = fold (decorate_field H) (hd_fields H set_req) req"

definition response_decorator :: "'h http_fields \<Rightarrow> 'h \<Rightarrow> 'h \<Rightarrow> 'h" where
  "response_decorator H set_res res = fold (decorate_field H) (hd_fields H set_res) res"

lemma decorate_field_values:
  assumes laws: "http_fields_laws H" and f: "f \<in> set (hd_fields H h)"
  shows "m \<noteq> 0 \<Longrightarrow> known_values H m (decorate_field H f msg) =
      (if fld_name f = m then [fld_value f] else known_values H m msg)"
    and "custom_values H name (decorate_field H f msg) =
      custom_values H name msg @ (if fld_name f = 0 \<and> fld_name_string f = name then [fld_value f] else [])"
proof -
  have n: "fld_name f = hd_field_of H (fld_name_string f)"
    using laws f by (simp add: http_fields_laws_def)
  show "m \<noteq> 0 \<Longrightarrow> known_values H m (decorate_field H f msg) =
      (if fld_name f = m then [fld_value f] else known_values H m msg)"
    using laws n unfolding http_fields_laws_def decorate_field_def by (simp (no_asm_simp))
  show "custom_values H name (decorate_field H f msg) =
      custom_values H name msg @ (if fld_name f = 0 \<and> fld_name_string f = name then [fld_value f] else [])"
    using laws n unfolding http_fields_laws_def decorate_field_def by (simp (no_asm_simp)) auto
qed

lemma decorate_fold_values:
  assumes laws: "http_fields_laws H" and sub: "set fs \<subseteq> set (hd_fields H h)"
  shows "n \<noteq> 0 \<Longrightarrow> known_values H n (fold (decorate_field H) fs msg) =
      (let vs = map fld_value (filter (\<lambda>f. fld_name f = n) fs)
       in if vs = [] then known_values H n msg else [last vs])"
    and "custom_values H name (fold (decorate_field H) fs msg) =
      custom_values H name msg @
        map fld_value (filter (\<lambda>f. fld_name f = 0 \<and> fld_name_string f = name) fs)"
  using sub
proof (induction fs arbitrary: msg)
  case Nil
  { case 1 then show ?case by simp }
  { case 2 then show ?case by simp }
next
  case (Cons f fs)
  have f: "f \<in> set (hd_fields H h)" if "set (f # fs) \<subseteq> set (hd_fields H h)" using that by simp
  { case 1
    then show ?case
      using Cons.IH(1) decorate_field_values(1) [OF laws f] by (auto simp: Let_def) }
  { case 2
    then show ?case using Cons.IH(2) decorate_field_values(2) [OF laws f] by simp }
qed

text \<open>C29: the handshake a side sends carries the fields its user has set. A standard field the user
  gave holds exactly the last value given, whatever the library had put there, and a custom
  field is added to those of the library with all its values in order; standard fields the user
  did not give keep the values of the library.\<close>

theorem handshake_fields_applied:
  assumes "http_fields_laws H" and "n \<noteq> 0"
    and "D = request_decorator \<or> D = response_decorator"
  shows "known_values H n (D H given msg) =
       (if known_values H n given = [] then known_values H n msg
        else [last (known_values H n given)]) \<and>
     custom_values H name (D H given msg) = custom_values H name msg @ custom_values H name given"
  using assms(3) decorate_fold_values [OF assms(1) order_refl [of "set (hd_fields H given)"]] assms(2)
  by (auto simp: request_decorator_def response_decorator_def known_values_def custom_values_def Let_def)

theorem handshake_fields_applied_witness:
  "known_values list_http 2 (request_decorator list_http [(''xx'', ''a''), (''id'', ''7''), (''xx'', ''b'')]
      [(''xx'', ''library''), (''x'', ''host'')]) = [''b''] \<and>
   custom_values list_http ''id'' (request_decorator list_http
      [(''xx'', ''a''), (''id'', ''7''), (''xx'', ''b'')] [(''xx'', ''library''), (''x'', ''host'')]) = [''7'']"
  using handshake_fields_applied [OF http_fields_laws_list_http, of 2 request_decorator
      "[(''xx'', ''a''), (''id'', ''7''), (''xx'', ''b'')]" "[(''xx'', ''library''), (''x'', ''host'')]" "''id''"]
  by (simp add: known_values_def custom_values_def list_http_def list_field_of_def)

end
