(* ===== verification/Session_Connect.thy ===== *)
theory Session_Connect
  imports Client_Session Handshake
begin

text \<open>
  \<^verbatim>\<open>session_connect\<close> of \<^verbatim>\<open>include/radrpc/impl/client/client_session.hpp\<close>: resolving the
  address, connecting, the TLS and websocket handshakes and closing, around the client session.
\<close>

section \<open>State\<close>

text \<open>
  The operation the connection has in progress, its completion handler being the next to run.
\<close>

datatype connect_op = Op_resolve | Op_connect | Op_ssl_handshake | Op_handshake

text \<open>
  \<open>sn_ssl\<close> tells the stream type. \<open>sn_run_callback\<close> is the promise \<^verbatim>\<open>m_run_callback\<close> (\<open>None\<close>
  while it has no value) and \<open>sn_broken\<close> tells that it was given a second value, which throws.
  \<open>sn_expires\<close> is the timeout of the TCP stream (\<open>None\<close> for never), \<open>sn_stream_timeout\<close>
  the handshake timeout set on the websocket, \<open>sn_decorator\<close> the fields captured by its
  decorator and \<open>sn_read_message_max\<close> its limit for a message.
\<close>

record ('b, 'h) session_connect =
  sn_session :: "'b client_session"
  sn_ssl :: bool
  sn_client_cfg :: client_config
  sn_timeout :: duration
  sn_req_handshake :: 'h
  sn_state :: connection_state
  sn_run_callback :: "bool option"
  sn_close_initiated :: bool
  sn_ops :: "connect_op list"
  sn_expires :: "duration option"
  sn_stream_timeout :: "duration option"
  sn_decorator :: "'h option"
  sn_read_message_max :: "u64 option"
  sn_broken :: bool

definition session_connect_new ::
  "'b flat_buffer \<Rightarrow> bool \<Rightarrow> client_config \<Rightarrow> client_timeout \<Rightarrow> duration \<Rightarrow> 'h \<Rightarrow>
   ('b, 'h) session_connect" where
  "session_connect_new B ssl p_client_cfg p_client_timeout p_timeout p_req_handshake =
     \<lparr>sn_session = client_session_new B p_client_timeout, sn_ssl = ssl,
      sn_client_cfg = p_client_cfg, sn_timeout = p_timeout, sn_req_handshake = p_req_handshake,
      sn_state = Conn_none, sn_run_callback = None, sn_close_initiated = False, sn_ops = [],
      sn_expires = None, sn_stream_timeout = None, sn_decorator = None,
      sn_read_message_max = None, sn_broken = False\<rparr>"

section \<open>Handlers\<close>

definition run_callback :: "bool \<Rightarrow> ('b, 'h) session_connect \<Rightarrow> ('b, 'h) session_connect" where
  "run_callback v s =
     (case sn_run_callback s of
        None \<Rightarrow> s\<lparr>sn_run_callback := Some v\<rparr>
      | Some _ \<Rightarrow> s\<lparr>sn_broken := True\<rparr>)"

definition start_op :: "connect_op \<Rightarrow> ('b, 'h) session_connect \<Rightarrow> ('b, 'h) session_connect" where
  "start_op op s = s\<lparr>sn_ops := sn_ops s @ [op]\<rparr>"

definition on_resolve :: "error_code \<Rightarrow> ('b, 'h) session_connect \<Rightarrow> ('b, 'h) session_connect" where
  "on_resolve ec s =
     (if failed ec then run_callback False s
      else start_op Op_connect (s\<lparr>sn_state := Conn_connect, sn_expires := Some (sn_timeout s)\<rparr>))"

definition on_ssl_handshake ::
  "error_code \<Rightarrow> ('b, 'h) session_connect \<Rightarrow> ('b, 'h) session_connect" where
  "on_ssl_handshake ec s =
     (if failed ec then run_callback False s
      else start_op Op_handshake
        (s\<lparr>sn_expires := None, sn_state := Conn_handshake,
           sn_stream_timeout := Some (sn_timeout s),
           sn_decorator := Some (sn_req_handshake s)\<rparr>))"

definition ssl_handshake :: "('b, 'h) session_connect \<Rightarrow> ('b, 'h) session_connect" where
  "ssl_handshake s = (if sn_ssl s then start_op Op_ssl_handshake s else on_ssl_handshake No_error s)"

definition on_connect :: "error_code \<Rightarrow> ('b, 'h) session_connect \<Rightarrow> ('b, 'h) session_connect" where
  "on_connect ec s =
     (if failed ec then run_callback False s
      else ssl_handshake
        (s\<lparr>sn_expires := Some (ct_handshake_timeout (cs_client_timeout (sn_session s)))\<rparr>))"

definition on_handshake :: "error_code \<Rightarrow> ('b, 'h) session_connect \<Rightarrow> ('b, 'h) session_connect" where
  "on_handshake ec s =
     (if failed ec then run_callback False s
      else run_callback True
        (s\<lparr>sn_session := client_read (sn_session s), sn_state := Conn_established\<rparr>))"

text \<open>The completion of the operation in progress.\<close>

definition connect_done :: "error_code \<Rightarrow> ('b, 'h) session_connect \<Rightarrow> ('b, 'h) session_connect" where
  "connect_done ec s =
     (case sn_ops s of
        [] \<Rightarrow> s
      | op # ops \<Rightarrow>
          (let s1 = s\<lparr>sn_ops := ops\<rparr>
           in case op of
                Op_resolve \<Rightarrow> on_resolve ec s1
              | Op_connect \<Rightarrow> on_connect ec s1
              | Op_ssl_handshake \<Rightarrow> on_ssl_handshake ec s1
              | Op_handshake \<Rightarrow> on_handshake ec s1))"

section \<open>Running and closing\<close>

text \<open>
  \<open>io\<close> is what the io thread does until the promise has a value; without a value the wait
  does not return and \<^verbatim>\<open>run()\<close> has no result.
\<close>

definition run_refused :: "('b, 'h) session_connect \<Rightarrow> bool" where
  "run_refused s \<longleftrightarrow> sn_close_initiated s \<or> sn_state s \<noteq> Conn_none"

definition run_start :: "('b, 'h) session_connect \<Rightarrow> ('b, 'h) session_connect" where
  "run_start s =
     start_op Op_resolve
       (s\<lparr>sn_read_message_max := Some (cc_max_read_bytes (sn_client_cfg s)), sn_run_callback := None\<rparr>)"

definition connect_run ::
  "(('b, 'h) session_connect \<Rightarrow> ('b, 'h) session_connect) \<Rightarrow> ('b, 'h) session_connect \<Rightarrow>
   (connection_state \<times> ('b, 'h) session_connect) option" where
  "connect_run io s =
     (if run_refused s then Some (Conn_none, s)
      else let s1 = io (run_start s)
           in if sn_run_callback s1 = None then None else Some (sn_state s1, s1))"

text \<open>
  \<^verbatim>\<open>close()\<close>: \<open>io_run\<close> is a run of a stopped and restarted io context, \<open>executor\<close> what a
  running one does with the posted handler until it has run or the wait times out.
\<close>

definition connect_close ::
  "bool \<Rightarrow> ('b client_session \<Rightarrow> 'b client_session) \<Rightarrow>
   (('b client_session \<times> promises \<Rightarrow> 'b client_session \<times> promises) \<Rightarrow>
    'b client_session \<times> promises \<Rightarrow> 'b client_session \<times> promises) \<Rightarrow>
   ('b, 'h) session_connect \<Rightarrow> ('b, 'h) session_connect" where
  "connect_close stopped io_run executor s =
     (if sn_close_initiated s then s
      else
        (let s1 = s\<lparr>sn_close_initiated := True\<rparr>;
             c = sn_session s1
         in if stopped
            then s1\<lparr>sn_session := io_run (c\<lparr>cs_posted := cs_posted c @ [Post_close_session]\<rparr>)\<rparr>
            else (case wait_weak_post True executor (Some close_session) 0 (c, \<lambda>_. None) of
                    (done, c1, P) \<Rightarrow> s1\<lparr>sn_session := c1\<rparr>)))"

section \<open>Steps\<close>

datatype 'b connect_event =
    Cn_run
  | Cn_done error_code
  | Cn_close
  | Cn_session "'b client_event"

fun connect_enabled :: "'b connect_event \<Rightarrow> ('b, 'h) session_connect \<Rightarrow> bool" where
  "connect_enabled Cn_run s \<longleftrightarrow> sn_ops s = []"
| "connect_enabled (Cn_done ec) s \<longleftrightarrow> sn_ops s \<noteq> []"
| "connect_enabled Cn_close s \<longleftrightarrow> True"
| "connect_enabled (Cn_session ev) s \<longleftrightarrow> client_enabled ev (sn_session s)"

text \<open>
  \<^verbatim>\<open>run()\<close> and \<^verbatim>\<open>close()\<close> as far as the calling thread itself changes the state; the
  rest of them is done by the events of the io thread. One thread calls \<^verbatim>\<open>run()\<close> and blocks in it.
\<close>

fun connect_exec ::
  "'b flat_buffer \<Rightarrow> endian \<Rightarrow> 'b connect_event \<Rightarrow> ('b, 'h) session_connect \<Rightarrow>
   ('b, 'h) session_connect" where
  "connect_exec B e Cn_run s = (if run_refused s then s else run_start s)"
| "connect_exec B e (Cn_done ec) s = connect_done ec s"
| "connect_exec B e Cn_close s = connect_close True (\<lambda>c. c) (\<lambda>_ x. x) s"
| "connect_exec B e (Cn_session ev) s = s\<lparr>sn_session := client_exec B e ev (sn_session s)\<rparr>"

inductive connect_step ::
  "'b flat_buffer \<Rightarrow> endian \<Rightarrow> ('b, 'h) session_connect \<Rightarrow> 'b connect_event \<Rightarrow>
   ('b, 'h) session_connect \<Rightarrow> bool"
  for B :: "'b flat_buffer" and e :: endian
where
  connect_stepI: "connect_enabled ev s \<Longrightarrow> connect_step B e s ev (connect_exec B e ev s)"

inductive_cases connect_stepE: "connect_step B e s ev t"

definition connect_init :: "'b flat_buffer \<Rightarrow> ('b, 'h) session_connect \<Rightarrow> bool" where
  "connect_init B s \<longleftrightarrow> (\<exists>ssl cfg ct d h. s = session_connect_new B ssl cfg ct d h)"

section \<open>Invariant\<close>

text \<open>
  What the state and the promise say of the operation in progress. The promise is without a
  value exactly until the attempt has ended, and then tells whether it was successful.
\<close>

fun phase_of :: "connect_op \<Rightarrow> connection_state" where
  "phase_of Op_resolve = Conn_none"
| "phase_of Op_connect = Conn_connect"
| "phase_of Op_ssl_handshake = Conn_connect"
| "phase_of Op_handshake = Conn_handshake"

fun attempt_ok :: "bool \<Rightarrow> connect_op list \<Rightarrow> bool option \<Rightarrow> connection_state \<Rightarrow> bool" where
  "attempt_ok ssl [] None st \<longleftrightarrow> st = Conn_none"
| "attempt_ok ssl [] (Some v) st \<longleftrightarrow> (v \<longleftrightarrow> st = Conn_established)"
| "attempt_ok ssl [op] cb st \<longleftrightarrow>
     cb = None \<and> st = phase_of op \<and> (op = Op_ssl_handshake \<longrightarrow> ssl)"
| "attempt_ok ssl (op # op' # ops) cb st \<longleftrightarrow> False"

fun_cases attempt_okE: "attempt_ok ssl ops cb st"

definition connect_inv :: "endian \<Rightarrow> ('b, 'h) session_connect \<Rightarrow> bool" where
  "connect_inv e s \<longleftrightarrow>
     client_inv e (sn_session s) \<and> \<not> sn_broken s \<and>
     attempt_ok (sn_ssl s) (sn_ops s) (sn_run_callback s) (sn_state s) \<and>
     (so_reads (cs_stream (sn_session s)) \<noteq> 0 \<longrightarrow> sn_state s = Conn_established)"

lemmas connect_defs =
  run_callback_def start_op_def on_resolve_def on_connect_def ssl_handshake_def
  on_ssl_handshake_def on_handshake_def

lemma client_exec_no_read:
  assumes "so_reads (cs_stream s) = 0" and "client_enabled ev s"
  shows "so_reads (cs_stream (client_exec B e ev s)) = 0"
proof -
  have hs: "so_reads (cs_stream (handle_send e c r p d n s)) = so_reads (cs_stream s)"
    for c r p d n and s :: "'a client_session"
    by (cases "client_accepts s") (auto simp: handle_send_refused handle_send_accepted Let_def)
  have ow: "so_reads (cs_stream (client_on_write e ec s)) = so_reads (cs_stream s)"
    for ec and s :: "'a client_session"
    by (auto simp: client_on_write_def client_write_def data_queue_clear_def close_session_def
        data_queue_write_next_def Let_def split: list.split option.split)
  have rp: "so_reads (cs_stream (run_posted e h s)) = so_reads (cs_stream s)"
    for h and s :: "'a client_session"
    by (cases h) (auto simp: weak_post_def hs handle_ping_def)
  show ?thesis
    using assms
    by (cases ev)
      (auto simp: ow rp on_control_callback_def on_ping_def post_send_def drop_promise_def Let_def
        split: list.split)
qed

lemma client_inv_read:
  "client_inv e s \<Longrightarrow> so_reads (cs_stream s) = 0 \<Longrightarrow> client_inv e (client_read s)"
  by (simp add: client_inv_def client_read_def)

lemma connect_inv_done:
  assumes inv: "connect_inv e s" and ops: "sn_ops s \<noteq> []"
  shows "connect_inv e (connect_done ec s)"
proof -
  from inv ops obtain op where op: "sn_ops s = [op]"
    by (auto simp: connect_inv_def elim: attempt_okE)
  with inv have "so_reads (cs_stream (sn_session s)) = 0"
    by (cases op) (auto simp: connect_inv_def)
  with inv op show ?thesis
    by (cases op)
      (auto simp: connect_inv_def connect_done_def connect_defs Let_def client_inv_read)
qed

lemma connect_exec_close:
  "connect_exec B e Cn_close s =
     (if sn_close_initiated s then s
      else s\<lparr>sn_close_initiated := True,
             sn_session := (sn_session s)\<lparr>cs_posted := cs_posted (sn_session s) @ [Post_close_session]\<rparr>\<rparr>)"
  by (simp add: connect_close_def Let_def)

lemma connect_inv_exec:
  assumes "connect_inv e s" and "connect_enabled ev s"
  shows "connect_inv e (connect_exec B e ev s)"
proof (cases ev)
  case Cn_run
  with assms show ?thesis
    by (auto simp: connect_inv_def run_refused_def run_start_def start_op_def)
next
  case (Cn_done ec)
  with assms show ?thesis by (simp add: connect_inv_done)
next
  case Cn_close
  moreover have "client_inv e (c\<lparr>cs_posted := ps\<rparr>) \<longleftrightarrow> client_inv e c" for c :: "'a client_session" and ps
    by (simp add: client_inv_def)
  ultimately show ?thesis using assms by (simp add: connect_exec_close connect_inv_def del: connect_exec.simps)
next
  case (Cn_session cev)
  with assms show ?thesis
    using client_exec_no_read [of "sn_session s" cev B e]
    by (auto simp: connect_inv_def client_inv_exec)
qed

interpretation connect_sys: invariant_system "connect_init B" "connect_step B e" "connect_inv e"
proof unfold_locales
  show "connect_init B s \<Longrightarrow> connect_inv e s" for s :: "('a, 'b) session_connect"
    by (auto simp: connect_init_def session_connect_new_def connect_inv_def client_inv_new)
      (simp add: client_session_new_def)
  show "connect_inv e s \<Longrightarrow> connect_step B e s ev t \<Longrightarrow> connect_inv e t"
    for s t :: "('a, 'b) session_connect" and ev
    by (auto elim!: connect_stepE intro: connect_inv_exec)
qed

section \<open>Properties\<close>

text \<open>C20: in every state a connection can reach, whatever the io thread and the callers do, the promise
  \<^verbatim>\<open>run()\<close> waits for has been given at most one value, it has none while an operation of the
  attempt is in progress, the value tells whether the connection is established, at most one connect operation is
  in progress, the session reads only after the handshakes, and at most one close was started.\<close>

theorem connect_promise_once:
  assumes "reachable (connect_init B) (connect_step B e) s"
  shows "\<not> sn_broken s \<and> length (sn_ops s) \<le> 1 \<and>
     (sn_ops s \<noteq> [] \<longrightarrow> sn_run_callback s = None) \<and>
     (sn_run_callback s = Some True \<longleftrightarrow> sn_state s = Conn_established) \<and>
     (so_reads (cs_stream (sn_session s)) \<noteq> 0 \<longrightarrow> sn_state s = Conn_established) \<and>
     so_close_count (cs_stream (sn_session s)) \<le> 1"
proof -
  have inv: "connect_inv e s" using connect_sys.reachable_inv assms .
  have "phase_of op \<noteq> Conn_established" for op by (cases op) auto
  with inv show ?thesis
    by (auto simp: connect_inv_def client_inv_def elim!: attempt_okE)
qed

theorem connect_promise_once_witness:
  "sn_run_callback (connect_exec byte_buffer Little (Cn_done Timed_out)
     (connect_exec byte_buffer Little Cn_run (session_connect_new byte_buffer True
        client_config_default client_timeout_default 5 ()))) \<noteq> Some True"
proof -
  let ?s0 = "session_connect_new byte_buffer True client_config_default client_timeout_default 5 ()"
  let ?s1 = "connect_exec byte_buffer Little Cn_run ?s0"
  let ?R = "reachable (connect_init byte_buffer) (connect_step byte_buffer Little)"
  have "?R ?s0" by (rule reachable.reach_init) (auto simp: connect_init_def)
  then have "?R ?s1"
    by (rule reachable.reach_step) (rule connect_stepI, simp add: session_connect_new_def)
  moreover have ops: "sn_ops ?s1 = [Op_resolve]"
    by (simp add: session_connect_new_def run_refused_def run_start_def start_op_def)
  moreover have "connect_step byte_buffer Little ?s1 (Cn_done Timed_out)
      (connect_exec byte_buffer Little (Cn_done Timed_out) ?s1)"
    by (rule connect_stepI) (simp add: ops del: connect_exec.simps)
  ultimately have "?R (connect_exec byte_buffer Little (Cn_done Timed_out) ?s1)"
    by (blast intro: reachable.reach_step)
  from connect_promise_once [OF this] show ?thesis
    by (simp add: session_connect_new_def run_refused_def run_start_def connect_done_def connect_defs)
qed

text \<open>The connection state only moves forward, in the order of the values of its enumeration.\<close>

theorem connect_state_monotone:
  assumes "connect_inv e s" and "connect_step B e s ev t"
  shows "sn_state s \<le> sn_state t"
  using assms(2)
proof (rule connect_stepE)
  assume t: "t = connect_exec B e ev s" and en: "connect_enabled ev s"
  show ?thesis
  proof (cases ev)
    case (Cn_done ec)
    with en assms(1) obtain op where "sn_ops s = [op]" "sn_state s = phase_of op" "sn_run_callback s = None"
      by (auto simp: connect_inv_def elim: attempt_okE)
    with t Cn_done show ?thesis
      by (cases op) (auto simp: connect_done_def connect_defs Let_def connection_state_order)
  qed (use t in \<open>auto simp: run_start_def start_op_def connect_close_def Let_def\<close>)
qed

theorem connect_state_monotone_witness:
  "Conn_none \<le> sn_state (connect_exec byte_buffer Big Cn_run (session_connect_new byte_buffer False
      client_config_default client_timeout_default 5 ()))"
proof -
  let ?s0 = "session_connect_new byte_buffer False client_config_default client_timeout_default 5 ()"
  have "connect_inv Big ?s0" by (rule connect_sys.inv_init) (auto simp: connect_init_def)
  moreover have "connect_step byte_buffer Big ?s0 Cn_run (connect_exec byte_buffer Big Cn_run ?s0)"
    by (rule connect_stepI) (simp add: session_connect_new_def)
  ultimately show ?thesis
    using connect_state_monotone by (fastforce simp: session_connect_new_def)
qed

text \<open>The io thread completing the operations of an attempt with the given results.\<close>

fun drive :: "error_code list \<Rightarrow> ('b, 'h) session_connect \<Rightarrow> ('b, 'h) session_connect" where
  "drive [] s = s"
| "drive (ec # ecs) s = (if sn_ops s = [] then s else drive ecs (connect_done ec s))"

text \<open>C21: \<^verbatim>\<open>run()\<close> always returns once four operations (three without TLS) have completed, and its
  result names the stage that failed: nothing for the address, \<^verbatim>\<open>connect\<close> for the connection and
  for the TLS handshake, \<^verbatim>\<open>handshake\<close> for the websocket, and \<^verbatim>\<open>established\<close> exactly when all of
  them succeeded; then the session has its first read started and the user's handshake fields set.\<close>

theorem run_reports_stage:
  assumes "\<not> run_refused s" and "sn_ops s = []"
  shows "\<exists>s'. connect_run (drive [e1, e2, e3, e4]) s = Some (sn_state s', s') \<and>
     sn_state s' =
       (if failed e1 then Conn_none
        else if failed e2 then Conn_connect
        else if sn_ssl s \<and> failed e3 then Conn_connect
        else if failed (if sn_ssl s then e4 else e3) then Conn_handshake
        else Conn_established) \<and>
     (sn_state s' = Conn_established \<longrightarrow>
        so_reads (cs_stream (sn_session s')) = Suc (so_reads (cs_stream (sn_session s))) \<and>
        sn_decorator s' = Some (sn_req_handshake s) \<and> sn_expires s' = None \<and>
        sn_read_message_max s' = Some (cc_max_read_bytes (sn_client_cfg s)))"
proof -
  have st: "sn_state s = Conn_none" using assms(1) by (simp add: run_refused_def)
  consider "failed e1" | "\<not> failed e1" "failed e2"
    | "\<not> failed e1" "\<not> failed e2" "failed e3" | "\<not> failed e1" "\<not> failed e2" "\<not> failed e3"
    by blast
  then show ?thesis
    using assms st
    by cases
      (auto simp: connect_run_def run_start_def connect_done_def connect_defs Let_def client_read_def)
qed

theorem run_reports_stage_witness:
  "fst (the (connect_run (drive [No_error, No_error, Timed_out, No_error])
     (session_connect_new byte_buffer False client_config_default client_timeout_default 5 ()))) =
   Conn_handshake"
  using run_reports_stage [of "session_connect_new byte_buffer False client_config_default
      client_timeout_default 5 ()" No_error No_error Timed_out No_error]
  by (auto simp: session_connect_new_def run_refused_def)

text \<open>\<^verbatim>\<open>close()\<close> on a running io context starts the close handshake once: a second call changes
  nothing, and a closed connection refuses to run.\<close>

theorem close_is_final:
  assumes inv: "connect_inv e s" and fresh: "\<not> sn_close_initiated s"
    and open_: "\<not> cs_close_received (sn_session s)"
    and s': "s' = connect_close False io_run (\<lambda>h. h) s"
  shows "so_close_count (cs_stream (sn_session s')) = 1 \<and> cs_close (sn_session s') \<and>
     connect_close stopped io2 executor s' = s' \<and> connect_run io3 s' = Some (Conn_none, s')"
  using assms
  by (auto simp: connect_inv_def client_inv_def connect_close_def wait_weak_post_def
      wait_weak_post_handler_def Let_def close_session_def connect_run_def run_refused_def)

theorem close_is_final_witness:
  "so_close_count (cs_stream (sn_session (connect_close False id (\<lambda>h. h)
     (session_connect_new byte_buffer False client_config_default client_timeout_default 5 ())))) = 1"
proof -
  let ?s0 = "session_connect_new byte_buffer False client_config_default client_timeout_default 5 ()"
  have "connect_inv Big ?s0" by (rule connect_sys.inv_init) (auto simp: connect_init_def)
  from close_is_final [OF this _ _ refl] show ?thesis
    by (simp add: session_connect_new_def client_session_new_def)
qed

end
