(* ===== verification/Client.thy ===== *)
theory Client
  imports Session_Connect
begin

text \<open>
  \<^verbatim>\<open>client\<close> of \<^verbatim>\<open>include/radrpc/client.hpp\<close>: the functions a user calls, on a connection that is
  built when it is needed and destroyed when nothing holds it any more.
\<close>

section \<open>State\<close>

text \<open>
  \<open>ci_ssl\<close> is the template parameter of the class. \<open>ci_session\<close> is the object the weak reference
  \<^verbatim>\<open>m_session\<close> leads to, \<open>None\<close> when there is none (any more), \<open>ci_deleting\<close> tells that a thread has
  given up the last shared pointer to it and is inside its deleter, and \<open>ci_io_worker\<close> tells whether
  \<^verbatim>\<open>m_io_worker\<close> is joinable. Of the stream options \<^verbatim>\<open>m_timeout\<close> the sources read the handshake
  timeout.
\<close>

record ('b, 'h) client =
  ci_ssl :: bool
  ci_expired :: bool
  ci_bound_funcs :: "(u32 \<times> ('b \<Rightarrow> 'b) option) list"
  ci_io_worker :: bool
  ci_client_cfg :: client_config
  ci_client_timeout :: client_timeout
  ci_handshake_timeout :: duration
  ci_idle_timeout :: duration
  ci_keep_alive_pings :: bool
  ci_session :: "('b, 'h) session_connect option"
  ci_deleting :: bool
  ci_req_handshake :: 'h
  ci_exit :: bool

text \<open>The functions throw, and may wait without end: the outcome of a call and the state it leaves.\<close>

datatype client_error = Deadlock_timeout | Session_active | Id_already_bound u32

datatype ('s, 'a) outcome = Blocked | Thrown client_error 's | Returned 'a 's

fun bind_outcome :: "('s, 'a) outcome \<Rightarrow> ('a \<Rightarrow> 's \<Rightarrow> ('s, 'b) outcome) \<Rightarrow> ('s, 'b) outcome" where
  "bind_outcome Blocked f = Blocked"
| "bind_outcome (Thrown er s) f = Thrown er s"
| "bind_outcome (Returned a s) f = f a s"

text \<open>
  What the rest of the program does while a call waits: \<open>ce_run\<close> completes the operations of a
  connection attempt, \<open>ce_io\<close> and \<open>ce_response\<close> are the io thread while a send is written and
  its response is awaited, \<open>ce_between\<close> the io thread between the two halves of a ping, the next three
  are the environment of \<open>connect_close\<close>, \<open>ce_joined\<close> tells whether the thread that is joined ever
  ends, \<open>ce_destroy\<close> is what the io thread does while the destruction of
  the session is awaited, \<open>ce_before\<close> what other threads do before an attempt takes the lock
  (during the delay of an attempt that is not the first) and \<open>ce_after\<close> what they do between its release
  and the disconnecting or connecting that follows.
\<close>

record ('b, 'h) client_env =
  ce_now :: time_point
  ce_run :: "('b, 'h) session_connect \<Rightarrow> ('b, 'h) session_connect"
  ce_io :: "'b io"
  ce_response :: "'b io"
  ce_between :: "'b client_session \<Rightarrow> 'b client_session"
  ce_stopped :: bool
  ce_io_run :: "'b client_session \<Rightarrow> 'b client_session"
  ce_executor :: "('b client_session \<times> promises \<Rightarrow> 'b client_session \<times> promises) \<Rightarrow>
     'b client_session \<times> promises \<Rightarrow> 'b client_session \<times> promises"
  ce_joined :: bool
  ce_destroy :: "('b, 'h) client \<Rightarrow> ('b, 'h) client"
  ce_before :: "('b, 'h) client \<Rightarrow> ('b, 'h) client"
  ce_after :: "('b, 'h) client \<Rightarrow> ('b, 'h) client"

definition client_new ::
  "'h http_fields \<Rightarrow> bool \<Rightarrow> client_config \<Rightarrow> client_timeout \<Rightarrow> ('b, 'h) client" where
  "client_new H ssl p_client_cfg p_client_timeout =
     \<lparr>ci_ssl = ssl, ci_expired = True, ci_bound_funcs = [], ci_io_worker = False,
      ci_client_cfg = p_client_cfg\<lparr>cc_send_attempts := max (cc_send_attempts p_client_cfg) 1\<rparr>,
      ci_client_timeout = p_client_timeout,
      ci_handshake_timeout = ct_handshake_timeout p_client_timeout,
      ci_idle_timeout = duration_max, ci_keep_alive_pings = False,
      ci_session = None, ci_deleting = False, ci_req_handshake = hd_new H, ci_exit = False\<rparr>"

definition is_ssl :: "('b, 'h) client \<Rightarrow> bool" where
  "is_ssl c = ci_ssl c"

section \<open>The session and its lifetime\<close>

text \<open>
  Every operation in progress holds a reference to the session (its handler is bound to
  \<^verbatim>\<open>shared_from_this()\<close>); posted handlers hold none.
\<close>

definition session_held :: "('b, 'h) session_connect \<Rightarrow> bool" where
  "session_held s \<longleftrightarrow> sn_ops s \<noteq> [] \<or>
     (let st = cs_stream (sn_session s)
      in so_reads st \<noteq> 0 \<or> so_writes st \<noteq> [] \<or> so_pings st \<noteq> 0 \<or> so_closes st \<noteq> 0)"

text \<open>
  With the last reference the weak one expires and the deleter starts; \<^verbatim>\<open>m_expired\<close> is set after the
  session has been destroyed. Between the two there is no session and the client is not marked as
  expired.
\<close>

definition release_session :: "('b, 'h) client \<Rightarrow> ('b, 'h) client" where
  "release_session c = c\<lparr>ci_session := None, ci_deleting := True\<rparr>"

definition on_session_delete :: "('b, 'h) client \<Rightarrow> ('b, 'h) client" where
  "on_session_delete c = c\<lparr>ci_expired := True, ci_deleting := False\<rparr>"

text \<open>
  The io thread drops a reference when one of its handlers has run: if it was the last one, the thread is then
  inside the deleter, and the other threads run meanwhile. A call drops its own reference while it holds the lock of
  the session and runs the deleter itself, to its end, before it goes on and before it unlocks; every function that
  reads \<^verbatim>\<open>m_expired\<close> takes that lock exclusively, so no other call sees the time between.
\<close>

definition keep_session :: "('b, 'h) session_connect \<Rightarrow> ('b, 'h) client \<Rightarrow> ('b, 'h) client" where
  "keep_session s c = (if session_held s then c\<lparr>ci_session := Some s\<rparr> else release_session c)"

definition put_session :: "('b, 'h) session_connect \<Rightarrow> ('b, 'h) client \<Rightarrow> ('b, 'h) client" where
  "put_session s c =
     (if session_held s then c\<lparr>ci_session := Some s\<rparr> else on_session_delete (release_session c))"

inductive client_io :: "('b, 'h) client \<Rightarrow> ('b, 'h) client \<Rightarrow> bool" where
  io_handler: "ci_session c = Some s \<Longrightarrow> client_io c (keep_session s' c)"
| io_deleter: "ci_deleting c \<Longrightarrow> client_io c (on_session_delete c)"

definition wait_destruction ::
  "('b, 'h) client_env \<Rightarrow> ('b, 'h) client \<Rightarrow> bool \<times> ('b, 'h) client" where
  "wait_destruction E c = (if ci_expired c then (True, c)
     else let c1 = ce_destroy E c in (ci_expired c1, c1))"

text \<open>
  \<^verbatim>\<open>construct_session()\<close>; the thread of the previous session is joined first, which waits for its end, and
  \<^verbatim>\<open>run()\<close> starts the new one.
\<close>

definition construct_session ::
  "'b flat_buffer \<Rightarrow> ('b, 'h) client_env \<Rightarrow> ('b, 'h) client \<Rightarrow> (('b, 'h) client, bool) outcome" where
  "construct_session B E c =
     (if \<not> ci_expired c then Returned True c
      else if ci_io_worker c \<and> \<not> ce_joined E then Blocked
      else
        (let c1 = c\<lparr>ci_expired := False, ci_io_worker := False\<rparr>;
             s = session_connect_new B (ci_ssl c1) (ci_client_cfg c1) (ci_client_timeout c1)
                   (ci_handshake_timeout c1) (ci_req_handshake c1)
         in case connect_run (ce_run E) s of
              None \<Rightarrow> Blocked
            | Some (st, s1) \<Rightarrow>
                Returned (st = Conn_established) (put_session s1 (c1\<lparr>ci_io_worker := True\<rparr>))))"

section \<open>The functions a user calls\<close>

definition client_delete ::
  "('b, 'h) client_env \<Rightarrow> ('b, 'h) client \<Rightarrow> (('b, 'h) client, unit) outcome" where
  "client_delete E c =
     (let c1 = c\<lparr>ci_exit := True\<rparr>;
          c2 = (case ci_session c1 of
                  Some s \<Rightarrow>
                    put_session (connect_close (ce_stopped E) (ce_io_run E) (ce_executor E) s) c1
                | None \<Rightarrow> c1);
          (destructed, c3) = wait_destruction E c2
      in if ci_io_worker c3 \<and> \<not> ce_joined E then Blocked else Returned () (c3\<lparr>ci_io_worker := False\<rparr>))"

definition listen_broadcast ::
  "u32 \<Rightarrow> ('b \<Rightarrow> 'b) option \<Rightarrow> ('b, 'h) client \<Rightarrow> (('b, 'h) client, bool) outcome" where
  "listen_broadcast broadcast_id handler c =
     (if ci_exit c then Returned False c
      else if \<not> ci_expired c then Thrown Session_active c
      else case map_of (ci_bound_funcs c) broadcast_id of
        Some _ \<Rightarrow> Thrown (Id_already_bound broadcast_id) c
      | None \<Rightarrow>
          Returned True (c\<lparr>ci_bound_funcs := AList.update broadcast_id handler (ci_bound_funcs c)\<rparr>))"

definition client_connect ::
  "'b flat_buffer \<Rightarrow> ('b, 'h) client_env \<Rightarrow> ('b, 'h) client \<Rightarrow> (('b, 'h) client, bool) outcome" where
  "client_connect B E c = (if ci_exit c then Returned False c else construct_session B E c)"

text \<open>
  \<^verbatim>\<open>connect(attempts, delay)\<close>: the loop from attempt \<open>i\<close> on, with \<open>n\<close> attempts left. The lock is
  held all the time, so only the io thread acts in between.
\<close>

fun connect_loop ::
  "'b flat_buffer \<Rightarrow> (nat \<Rightarrow> ('b, 'h) client_env) \<Rightarrow> nat \<Rightarrow> nat \<Rightarrow> ('b, 'h) client \<Rightarrow>
   (('b, 'h) client, bool) outcome" where
  "connect_loop B E i 0 c = Returned False c"
| "connect_loop B E i (Suc n) c =
     (case (if i \<noteq> 0 then wait_destruction (E i) c else (True, c)) of
        (destructed, c1) \<Rightarrow>
          if \<not> destructed then Thrown Deadlock_timeout c1
          else bind_outcome (construct_session B (E i) c1)
            (\<lambda>ok c2. if ok then Returned True c2 else connect_loop B E (Suc i) n c2))"

definition client_connect_attempts ::
  "'b flat_buffer \<Rightarrow> (nat \<Rightarrow> ('b, 'h) client_env) \<Rightarrow> u32 \<Rightarrow> ('b, 'h) client \<Rightarrow>
   (('b, 'h) client, bool) outcome" where
  "client_connect_attempts B E attempts c =
     (if ci_exit c then Returned False c else connect_loop B E 0 (unat attempts) c)"

definition client_disconnect ::
  "('b, 'h) client_env \<Rightarrow> ('b, 'h) client \<Rightarrow> (('b, 'h) client, unit) outcome" where
  "client_disconnect E c =
     (if ci_exit c then Returned () c
      else
        (let c1 = (case ci_session c of
                     Some s \<Rightarrow>
                       put_session (connect_close (ce_stopped E) (ce_io_run E) (ce_executor E) s) c
                   | None \<Rightarrow> c);
             (destructed, c2) = wait_destruction E c1
         in if destructed then Returned () c2 else Thrown Deadlock_timeout c2))"

definition client_ping ::
  "'b flat_buffer \<Rightarrow> ('b, 'h) client_env \<Rightarrow> tls \<Rightarrow> ('b, 'h) client \<Rightarrow>
   (('b, 'h) client, bool \<times> tls) outcome" where
  "client_ping B E t c =
     (if ci_exit c then Returned (False, t) c
      else bind_outcome (construct_session B E c) (\<lambda>ok c1.
        if \<not> ok then Returned (False, t) c1
        else case ci_session c1 of
          None \<Rightarrow> Returned (False, t) c1
        | Some s \<Rightarrow>
            (case client_session_ping (ce_between E) (ce_response E) t (sn_session s) of
               (pong, t1, s1) \<Rightarrow> Returned (pong, t1) (put_session (s\<lparr>sn_session := s1\<rparr>) c1))))"

text \<open>
  The loop \<^verbatim>\<open>send\<close> and \<^verbatim>\<open>send_recv\<close> have in common, from attempt \<open>i\<close> on: \<open>op\<close> is the call
  on the session, which may change the result \<open>r\<close>. The outcome tells whether the loop ended with
  success, and the result.
\<close>

fun attempt_loop ::
  "'b flat_buffer \<Rightarrow> (nat \<Rightarrow> ('b, 'h) client_env) \<Rightarrow>
   (('b, 'h) client_env \<Rightarrow> 'r \<Rightarrow> tls \<Rightarrow> 'b client_session \<Rightarrow> error_code \<times> 'r \<times> tls \<times> 'b client_session) \<Rightarrow>
   nat \<Rightarrow> nat \<Rightarrow> 'r \<Rightarrow> tls \<Rightarrow> ('b, 'h) client \<Rightarrow> (('b, 'h) client, bool \<times> 'r \<times> tls) outcome" where
  "attempt_loop B E op i 0 r t c = Returned (False, r, t) c"
| "attempt_loop B E op i (Suc n) r t c =
     (let c0 = ce_before (E i) c
      in if ci_exit c0 then Returned (False, r, t) c0
         else case (case ci_session c0 of
                      Some s \<Rightarrow>
                        (case op (E i) r t (sn_session s) of
                           (ec, r1, t1, s1) \<Rightarrow>
                             (ec, False, r1, t1, put_session (s\<lparr>sn_session := s1\<rparr>) c0))
                    | None \<Rightarrow> (No_error, True, r, t, c0)) of
                (ec, expired, r1, t1, c1) \<Rightarrow>
                  bind_outcome (if failed ec then client_disconnect (E i) (ce_after (E i) c1)
                     else Returned () (ce_after (E i) c1)) (\<lambda>_ c2.
                  bind_outcome (if expired then client_connect B (E i) c2 else Returned True c2) (\<lambda>_ c3.
                    if \<not> failed ec \<and> \<not> expired then Returned (True, r1, t1) c3
                    else attempt_loop B E op (Suc i) n r1 t1 c3)))"

definition send_op ::
  "u32 \<Rightarrow> u64 \<Rightarrow> u64 \<Rightarrow> ('b, 'h) client_env \<Rightarrow> unit \<Rightarrow> tls \<Rightarrow> 'b client_session \<Rightarrow>
   error_code \<times> unit \<times> tls \<times> 'b client_session" where
  "send_op p_call_id data_ptr data_size E r t s =
     (case client_session_send (ce_io E) p_call_id data_ptr data_size t s of (ec, t1, s1) \<Rightarrow> (ec, (), t1, s1))"

definition recv_op ::
  "'b flat_buffer \<Rightarrow> u32 \<Rightarrow> u64 \<Rightarrow> u64 \<Rightarrow> ('b, 'h) client_env \<Rightarrow> 'b \<Rightarrow> tls \<Rightarrow> 'b client_session \<Rightarrow>
   error_code \<times> 'b \<times> tls \<times> 'b client_session" where
  "recv_op B p_call_id data_ptr data_size E r t s =
     client_session_send_recv B (ce_now E) (ce_io E) (ce_response E) p_call_id data_ptr data_size r t s"

definition client_send ::
  "'b flat_buffer \<Rightarrow> (nat \<Rightarrow> ('b, 'h) client_env) \<Rightarrow> u32 \<Rightarrow> u64 \<Rightarrow> u64 \<Rightarrow> tls \<Rightarrow> ('b, 'h) client \<Rightarrow>
   (('b, 'h) client, bool \<times> tls) outcome" where
  "client_send B E p_call_id data_ptr data_size t c =
     bind_outcome
       (attempt_loop B E (send_op p_call_id data_ptr data_size) 0
          (unat (cc_send_attempts (ci_client_cfg c))) () t c)
       (\<lambda>(ok, r, t1). Returned (ok, t1))"

definition client_send_recv ::
  "'b flat_buffer \<Rightarrow> (nat \<Rightarrow> ('b, 'h) client_env) \<Rightarrow> u32 \<Rightarrow> u64 \<Rightarrow> u64 \<Rightarrow> tls \<Rightarrow> ('b, 'h) client \<Rightarrow>
   (('b, 'h) client, 'b \<times> tls) outcome" where
  "client_send_recv B E p_call_id data_ptr data_size t c =
     bind_outcome
       (attempt_loop B E (recv_op B p_call_id data_ptr data_size) 0
          (unat (cc_send_attempts (ci_client_cfg c))) (fb_new B) t c)
       (\<lambda>(ok, r, t1). Returned (r, t1))"

definition set_handshake_request :: "'h \<Rightarrow> ('b, 'h) client \<Rightarrow> ('b, 'h) client" where
  "set_handshake_request req_handshake c =
     (if ci_exit c then c else c\<lparr>ci_req_handshake := req_handshake\<rparr>)"

text \<open>
  The member \<^verbatim>\<open>res_handshake\<close> of a session is written by the library's handshake: it is a
  parameter here.
\<close>

definition get_handshake_response ::
  "'h http_fields \<Rightarrow> (('b, 'h) session_connect \<Rightarrow> 'h) \<Rightarrow> ('b, 'h) client \<Rightarrow> 'h" where
  "get_handshake_response H res_handshake c =
     (if ci_exit c then hd_new H
      else case ci_session c of Some s \<Rightarrow> res_handshake s | None \<Rightarrow> hd_new H)"

definition set_send_timeout :: "duration \<Rightarrow> tls \<Rightarrow> tls" where
  "set_send_timeout timeout t = snd (send_timeout timeout t)"

definition set_response_timeout :: "duration \<Rightarrow> tls \<Rightarrow> tls" where
  "set_response_timeout timeout t = snd (response_timeout timeout t)"

section \<open>Invariant\<close>

text \<open>
  A session is held by an operation in progress and has a thread to run it; without one the client is marked as
  expired, or the deleter of the last session has not come to its end. A client never has zero attempts.
\<close>

definition client_wf :: "('b, 'h) client \<Rightarrow> bool" where
  "client_wf c \<longleftrightarrow>
     (case ci_session c of None \<Rightarrow> ci_expired c \<longleftrightarrow> \<not> ci_deleting c
      | Some s \<Rightarrow> \<not> ci_expired c \<and> \<not> ci_deleting c \<and> session_held s \<and> ci_io_worker c) \<and>
     cc_send_attempts (ci_client_cfg c) \<noteq> 0"

fun outcome_all :: "('s \<Rightarrow> bool) \<Rightarrow> ('s, 'a) outcome \<Rightarrow> bool" where
  "outcome_all P Blocked = True"
| "outcome_all P (Thrown er s) = P s"
| "outcome_all P (Returned a s) = P s"

definition env_wf :: "('b, 'h) client_env \<Rightarrow> bool" where
  "env_wf E \<longleftrightarrow> (\<forall>c. client_wf c \<longrightarrow> client_wf (ce_destroy E c) \<and> client_wf (ce_before E c) \<and>
     client_wf (ce_after E c))"

lemma outcome_all_bind:
  "outcome_all P m \<Longrightarrow> (\<And>a s. P s \<Longrightarrow> outcome_all Q (f a s)) \<Longrightarrow> (\<And>s. P s \<Longrightarrow> Q s) \<Longrightarrow>
   outcome_all Q (bind_outcome m f)"
  by (cases m) auto

lemma client_wf_keep:
  "cc_send_attempts (ci_client_cfg c) \<noteq> 0 \<Longrightarrow> ci_io_worker c \<Longrightarrow> \<not> ci_expired c \<Longrightarrow> \<not> ci_deleting c \<Longrightarrow>
   client_wf (keep_session s c)"
  by (simp add: client_wf_def keep_session_def release_session_def)

lemma client_wf_deleted: "client_wf c \<Longrightarrow> ci_deleting c \<Longrightarrow> client_wf (on_session_delete c)"
  by (auto simp: client_wf_def on_session_delete_def split: option.splits)

lemma client_wf_put:
  "cc_send_attempts (ci_client_cfg c) \<noteq> 0 \<Longrightarrow> ci_io_worker c \<Longrightarrow> \<not> ci_expired c \<Longrightarrow> \<not> ci_deleting c \<Longrightarrow>
   client_wf (put_session s c)"
  by (simp add: client_wf_def put_session_def on_session_delete_def release_session_def)

lemma client_wf_keep_some: "client_wf c \<Longrightarrow> ci_session c = Some s \<Longrightarrow> client_wf (keep_session s' c)"
  by (rule client_wf_keep) (simp_all add: client_wf_def)

lemma client_wf_io: "client_io c c' \<Longrightarrow> client_wf c \<Longrightarrow> client_wf c'"
  by (induction rule: client_io.induct) (auto intro: client_wf_keep_some client_wf_deleted)

lemma rtranclp_inv: "R\<^sup>*\<^sup>* x y \<Longrightarrow> P x \<Longrightarrow> (\<And>x y. R x y \<Longrightarrow> P x \<Longrightarrow> P y) \<Longrightarrow> P y"
  by (induction rule: rtranclp_induct) auto

lemma client_wf_put_some: "client_wf c \<Longrightarrow> ci_session c = Some s \<Longrightarrow> client_wf (put_session s' c)"
  by (rule client_wf_put) (simp_all add: client_wf_def)

lemma client_wf_construct: "client_wf c \<Longrightarrow> outcome_all client_wf (construct_session B E c)"
  by (auto simp: construct_session_def Let_def client_wf_def [of c] intro!: client_wf_put split: option.splits)

lemma client_wf_destruction: "client_wf c \<Longrightarrow> env_wf E \<Longrightarrow> client_wf (snd (wait_destruction E c))"
  by (simp add: wait_destruction_def Let_def env_wf_def)

lemma client_wf_connect: "client_wf c \<Longrightarrow> outcome_all client_wf (client_connect B E c)"
  by (simp add: client_connect_def client_wf_construct)

lemma client_wf_close: "client_wf c \<Longrightarrow>
   client_wf (case ci_session c of Some s \<Rightarrow> put_session (f s) c | None \<Rightarrow> c)"
  by (auto intro: client_wf_put_some split: option.split)

lemma client_wf_disconnect:
  "client_wf c \<Longrightarrow> env_wf E \<Longrightarrow> outcome_all client_wf (client_disconnect E c)"
  using client_wf_destruction [OF client_wf_close, of c E]
  by (auto simp: client_disconnect_def Let_def split_def)

lemma client_wf_connect_loop:
  "client_wf c \<Longrightarrow> (\<And>i. env_wf (E i)) \<Longrightarrow> outcome_all client_wf (connect_loop B E i n c)"
proof (induction n arbitrary: i c)
  case (Suc n)
  let ?d = "if i \<noteq> 0 then wait_destruction (E i) c else (True, c)"
  have "client_wf (snd ?d)" using client_wf_destruction [OF Suc.prems(1)] Suc.prems by auto
  then show ?case
    using Suc.IH Suc.prems(2) by (auto simp: split_def intro!: outcome_all_bind [OF client_wf_construct])
qed simp

lemma client_wf_ping: "client_wf c \<Longrightarrow> outcome_all client_wf (client_ping B E t c)"
  by (auto simp: client_ping_def intro!: outcome_all_bind [OF client_wf_construct] client_wf_put_some
      split: option.split prod.split)

lemma client_wf_attempt_loop:
  "client_wf c \<Longrightarrow> (\<And>i. env_wf (E i)) \<Longrightarrow> outcome_all client_wf (attempt_loop B E op i n r t c)"
proof (induction n arbitrary: i r t c)
  case (Suc n)
  let ?c = "ce_before (E i) c"
  have c0: "client_wf ?c" using Suc.prems by (simp add: env_wf_def)
  have after: "client_wf d \<Longrightarrow> client_wf (ce_after (E i) d)" for d
    using Suc.prems(2) [of i] by (simp add: env_wf_def)
  have put: "client_wf (put_session s' ?c)" if "ci_session ?c = Some s" for s s'
    using client_wf_put_some [OF c0 that] .
  show ?case
    using c0 Suc.IH [OF _ Suc.prems(2)]
    by (auto simp: Let_def split_def split: option.split
        intro!: outcome_all_bind [OF client_wf_connect] after put
          outcome_all_bind [OF client_wf_disconnect [OF _ Suc.prems(2)]])
qed simp

section \<open>Sequences of calls\<close>

text \<open>
  The calls a program makes, each with what happens while it waits, what the io thread does to
  the session between them, and the end of a deleter of the io thread.
\<close>

datatype ('b, 'h) client_call =
    Cl_connect "('b, 'h) client_env"
  | Cl_connect_attempts "nat \<Rightarrow> ('b, 'h) client_env" u32
  | Cl_disconnect "('b, 'h) client_env"
  | Cl_ping "('b, 'h) client_env" tls
  | Cl_send "nat \<Rightarrow> ('b, 'h) client_env" u32 u64 u64 tls
  | Cl_send_recv "nat \<Rightarrow> ('b, 'h) client_env" u32 u64 u64 tls
  | Cl_listen u32 "('b \<Rightarrow> 'b) option"
  | Cl_set_handshake 'h
  | Cl_io "('b, 'h) session_connect \<Rightarrow> ('b, 'h) session_connect"
  | Cl_deleted

fun outcome_state :: "('s, 'a) outcome \<Rightarrow> 's option" where
  "outcome_state Blocked = None"
| "outcome_state (Thrown er s) = Some s"
| "outcome_state (Returned a s) = Some s"

text \<open>The environments of a call, one for each attempt.\<close>

fun call_envs :: "('b, 'h) client_call \<Rightarrow> ('b, 'h) client_env set" where
  "call_envs (Cl_connect E) = {E}"
| "call_envs (Cl_connect_attempts E n) = range E"
| "call_envs (Cl_disconnect E) = {E}"
| "call_envs (Cl_ping E t) = {E}"
| "call_envs (Cl_send E c d n t) = range E"
| "call_envs (Cl_send_recv E c d n t) = range E"
| "call_envs _ = {}"

fun call_exec :: "'b flat_buffer \<Rightarrow> ('b, 'h) client_call \<Rightarrow> ('b, 'h) client \<Rightarrow> ('b, 'h) client option" where
  "call_exec B (Cl_connect E) c = outcome_state (client_connect B E c)"
| "call_exec B (Cl_connect_attempts E n) c = outcome_state (client_connect_attempts B E n c)"
| "call_exec B (Cl_disconnect E) c = outcome_state (client_disconnect E c)"
| "call_exec B (Cl_ping E t) c = outcome_state (client_ping B E t c)"
| "call_exec B (Cl_send E k d n t) c = outcome_state (client_send B E k d n t c)"
| "call_exec B (Cl_send_recv E k d n t) c = outcome_state (client_send_recv B E k d n t c)"
| "call_exec B (Cl_listen k h) c = outcome_state (listen_broadcast k h c)"
| "call_exec B (Cl_set_handshake h) c = Some (set_handshake_request h c)"
| "call_exec B (Cl_io f) c =
     Some (case ci_session c of Some s \<Rightarrow> keep_session (f s) c | None \<Rightarrow> c)"
| "call_exec B Cl_deleted c = (if ci_deleting c then Some (on_session_delete c) else None)"

text \<open>
  A call comes back from its waits into a state that the other threads have made: by whole calls of their own and
  by the io thread when the call holds no lock (\<open>ce_before\<close>, \<open>ce_after\<close>), by the io thread alone while it holds the
  lock and waits for the destruction (\<open>ce_destroy\<close>).
\<close>

inductive call_step ::
  "'b flat_buffer \<Rightarrow> ('b, 'h) client \<Rightarrow> ('b, 'h) client_call \<Rightarrow> ('b, 'h) client \<Rightarrow> bool"
  for B :: "'b flat_buffer"
where
  call_stepI: "\<forall>E \<in> call_envs call. \<forall>d. client_io\<^sup>*\<^sup>* d (ce_destroy E d) \<and>
      (\<lambda>x y. \<exists>k. call_step B x k y)\<^sup>*\<^sup>* d (ce_before E d) \<and> (\<lambda>x y. \<exists>k. call_step B x k y)\<^sup>*\<^sup>* d (ce_after E d) \<Longrightarrow>
    call_exec B call c = Some c' \<Longrightarrow> call_step B c call c'"

inductive_cases call_stepE: "call_step B c call c'"

definition client_start :: "('b, 'h) client \<Rightarrow> bool" where
  "client_start c \<longleftrightarrow> (\<exists>H ssl cfg ct. c = client_new H ssl cfg ct)"

lemma outcome_stateD: "outcome_all P m \<Longrightarrow> outcome_state m = Some s \<Longrightarrow> P s"
  by (cases m) auto

lemma max_one_word [simp]: "max w (1 :: u32) \<noteq> 0"
  using max.cobounded2 [of "1 :: u32" w] by fastforce

lemma client_wf_frame [simp]:
  "client_wf (c\<lparr>ci_bound_funcs := f\<rparr>) = client_wf c" "client_wf (c\<lparr>ci_req_handshake := h\<rparr>) = client_wf c"
  by (auto simp: client_wf_def split: option.split)

lemma client_wf_send:
  assumes "client_wf c" and "\<And>i. env_wf (E i)"
  shows "outcome_all client_wf (client_send B E k d n t c)"
    and "outcome_all client_wf (client_send_recv B E k d n t c)"
  by (auto simp: client_send_def client_send_recv_def assms
      intro!: outcome_all_bind [OF client_wf_attempt_loop])

lemma client_wf_call:
  assumes "client_wf c" and "\<forall>E \<in> call_envs call. env_wf E" and "call_exec B call c = Some c'"
  shows "client_wf c'"
proof (cases call)
  case (Cl_connect E)
  with assms show ?thesis using outcome_stateD [OF client_wf_connect] by auto
next
  case (Cl_connect_attempts E n)
  with assms have "outcome_all client_wf (client_connect_attempts B E n c)"
    by (simp add: client_connect_attempts_def client_wf_connect_loop)
  with assms Cl_connect_attempts show ?thesis using outcome_stateD by auto
next
  case (Cl_disconnect E)
  with assms show ?thesis using outcome_stateD [OF client_wf_disconnect] by auto
next
  case (Cl_ping E t)
  with assms show ?thesis using outcome_stateD [OF client_wf_ping] by auto
next
  case (Cl_send E k d n t)
  with assms show ?thesis using outcome_stateD [OF client_wf_send(1) [of c E B k d n t], of c'] by simp
next
  case (Cl_send_recv E k d n t)
  with assms show ?thesis using outcome_stateD [OF client_wf_send(2) [of c E B k d n t], of c'] by simp
next
  case (Cl_listen k h)
  with assms show ?thesis by (auto simp: listen_broadcast_def split: if_splits option.splits)
next
  case (Cl_set_handshake h)
  with assms show ?thesis by (auto simp: set_handshake_request_def)
next
  case (Cl_io f)
  with assms show ?thesis by (auto intro: client_wf_keep_some split: option.splits)
next
  case Cl_deleted
  with assms show ?thesis by (auto intro: client_wf_deleted split: if_splits)
qed

lemma call_step_wf: "call_step B c call c' \<Longrightarrow> client_wf c \<Longrightarrow> client_wf c'"
proof (induction rule: call_step.induct)
  case (call_stepI call c c')
  have other: "client_wf d'" if "(\<lambda>x y. \<exists>k. call_step B x k y \<and> (client_wf x \<longrightarrow> client_wf y))\<^sup>*\<^sup>* d d'" "client_wf d" for d d'
    using that by (rule rtranclp_inv) auto
  have io: "client_wf d'" if "client_io\<^sup>*\<^sup>* d d'" "client_wf d" for d d'
    using that by (rule rtranclp_inv) (auto intro: client_wf_io)
  have "\<forall>E \<in> call_envs call. env_wf E"
    unfolding env_wf_def using call_stepI.IH io other by blast
  with call_stepI.prems show ?case using call_stepI.hyps by (rule client_wf_call)
qed

interpretation client_calls: invariant_system client_start "call_step B" client_wf
proof unfold_locales
  show "client_start c \<Longrightarrow> client_wf c" for c :: "('a, 'b) client"
    by (auto simp: client_start_def client_new_def client_wf_def)
  show "client_wf c \<Longrightarrow> call_step B c call c' \<Longrightarrow> client_wf c'" for c c' :: "('a, 'b) client" and call
    by (rule call_step_wf)
qed

section \<open>Properties\<close>

definition idle_env :: "('b, 'h) client_env" where
  "idle_env = \<lparr>ce_now = 0, ce_run = (\<lambda>s. s), ce_io = (\<lambda>_ s. s), ce_response = (\<lambda>_ s. s),
     ce_between = (\<lambda>s. s), ce_stopped = False, ce_io_run = (\<lambda>s. s), ce_executor = (\<lambda>h. h), ce_joined = True,
     ce_destroy = (\<lambda>c. c), ce_before = (\<lambda>c. c), ce_after = (\<lambda>c. c)\<rparr>"

text \<open>An environment in which a connection attempt ends with the given results.\<close>

definition drive_env :: "error_code list \<Rightarrow> ('b, 'h) client_env" where
  "drive_env ecs = idle_env\<lparr>ce_run := drive ecs\<rparr>"

lemma drive_env_sel [simp]:
  "ce_run (drive_env ecs) = drive ecs" "ce_destroy (drive_env ecs) c = c" "ce_before (drive_env ecs) c = c"
  "ce_after (drive_env ecs) c = c" "ce_joined (drive_env ecs)"
  by (simp_all add: drive_env_def idle_env_def)

abbreviation demo_client :: "u32 \<Rightarrow> (u8 list, (string \<times> string) list) client" where
  "demo_client n \<equiv> client_new list_http False (client_config_default\<lparr>cc_send_attempts := n\<rparr>) client_timeout_default"

lemma demo_client_sel:
  "ci_expired (demo_client n)" "ci_session (demo_client n) = None" "\<not> ci_exit (demo_client n)"
  "\<not> ci_ssl (demo_client n)" "ci_bound_funcs (demo_client n) = []"
  "cc_send_attempts (ci_client_cfg (demo_client n)) = max n 1" "\<not> ci_deleting (demo_client n)"
  by (simp_all add: client_new_def)

lemma demo_client_reachable: "reachable client_start (call_step B) (demo_client n)"
  by (rule reachable.reach_init) (auto simp: client_start_def)

text \<open>C24: in every state that calls, returned or thrown, and other threads leave, also while the deleter of a
  session runs, the client is consistent: a session it has is kept alive by an operation in progress and has a
  thread to run it, and the client is not marked as expired; without a session the client is marked as expired exactly
  when the deleter of the last one has come to its end, so marked it has no session; and at least one attempt is
  configured.\<close>

theorem client_session_phases:
  assumes "reachable client_start (call_step B) c"
  shows "(\<forall>s. ci_session c = Some s \<longrightarrow> \<not> ci_expired c \<and> \<not> ci_deleting c \<and> session_held s \<and> ci_io_worker c) \<and>
    (ci_session c = None \<longrightarrow> (ci_expired c \<longleftrightarrow> \<not> ci_deleting c)) \<and> cc_send_attempts (ci_client_cfg c) \<noteq> 0"
  using client_calls.reachable_inv [OF assms] by (auto simp: client_wf_def split: option.splits)

subsection \<open>Connecting\<close>

definition connects :: "bool \<Rightarrow> error_code list \<Rightarrow> bool" where
  "connects ssl ecs \<longleftrightarrow> list_all (\<lambda>ec. \<not> failed ec) (take (if ssl then 4 else 3) ecs)"

lemma drive_result:
  assumes "\<not> run_refused s" and "sn_ops s = []" and "length ecs = 4" and "cs_stream (sn_session s) = stream_new"
  shows "\<exists>s'. connect_run (drive ecs) s = Some (sn_state s', s') \<and>
     (sn_state s' = Conn_established \<longleftrightarrow> connects (sn_ssl s) ecs) \<and>
     (session_held s' \<longleftrightarrow> connects (sn_ssl s) ecs) \<and>
     (connects (sn_ssl s) ecs \<longrightarrow> sn_session s' = client_read (sn_session s) \<and> sn_ops s' = [])"
proof -
  obtain e1 e2 e3 e4 where ecs: "ecs = [e1, e2, e3, e4]"
    using assms(3) by (auto simp: length_Suc_conv numeral_eq_Suc)
  have st: "sn_state s = Conn_none" using assms(1) by (simp add: run_refused_def)
  let ?s = "drive ecs (run_start s)" and ?ok = "connects (sn_ssl s) ecs"
  note evals = ecs connects_def connect_run_def run_start_def connect_done_def connect_defs Let_def session_held_def
  consider "failed e1" | "\<not> failed e1" "failed e2"
    | "\<not> failed e1" "\<not> failed e2" "failed e3" | "\<not> failed e1" "\<not> failed e2" "\<not> failed e3"
    by blast
  then have "sn_run_callback ?s \<noteq> None \<and> (sn_state ?s = Conn_established \<longleftrightarrow> ?ok) \<and> (session_held ?s \<longleftrightarrow> ?ok) \<and>
      (?ok \<longrightarrow> sn_session ?s = client_read (sn_session s) \<and> sn_ops ?s = [])"
  proof cases
    case 4
    with assms(2,4) st show ?thesis
      by (cases "sn_ssl s"; cases "failed e4") (simp_all add: evals, simp_all add: client_read_def)
  qed (use assms(2,4) st in \<open>cases "sn_ssl s"; simp add: evals\<close>)+
  moreover from this have "connect_run (drive ecs) s = Some (sn_state ?s, ?s)"
    using assms(1) by (simp add: connect_run_def Let_def)
  ultimately show ?thesis by (intro exI [of _ ?s]) simp
qed

lemma construct_drive:
  assumes "ci_expired c" and "length ecs = 4" and E: "ce_run E = drive ecs" "ce_joined E"
  shows "\<exists>c'. construct_session B E c = Returned (connects (ci_ssl c) ecs) c' \<and>
     (ci_expired c' \<longleftrightarrow> \<not> connects (ci_ssl c) ecs) \<and> (ci_session c' = None \<longleftrightarrow> \<not> connects (ci_ssl c) ecs) \<and>
     ci_ssl c' = ci_ssl c \<and> ci_exit c' = ci_exit c \<and>
     (\<forall>sn. ci_session c' = Some sn \<longrightarrow> client_connected B (sn_session sn) \<and> sn_ops sn = [])"
proof -
  let ?s = "session_connect_new B (ci_ssl c) (ci_client_cfg c) (ci_client_timeout c)
      (ci_handshake_timeout c) (ci_req_handshake c)"
  have "\<not> run_refused ?s" "sn_ops ?s = []" "cs_stream (sn_session ?s) = stream_new" "sn_ssl ?s = ci_ssl c"
      "client_connected B (client_read (sn_session ?s))"
    by (auto simp: session_connect_new_def run_refused_def client_session_new_def client_connected_def)
  from drive_result [OF this(1,2) assms(2) this(3)] this(4,5) show ?thesis
    using assms(1) E
    by (auto simp: construct_session_def Let_def put_session_def on_session_delete_def release_session_def)
qed

text \<open>
  A client connects, then its read fails and the close that follows completes: the io thread is inside the deleter.
\<close>

theorem client_session_phases_witness:
  "\<exists>c :: (u8 list, (string \<times> string) list) client. reachable client_start (call_step byte_buffer) c \<and>
     ci_session c = None \<and> \<not> ci_expired c \<and> ci_deleting c"
proof -
  let ?E = "drive_env (replicate 4 No_error) :: (u8 list, (string \<times> string) list) client_env"
  let ?f = "\<lambda>s :: (u8 list, (string \<times> string) list) session_connect.
    s\<lparr>sn_session := client_run byte_buffer Little [Ev_read Map.empty 0 Timed_out [], Ev_closed No_error] (sn_session s)\<rparr>"
  have "connects False (replicate 4 No_error)" by (simp add: connects_def list_all_iff)
  with construct_drive [of "demo_client 1" "replicate 4 No_error" ?E byte_buffer] obtain c1 where
    c: "construct_session byte_buffer ?E (demo_client 1) = Returned True c1" "\<not> ci_expired c1" "ci_session c1 \<noteq> None"
      "\<forall>sn. ci_session c1 = Some sn \<longrightarrow> client_connected byte_buffer (sn_session sn) \<and> sn_ops sn = []"
    by (auto simp: demo_client_sel)
  then obtain sn where sn: "ci_session c1 = Some sn" "client_connected byte_buffer (sn_session sn)" "sn_ops sn = []" by blast
  then have held: "\<not> session_held (?f sn)"
    by (auto simp: client_connected_def session_held_def client_eval client_on_read_def)
  have c1: "call_exec byte_buffer (Cl_connect ?E) (demo_client 1) = Some c1"
    using c(1) by (simp add: client_connect_def demo_client_sel)
  have "call_step byte_buffer (demo_client 1) (Cl_connect ?E) c1" using c1 by (intro call_stepI) simp_all
  then have 1: "reachable client_start (call_step byte_buffer) c1" by (rule reach_step [OF demo_client_reachable])
  have "call_step byte_buffer c1 (Cl_io ?f) (release_session c1)"
    using sn(1) held by (intro call_stepI) (simp_all add: keep_session_def)
  with 1 have 2: "reachable client_start (call_step byte_buffer) (release_session c1)" by (rule reach_step)
  moreover have "ci_session (release_session c1) = None" "\<not> ci_expired (release_session c1)"
    using c(2) by (simp_all add: release_session_def)
  ultimately show ?thesis using client_session_phases [OF 2] by blast
qed

text \<open>
  While the deleter of the io thread runs, \<^verbatim>\<open>connect\<close> answers that the client is connected, and it has
  no session: \<^verbatim>\<open>construct_session\<close> only asks whether \<^verbatim>\<open>m_expired\<close> is set.
\<close>

theorem connect_while_deleting:
  assumes "client_wf c" and "ci_deleting c" and "\<not> ci_exit c"
  shows "client_connect B E c = Returned True c \<and> ci_session c = None"
  using assms by (auto simp: client_wf_def client_connect_def construct_session_def split: option.splits)

lemma upt_first: "[i..<i + Suc k] = i # [Suc i..<Suc i + k]"
  by (simp add: upt_conv_Cons del: upt_Suc)

lemma connect_loop_result:
  assumes "ci_expired c" and E: "\<And>i. ce_run (E i) = drive (ecs i)" "\<And>i. length (ecs i) = 4" "\<And>i. ce_joined (E i)"
  shows "\<exists>c'. connect_loop B E i k c = Returned (list_ex (\<lambda>j. connects (ci_ssl c) (ecs j)) [i..<i + k]) c' \<and>
      (ci_expired c' \<longleftrightarrow> \<not> list_ex (\<lambda>j. connects (ci_ssl c) (ecs j)) [i..<i + k]) \<and>
      (k \<noteq> 0 \<longrightarrow> (ci_session c' = None \<longleftrightarrow> ci_expired c')) \<and> (k = 0 \<longrightarrow> c' = c)"
  using assms(1)
proof (induction k arbitrary: i c)
  case (Suc k)
  obtain c1 where c1: "construct_session B (E i) c = Returned (connects (ci_ssl c) (ecs i)) c1"
      "ci_expired c1 \<longleftrightarrow> \<not> connects (ci_ssl c) (ecs i)" "ci_session c1 = None \<longleftrightarrow> \<not> connects (ci_ssl c) (ecs i)"
      "ci_ssl c1 = ci_ssl c"
    using construct_drive [OF Suc.prems E(2) [of i] E(1) [of i] E(3) [of i], of B] by (elim exE conjE) (rule that)
  have loop: "connect_loop B E i (Suc k) c = (if connects (ci_ssl c) (ecs i) then Returned True c1
      else connect_loop B E (Suc i) k c1)"
    using Suc.prems c1(1) by (cases "i = 0") (simp_all add: wait_destruction_def)
  show ?case
  proof (cases "connects (ci_ssl c) (ecs i)")
    case True
    with c1(2,3) show ?thesis unfolding upt_first loop by simp
  next
    case False
    with c1 have exp: "ci_expired c1" "ci_session c1 = None" by simp_all
    from Suc.IH [OF exp(1), of "Suc i"] obtain c' where
      "connect_loop B E (Suc i) k c1 = Returned (list_ex (\<lambda>j. connects (ci_ssl c) (ecs j)) [Suc i..<Suc i + k]) c'"
      "ci_expired c' \<longleftrightarrow> \<not> list_ex (\<lambda>j. connects (ci_ssl c) (ecs j)) [Suc i..<Suc i + k]"
      "k \<noteq> 0 \<longrightarrow> (ci_session c' = None \<longleftrightarrow> ci_expired c')" "k = 0 \<longrightarrow> c' = c1"
      unfolding c1(4) by (elim exE conjE) (rule that)
    with False exp show ?thesis
      unfolding upt_first loop by (cases "k = 0") (simp_all del: upt_Suc)
  qed
qed simp

text \<open>C25: \<^verbatim>\<open>connect(attempts, delay)\<close> of a client without a session tries up to the given number of
  times and answers true exactly when one of the attempts completes all its operations without an
  error; then there is a session, and when every attempt fails there is none and the client is free to
  connect again.\<close>

theorem connect_attempts_result:
  assumes "ci_expired c" and "ci_session c = None" and "\<not> ci_exit c"
    and E: "\<forall>i. ce_run (E i) = drive (ecs i) \<and> length (ecs i) = 4 \<and> ce_joined (E i)"
  shows "\<exists>c'. client_connect_attempts B E n c = Returned (\<exists>i < unat n. connects (ci_ssl c) (ecs i)) c' \<and>
    (ci_session c' = None \<longleftrightarrow> ci_expired c') \<and>
    (ci_expired c' \<longleftrightarrow> (\<forall>i < unat n. \<not> connects (ci_ssl c) (ecs i)))"
proof -
  have "list_ex (\<lambda>j. connects (ci_ssl c) (ecs j)) [0..<0 + unat n] \<longleftrightarrow> (\<exists>i < unat n. connects (ci_ssl c) (ecs i))"
    by (auto simp: list_ex_iff)
  with connect_loop_result [of c E ecs B 0 "unat n"] assms show ?thesis
    by (cases "unat n = 0") (auto simp: client_connect_attempts_def)
qed

theorem connect_attempts_result_witness:
  "\<exists>c'. client_connect_attempts byte_buffer (\<lambda>i. drive_env (replicate 4 (if i = 0 then Timed_out else No_error)))
     2 (demo_client 1) = Returned True c' \<and> ci_session c' \<noteq> None"
proof -
  let ?ecs = "\<lambda>i :: nat. replicate 4 (if i = 0 then Timed_out else No_error)"
  have "\<exists>i < unat (2 :: u32). connects (ci_ssl (demo_client 1)) (?ecs i)"
    by (rule exI [of _ 1]) (simp add: connects_def list_all_iff)
  then have ok: "(\<exists>i < unat (2 :: u32). connects (ci_ssl (demo_client 1)) (?ecs i)) = True"
      "(\<forall>i < unat (2 :: u32). \<not> connects (ci_ssl (demo_client 1)) (?ecs i)) = False" by blast+
  from connect_attempts_result [of "demo_client 1" "\<lambda>i. drive_env (?ecs i)" ?ecs byte_buffer 2]
  show ?thesis unfolding ok by (auto simp: demo_client_sel simp del: unat_numeral)
qed

subsection \<open>Sending\<close>

lemma bind_Returned:
  "bind_outcome m f = Returned x s \<longleftrightarrow> (\<exists>a s1. m = Returned a s1 \<and> f a s1 = Returned x s)"
  by (cases m) auto

text \<open>One round of the loop, by what it finds: the client exits, there is no session, or there is one.\<close>

lemma attempt_loop_exit:
  "ci_exit (ce_before (E i) c) \<Longrightarrow> attempt_loop B E op i (Suc n) r t c = Returned (False, r, t) (ce_before (E i) c)"
  by (simp add: Let_def)

lemma attempt_loop_none:
  "\<not> ci_exit (ce_before (E i) c) \<Longrightarrow> ci_session (ce_before (E i) c) = None \<Longrightarrow>
   attempt_loop B E op i (Suc n) r t c =
     bind_outcome (client_connect B (E i) (ce_after (E i) (ce_before (E i) c))) (\<lambda>_ c3. attempt_loop B E op (Suc i) n r t c3)"
  by (simp add: Let_def)

lemma attempt_loop_some:
  "\<not> ci_exit (ce_before (E i) c) \<Longrightarrow> ci_session (ce_before (E i) c) = Some s \<Longrightarrow>
   op (E i) r t (sn_session s) = (ec, r1, t1, s1) \<Longrightarrow>
   attempt_loop B E op i (Suc n) r t c =
     (let c1 = ce_after (E i) (put_session (s\<lparr>sn_session := s1\<rparr>) (ce_before (E i) c))
      in if failed ec
         then bind_outcome (client_disconnect (E i) c1) (\<lambda>_ c2. attempt_loop B E op (Suc i) n r1 t1 c2)
         else Returned (True, r1, t1) c1)"
  by (simp add: Let_def)

text \<open>
  What the attempts of \<^verbatim>\<open>send\<close> come to, seen as a machine whose state is whether there is a session: an attempt
  that finds one hands it the message, ends the loop when there is no error and disconnects when there is one; an attempt that
  finds none only connects. \<open>ec i\<close> is the error the session reports in attempt \<open>i\<close>, \<open>res i\<close> what it does to the result
  and \<open>conn i\<close> tells whether a connection made in attempt \<open>i\<close> succeeds.
\<close>

fun attempts_spec ::
  "(nat \<Rightarrow> error_code) \<Rightarrow> (nat \<Rightarrow> 'r \<Rightarrow> 'r) \<Rightarrow> (nat \<Rightarrow> bool) \<Rightarrow> nat \<Rightarrow> nat \<Rightarrow> bool \<Rightarrow> 'r \<Rightarrow> bool \<times> bool \<times> 'r" where
  "attempts_spec ec res conn i 0 has r = (False, has, r)"
| "attempts_spec ec res conn i (Suc n) False r = attempts_spec ec res conn (Suc i) n (conn i) r"
| "attempts_spec ec res conn i (Suc n) True r =
     (if failed (ec i) then attempts_spec ec res conn (Suc i) n False (res i r) else (True, True, res i r))"

definition destroy_session :: "('b, 'h) client \<Rightarrow> ('b, 'h) client" where
  "destroy_session c = on_session_delete (release_session c)"

text \<open>
  The client is used by one thread, the io thread of a session that is awaited ends, and so does the session.
\<close>

definition attempt_env :: "('b, 'h) client_env \<Rightarrow> error_code list \<Rightarrow> bool" where
  "attempt_env E ecs \<longleftrightarrow> ce_run E = drive ecs \<and> length ecs = 4 \<and> ce_joined E \<and> ce_destroy E = destroy_session \<and>
     ce_before E = (\<lambda>c. c) \<and> ce_after E = (\<lambda>c. c)"

lemma put_session_sel [simp]:
  "ci_exit (put_session s c) = ci_exit c" "ci_ssl (put_session s c) = ci_ssl c"
  by (simp_all add: put_session_def on_session_delete_def release_session_def)

lemma put_session_expired: "\<not> ci_expired c \<Longrightarrow> ci_session (put_session s c) = None \<longleftrightarrow> ci_expired (put_session s c)"
  by (simp add: put_session_def on_session_delete_def release_session_def)

lemma disconnect_result:
  assumes E: "ce_destroy E = destroy_session" and "\<not> ci_exit c" and c: "ci_session c = None \<longleftrightarrow> ci_expired c"
  shows "\<exists>c'. client_disconnect E c = Returned () c' \<and> ci_session c' = None \<and> ci_expired c' \<and> \<not> ci_exit c' \<and>
    ci_ssl c' = ci_ssl c"
proof -
  define c1 where "c1 = (case ci_session c of None \<Rightarrow> c
    | Some s \<Rightarrow> put_session (connect_close (ce_stopped E) (ce_io_run E) (ce_executor E) s) c)"
  have c1: "ci_session c1 = None \<longleftrightarrow> ci_expired c1" "\<not> ci_exit c1" "ci_ssl c1 = ci_ssl c"
    using assms(2) c put_session_expired [of c] by (auto simp: c1_def split: option.split)
  have "client_disconnect E c = (case wait_destruction E c1 of (True, c2) \<Rightarrow> Returned () c2
    | (False, c2) \<Rightarrow> Thrown Deadlock_timeout c2)"
    using assms(2) by (simp add: client_disconnect_def Let_def c1_def split_def split: option.split bool.split)
  with c1 show ?thesis
    by (auto simp: wait_destruction_def E destroy_session_def on_session_delete_def release_session_def)
qed

lemma attempt_loop_spec:
  assumes E: "\<And>i. attempt_env (E i) (ecs i)" and Q: "\<And>s. client_connected B s \<Longrightarrow> Q s"
    and op: "\<And>i r t s. Q s \<Longrightarrow> \<exists>t1 s1. op (E i) r t s = (ec i, res i r, t1, s1)"
  shows "\<not> ci_exit c \<Longrightarrow> (ci_session c = None \<longleftrightarrow> ci_expired c) \<Longrightarrow> (\<forall>sn. ci_session c = Some sn \<longrightarrow> Q (sn_session sn)) \<Longrightarrow>
    (case attempts_spec ec res (\<lambda>i. connects (ci_ssl c) (ecs i)) i n (ci_session c \<noteq> None) r of (ok, has, r') \<Rightarrow>
       \<exists>t' c'. attempt_loop B E op i n r t c = Returned (ok, r', t') c' \<and> (\<not> ok \<longrightarrow> (ci_session c' \<noteq> None \<longleftrightarrow> has)))"
proof (induction n arbitrary: i r t c)
  case (Suc n)
  have E': "ce_run (E i) = drive (ecs i)" "length (ecs i) = 4" "ce_joined (E i)" "ce_destroy (E i) = destroy_session"
      and same: "ce_before (E i) c = c" "ce_after (E i) d = d" for d
    using E [of i] by (simp_all add: attempt_env_def)
  note start = Suc.prems
  show ?case
  proof (cases "ci_session c")
    case None
    obtain c' where c': "construct_session B (E i) c = Returned (connects (ci_ssl c) (ecs i)) c'"
        "ci_session c' = None \<longleftrightarrow> ci_expired c'" "ci_session c' \<noteq> None \<longleftrightarrow> connects (ci_ssl c) (ecs i)"
        "ci_ssl c' = ci_ssl c" "\<not> ci_exit c'" "\<forall>sn. ci_session c' = Some sn \<longrightarrow> Q (sn_session sn)"
      using construct_drive [OF start(2) [THEN iffD1, OF None] E'(2,1,3), of B] start(1) Q
      by (elim exE conjE) (drule that; simp)
    have "attempt_loop B E op i (Suc n) r t c = attempt_loop B E op (Suc i) n r t c'"
      using attempt_loop_none [of E i c B op n r t] None start c'(1) by (simp add: same client_connect_def)
    with Suc.IH [OF c'(5,2,6), of "Suc i" r t] None show ?thesis unfolding c'(3,4) by simp
  next
    case (Some s)
    then have exp: "\<not> ci_expired c" using start(2) by simp
    obtain t1 s1 where o: "op (E i) r t (sn_session s) = (ec i, res i r, t1, s1)"
      using op start(3) Some by blast
    let ?c = "put_session (s\<lparr>sn_session := s1\<rparr>) c"
    have loop: "attempt_loop B E op i (Suc n) r t c =
        (if failed (ec i) then bind_outcome (client_disconnect (E i) ?c) (\<lambda>_ c2. attempt_loop B E op (Suc i) n (res i r) t1 c2)
         else Returned (True, res i r, t1) ?c)"
      using attempt_loop_some [of E i c s op r t "ec i" "res i r" t1 s1 B n] Some o start
      by (simp add: same del: attempt_loop.simps)
    show ?thesis
    proof (cases "failed (ec i)")
      case True
      from disconnect_result [OF E'(4), of ?c] start(1) put_session_expired [OF exp] obtain c2 where
        c2: "client_disconnect (E i) ?c = Returned () c2" "ci_session c2 = None" "ci_expired c2" "\<not> ci_exit c2"
        "ci_ssl c2 = ci_ssl c" by auto
      with Suc.IH [of c2 "Suc i" "res i r" t1] True Some show ?thesis unfolding loop by simp
    next
      case False
      then show ?thesis unfolding loop by (simp add: Some)
    qed
  qed
qed auto

text \<open>C26: \<^verbatim>\<open>send\<close> and \<^verbatim>\<open>send_recv\<close> come back after at most the configured number of attempts, with the answer the
  attempts add up to. From a client used by one thread, the attempts run as the machine above: an attempt that has a session
  and no error ends the call with success (and with the buffer the session has filled in), one with an error
  disconnects, and one without a session connects and does not send; when the attempts are used up the answer is
  false, and there is a session exactly when the last attempt was a successful connect. \<open>ec\<close> and \<open>ec'\<close> are the errors that
  the session reports in the attempts of the two functions.\<close>

theorem sends_by_attempts:
  fixes B :: "'b flat_buffer" and c :: "('b, 'h) client"
  assumes E: "\<forall>i. attempt_env (E i) (ecs i)" and c: "\<not> ci_exit c" "ci_session c = None \<longleftrightarrow> ci_expired c"
    and send: "\<forall>i t s. client_connected B s \<or> s \<in> sn_session ` set_option (ci_session c) \<longrightarrow>
      fst (client_session_send (ce_io (E i)) k d n t s) = ec i"
    and recv: "\<forall>i b t s. client_connected B s \<or> s \<in> sn_session ` set_option (ci_session c) \<longrightarrow>
      fst (client_session_send_recv B (ce_now (E i)) (ce_io (E i)) (ce_response (E i)) k d n b t s) = ec' i \<and>
      fst (snd (client_session_send_recv B (ce_now (E i)) (ce_io (E i)) (ce_response (E i)) k d n b t s)) = res i b"
  defines "conn \<equiv> \<lambda>i. connects (ci_ssl c) (ecs i)" and "m \<equiv> unat (cc_send_attempts (ci_client_cfg c))"
  shows "(case attempts_spec ec (\<lambda>_ r. r) conn 0 m (ci_session c \<noteq> None) () of (ok, has, _) \<Rightarrow>
      \<exists>t' c'. client_send B E k d n t c = Returned (ok, t') c' \<and> (\<not> ok \<longrightarrow> (ci_session c' \<noteq> None \<longleftrightarrow> has))) \<and>
    (case attempts_spec ec' res conn 0 m (ci_session c \<noteq> None) (fb_new B) of (ok, has, b) \<Rightarrow>
      \<exists>t' c'. client_send_recv B E k d n t c = Returned (b, t') c' \<and> (\<not> ok \<longrightarrow> (ci_session c' \<noteq> None \<longleftrightarrow> has)))"
proof -
  let ?Q = "\<lambda>s. client_connected B s \<or> s \<in> sn_session ` set_option (ci_session c)"
  have start: "\<forall>sn. ci_session c = Some sn \<longrightarrow> ?Q (sn_session sn)" by auto
  have "\<exists>t1 s1. send_op k d n (E i) r t s = (ec i, r, t1, s1)" if "?Q s" for i r t s
    using send [rule_format, OF that, of i t]
    by (cases "client_session_send (ce_io (E i)) k d n t s") (simp add: send_op_def)
  from attempt_loop_spec [of E ecs B ?Q "send_op k d n" ec "\<lambda>_ r. r", OF _ _ this c start, of 0 m "()" t] E
  have 1: "case attempts_spec ec (\<lambda>_ r. r) conn 0 m (ci_session c \<noteq> None) () of (ok, has, r') \<Rightarrow>
      \<exists>t' c'. attempt_loop B E (send_op k d n) 0 m () t c = Returned (ok, r', t') c' \<and> (\<not> ok \<longrightarrow> (ci_session c' \<noteq> None \<longleftrightarrow> has))"
    by (simp add: conn_def)
  have "\<exists>t1 s1. recv_op B k d n (E i) r t s = (ec' i, res i r, t1, s1)" if "?Q s" for i r t s
    using recv [rule_format, OF that, of i r t]
    by (cases "client_session_send_recv B (ce_now (E i)) (ce_io (E i)) (ce_response (E i)) k d n r t s")
      (simp add: recv_op_def)
  from attempt_loop_spec [of E ecs B ?Q "recv_op B k d n" ec' res, OF _ _ this c start, of 0 m "fb_new B" t] E
  have 2: "case attempts_spec ec' res conn 0 m (ci_session c \<noteq> None) (fb_new B) of (ok, has, r') \<Rightarrow>
      \<exists>t' c'. attempt_loop B E (recv_op B k d n) 0 m (fb_new B) t c = Returned (ok, r', t') c' \<and>
        (\<not> ok \<longrightarrow> (ci_session c' \<noteq> None \<longleftrightarrow> has))"
    by (simp add: conn_def)
  from 1 2 show ?thesis by (fastforce simp: client_send_def client_send_recv_def m_def)
qed

text \<open>
  Five attempts: the first connection fails, the second one is made, sending times out and disconnects,
  the connection is made again, and the last attempt sends. Waiting for the response then times out, so \<^verbatim>\<open>send_recv\<close> has
  nothing to return.
\<close>

theorem sends_by_attempts_witness:
  "let E = \<lambda>i :: nat. (drive_env (replicate 4 (if i = 0 then Timed_out else No_error)))
       \<lparr>ce_destroy := destroy_session, ce_io := \<lambda>_. client_run byte_buffer Little (if i = 4 then [Ev_posted, Ev_wrote No_error] else [])\<rparr>
   in (\<exists>t' c'. client_send byte_buffer E 3 64 5 tls_new (demo_client 5) = Returned (True, t') c') \<and>
      (\<exists>t' c'. client_send_recv byte_buffer E 3 64 5 tls_new (demo_client 5) = Returned ([], t') c' \<and> ci_session c' = None)"
proof -
  let ?ecs = "\<lambda>i :: nat. replicate 4 (if i = 0 then Timed_out else No_error)"
  let ?E = "\<lambda>i :: nat. (drive_env (?ecs i))
       \<lparr>ce_destroy := destroy_session, ce_io := \<lambda>_. client_run byte_buffer Little (if i = 4 then [Ev_posted, Ev_wrote No_error] else [])\<rparr>"
  let ?ec = "\<lambda>i :: nat. if i = 4 then No_error else Timed_out" and ?res = "\<lambda>(i :: nat) b :: u8 list. if i = 4 then [] else b"
  let ?c = "demo_client 5"
  have E: "\<forall>i. attempt_env (?E i) (?ecs i)" by (simp add: attempt_env_def drive_env_def idle_env_def)
  have send: "fst (client_session_send (ce_io (?E i)) 3 64 5 t s) = ?ec i" if "client_connected byte_buffer s" for i t s
    using that by (auto simp: client_session_send_eq client_connected_def client_eval)
  have recv: "fst (client_session_send_recv byte_buffer (ce_now (?E i)) (ce_io (?E i)) (ce_response (?E i)) 3 64 5 b t s) = Timed_out \<and>
      fst (snd (client_session_send_recv byte_buffer (ce_now (?E i)) (ce_io (?E i)) (ce_response (?E i)) 3 64 5 b t s)) = ?res i b"
    if s: "client_connected byte_buffer s" for i b t s
  proof -
    note evals = client_session_send_recv_def wait_written_def session_wait_def client_eval data_cache_queue_def data_cache_new_def
      data_cache_wait_begin_def data_cache_take_def data_read_new_def drive_env_def idle_env_def split_def Let_def queue_recv_max_def data_cache_swapped_def
    obtain ct where ct: "s = client_read (client_session_new byte_buffer ct)" using s by (auto simp: client_connected_def)
    show ?thesis unfolding ct by (cases "i = 4") (simp_all add: evals)
  qed
  have no: "ci_session ?c = None" "\<not> ci_ssl ?c" "\<not> ci_exit ?c" "unat (cc_send_attempts (ci_client_cfg ?c)) = 5"
    by (simp_all add: demo_client_sel max_def word_le_nat_alt)
  let ?conn = "\<lambda>i. connects False (?ecs i)"
  have spec: "attempts_spec ?ec (\<lambda>_ r. r) ?conn 0 5 False () = (True, True, ())"
      "attempts_spec (\<lambda>_. Timed_out) ?res ?conn 0 5 False [] = (False, False, [])"
    by (simp_all add: connects_def numeral_eq_Suc)
  note result = sends_by_attempts [of ?E ?ecs ?c byte_buffer 3 64 5 ?ec "\<lambda>_. Timed_out" ?res tls_new, OF E no(3)]
  have "ci_session ?c = None \<longleftrightarrow> ci_expired ?c" by (simp add: demo_client_sel)
  note result = result [OF this]
  have "\<forall>i t s. client_connected byte_buffer s \<or> s \<in> sn_session ` set_option (ci_session ?c) \<longrightarrow>
      fst (client_session_send (ce_io (?E i)) 3 64 5 t s) = ?ec i"
    unfolding no(1) using send by blast
  note result = result [OF this]
  have "\<forall>i b t s. client_connected byte_buffer s \<or> s \<in> sn_session ` set_option (ci_session ?c) \<longrightarrow>
      fst (client_session_send_recv byte_buffer (ce_now (?E i)) (ce_io (?E i)) (ce_response (?E i)) 3 64 5 b t s) = Timed_out \<and>
      fst (snd (client_session_send_recv byte_buffer (ce_now (?E i)) (ce_io (?E i)) (ce_response (?E i)) 3 64 5 b t s)) = ?res i b"
    unfolding no(1) using recv by blast
  from result [OF this] show ?thesis
    unfolding no(1,4) using no(2) spec by (simp add: Let_def)
qed

lemma attempt_loop_success:
  "attempt_loop B E op i n r t c = Returned (True, r', t') c' \<Longrightarrow>
   \<exists>j r0 t0 s ec s'. i \<le> j \<and> j < i + n \<and> op (E j) r0 t0 s = (ec, r', t', s') \<and> \<not> failed ec"
proof (induction n arbitrary: i r t c)
  case (Suc n)
  have later: ?case if "attempt_loop B E op (Suc i) n r1 t1 c1 = Returned (True, r', t') c'" for r1 t1 c1
    using Suc.IH [OF that] by (metis Suc_leD add_Suc_right add_Suc)
  show ?case
  proof (cases "ci_exit (ce_before (E i) c)")
    case True
    from Suc.prems show ?thesis unfolding attempt_loop_exit [of E i c, OF True] by simp
  next
    case False
    show ?thesis
    proof (cases "ci_session (ce_before (E i) c)")
      case None
      from Suc.prems show ?thesis
        unfolding attempt_loop_none [of E i c, OF False None] bind_Returned using later by blast
    next
      case (Some s)
      obtain ec r1 t1 s1 where op: "op (E i) r t (sn_session s) = (ec, r1, t1, s1)" by (metis prod_cases4)
      show ?thesis
      proof (cases "failed ec")
        case True
        from Suc.prems show ?thesis
          unfolding attempt_loop_some [of E i c s op, OF False Some op] Let_def if_P [OF True] bind_Returned
          using later by blast
      next
        case failed: False
        from Suc.prems have "r1 = r'" "t1 = t'"
          unfolding attempt_loop_some [of E i c s op, OF False Some op] Let_def if_not_P [OF failed] by simp_all
        with op failed show ?thesis
          by (intro exI [of _ i] exI [of _ r] exI [of _ t] exI [of _ "sn_session s"] exI [of _ ec] exI [of _ s1])
            simp
      qed
    qed
  qed
qed simp

definition connected_demo :: "u32 \<Rightarrow> (u8 list, (string \<times> string) list) client" where
  "connected_demo n = (demo_client n)\<lparr>ci_expired := False, ci_io_worker := True,
     ci_session := Some (session_connect_new byte_buffer False client_config_default client_timeout_default
       duration_max [])\<rparr>"

lemma idle_send_times_out:
  "\<exists>t1 s1. client_session_send (\<lambda>_ s. s) k d n t s = (Timed_out, t1, s1)"
  by (auto simp: client_session_send_def wait_written_def post_send_def Let_def promise_ready_def split_def)

text \<open>\<^verbatim>\<open>send\<close> answers true only when one of the configured attempts called \<^verbatim>\<open>send\<close> of a session
  and that call reported no error.\<close>

theorem client_send_success:
  assumes "client_send B E k d n t c = Returned (True, t') c'"
  shows "\<exists>j < unat (cc_send_attempts (ci_client_cfg c)). \<exists>t0 s s'.
     client_session_send (ce_io (E j)) k d n t0 s = (No_error, t', s')"
proof -
  from assms have "attempt_loop B E (send_op k d n) 0 (unat (cc_send_attempts (ci_client_cfg c))) () t c =
      Returned (True, (), t') c'"
    by (auto simp: client_send_def bind_Returned)
  from attempt_loop_success [OF this] obtain j t0 s ec s' where
    j: "j < unat (cc_send_attempts (ci_client_cfg c))" and "\<not> failed ec"
    and op: "send_op k d n (E j) () t0 s = (ec, (), t', s')" by auto
  then have "client_session_send (ce_io (E j)) k d n t0 s = (No_error, t', s')"
    by (cases "client_session_send (ce_io (E j)) k d n t0 s") (simp add: send_op_def failed_def)
  with j show ?thesis by blast
qed

theorem client_send_success_witness:
  "\<exists>t0 s s'. client_session_send (\<lambda>_. client_run byte_buffer Little [Ev_posted, Ev_wrote No_error])
     3 64 5 t0 s = (No_error, tls_new, s')"
proof -
  let ?E = "idle_env\<lparr>ce_io := \<lambda>_. client_run byte_buffer Little [Ev_posted, Ev_wrote No_error]\<rparr>"
  have one: "unat (cc_send_attempts (ci_client_cfg (connected_demo 1))) = Suc 0"
    by (simp add: connected_demo_def demo_client_sel)
  have "\<exists>c'. client_send byte_buffer (\<lambda>_. ?E) 3 64 5 tls_new (connected_demo 1) = Returned (True, tls_new) c'"
    unfolding client_send_def one
    by (simp add: connected_demo_def idle_env_def demo_client_sel send_op_def session_connect_new_def client_eval
        client_session_send_def wait_written_def tls_new_def send_timeout_def)
  then show ?thesis using client_send_success [of byte_buffer "\<lambda>_. ?E" 3 64 5 tls_new "connected_demo 1"] by auto
qed

text \<open>A \<^verbatim>\<open>send\<close> that finds no session spends its attempt on connecting: with one configured attempt it
  answers false whether or not the connection succeeds, and the message was never handed to a
  session; the client may be connected afterwards.\<close>

theorem single_attempt_only_connects:
  assumes "cc_send_attempts (ci_client_cfg c) = 1" and "\<not> ci_exit (ce_before (E 0) c)"
    and "ci_session (ce_before (E 0) c) = None"
  shows "client_send B E k d n t c =
    bind_outcome (client_connect B (E 0) (ce_after (E 0) (ce_before (E 0) c))) (\<lambda>_ c'. Returned (False, t) c')"
proof -
  have "client_send B E k d n t c = bind_outcome (attempt_loop B E (send_op k d n) 0 (Suc 0) () t c)
      (\<lambda>(ok, r, t1). Returned (ok, t1))"
    using assms(1) by (simp add: client_send_def)
  also have "\<dots> = bind_outcome (client_connect B (E 0) (ce_after (E 0) (ce_before (E 0) c))) (\<lambda>_ c'. Returned (False, t) c')"
    unfolding attempt_loop_none [of E 0 c, OF assms(2,3)]
    by (cases "client_connect B (E 0) (ce_after (E 0) (ce_before (E 0) c))") simp_all
  finally show ?thesis .
qed

theorem single_attempt_only_connects_witness:
  "\<exists>c'. client_send byte_buffer (\<lambda>_. drive_env (replicate 4 No_error)) 3 64 5 tls_new (demo_client 1) =
     Returned (False, tls_new) c' \<and> ci_session c' \<noteq> None"
proof -
  have "connects False (replicate 4 No_error)" by (simp add: connects_def list_all_iff)
  with construct_drive [of "demo_client 1" "replicate 4 No_error" "drive_env (replicate 4 No_error)" byte_buffer]
    single_attempt_only_connects [of "demo_client 1" "\<lambda>_. drive_env (replicate 4 No_error)" byte_buffer 3 64 5 tls_new]
  show ?thesis by (auto simp: demo_client_sel client_connect_def)
qed

text \<open>With two configured attempts a message is not sent again after an error: the first attempt fails
  and disconnects, the second one finds no session and only connects, so the answer is false
  even when the reconnection succeeds. A second try takes three attempts.\<close>

theorem resend_needs_third_attempt:
  assumes n: "cc_send_attempts (ci_client_cfg c) = 2" and "\<not> ci_exit (ce_before (E 0) c)"
    and "ci_session (ce_before (E 0) c) = Some s"
    and send: "client_session_send (ce_io (E 0)) k d n t (sn_session s) = (ec, t1, s1)" and ec: "failed ec"
    and disc: "client_disconnect (E 0) (ce_after (E 0) (put_session (s\<lparr>sn_session := s1\<rparr>) (ce_before (E 0) c))) =
      Returned () c2"
    and "\<not> ci_exit (ce_before (E 1) c2)" and "ci_session (ce_before (E 1) c2) = None"
  shows "client_send B E k d n t c =
    bind_outcome (client_connect B (E 1) (ce_after (E 1) (ce_before (E 1) c2))) (\<lambda>_ c'. Returned (False, t1) c')"
proof -
  have two: "unat (2 :: u32) = Suc (Suc 0)" by simp
  have "client_send B E k d n t c = bind_outcome (attempt_loop B E (send_op k d n) 0 (Suc (Suc 0)) () t c)
      (\<lambda>(ok, r, t1). Returned (ok, t1))"
    unfolding client_send_def n two ..
  also have "attempt_loop B E (send_op k d n) 0 (Suc (Suc 0)) () t c =
      attempt_loop B E (send_op k d n) (Suc 0) (Suc 0) () t1 c2"
    using attempt_loop_some [of E 0 c s "send_op k d n" "()" t ec "()" t1 s1, OF assms(2,3)] send ec disc
    by (simp add: send_op_def Let_def del: attempt_loop.simps)
  also have "\<dots> = bind_outcome (client_connect B (E 1) (ce_after (E 1) (ce_before (E 1) c2)))
      (\<lambda>_ c3. Returned (False, (), t1) c3)"
    using attempt_loop_none [of E "Suc 0" c2] assms(7,8) by simp
  finally show ?thesis
    by (cases "client_connect B (E 1) (ce_after (E 1) (ce_before (E 1) c2))") simp_all
qed

theorem resend_needs_third_attempt_witness:
  "\<exists>t1 c'. client_send byte_buffer (\<lambda>_. (drive_env (replicate 4 No_error))\<lparr>ce_destroy := destroy_session\<rparr>)
     3 64 5 tls_new (connected_demo 2) = Returned (False, t1) c' \<and> ci_session c' \<noteq> None"
proof -
  let ?E = "(drive_env (replicate 4 No_error))\<lparr>ce_destroy := destroy_session\<rparr> ::
    (u8 list, (string \<times> string) list) client_env"
  let ?c = "connected_demo 2" and ?s = "the (ci_session (connected_demo 2))"
  obtain t1 s1 where send: "client_session_send (ce_io ?E) 3 64 5 tls_new (sn_session ?s) = (Timed_out, t1, s1)"
    using idle_send_times_out [of 3 64 5 tls_new "sn_session ?s"] by (auto simp: drive_env_def idle_env_def)
  let ?d = "client_disconnect ?E (put_session (?s\<lparr>sn_session := s1\<rparr>) ?c)"
  have c: "cc_send_attempts (ci_client_cfg ?c) = 2" "\<not> ci_exit (ce_before ?E ?c)" "ce_before ?E ?c = ?c"
      "ci_session (ce_before ?E ?c) = Some ?s" "\<not> ci_exit ?c" "\<not> ci_ssl ?c" "\<not> ci_expired ?c"
    by (simp_all add: connected_demo_def demo_client_sel max_def word_le_nat_alt)
  have "\<exists>c2. ?d = Returned () c2 \<and> ci_session c2 = None \<and> \<not> ci_exit c2 \<and> ci_expired c2 \<and> \<not> ci_ssl c2"
    using disconnect_result [of ?E "put_session (?s\<lparr>sn_session := s1\<rparr>) ?c"] put_session_expired [OF c(7)] c(5,6) by auto
  then obtain c2 where c2: "?d = Returned () c2" "ci_session c2 = None" "\<not> ci_exit c2" "ci_expired c2" "\<not> ci_ssl c2"
    by blast
  have "connects False (replicate 4 No_error)" by (simp add: connects_def list_all_iff)
  with construct_drive [of c2 "replicate 4 No_error" ?E byte_buffer] c2
  have "\<exists>c'. client_connect byte_buffer ?E c2 = Returned True c' \<and> ci_session c' \<noteq> None"
    by (auto simp: client_connect_def)
  with resend_needs_third_attempt [of ?c "\<lambda>_. ?E" ?s 3 64 5 tls_new Timed_out t1 s1 c2 byte_buffer] c c2 send
  show ?thesis by auto
qed

subsection \<open>Listening\<close>

text \<open>A broadcast handler is bound only while the client has no session and only to an id that has
  none: then the id is known from the next session on, otherwise the call throws and changes nothing;
  a client that is being destroyed answers false.\<close>

theorem listen_broadcast_result:
  "listen_broadcast k h c =
     (if ci_exit c then Returned False c
      else if \<not> ci_expired c then Thrown Session_active c
      else if k \<in> dom (map_of (ci_bound_funcs c)) then Thrown (Id_already_bound k) c
      else Returned True (c\<lparr>ci_bound_funcs := ci_bound_funcs c @ [(k, h)]\<rparr>))"
proof (cases "map_of (ci_bound_funcs c) k")
  case None
  then have "k \<notin> fst ` set (ci_bound_funcs c)" by (simp add: map_of_eq_None_iff)
  with None show ?thesis by (auto simp: listen_broadcast_def update_fresh)
qed (auto simp: listen_broadcast_def)

end
