(* ===== verification/Server_Session.thy ===== *)
theory Server_Session
  imports Write_Order Stream_Ops Handshake
begin

text \<open>
  \<^verbatim>\<open>session_context\<close> and \<^verbatim>\<open>server_session\<close> of
  \<^verbatim>\<open>include/radrpc/impl/server/server_session.hpp\<close>: receiving calls, running the bound handlers
  and sending responses and broadcasts over one connection, with the closing and the ping timer
  of the derived \<^verbatim>\<open>session_accept\<close>, which the handlers use. The handlers of a session run one at a
  time, on its strand.
\<close>

section \<open>The context a bound handler sees\<close>

record ('b, 'h) session_context =
  cx_bound_close :: bool
  cx_header :: io_header
  cx_receive_buffer :: 'b
  cx_receive_buffer_ref :: "u8 list"
  cx_config :: session_config
  cx_req_handshake :: 'h
  cx_res_handshake :: 'h
  cx_id :: u64
  cx_remote_host :: string
  cx_response :: "u8 list"

definition session_context_data :: "('b, 'h, 'z) session_context_scheme \<Rightarrow> u8 list" where
  "session_context_data c = cx_receive_buffer_ref c"

definition session_context_size :: "('b, 'h, 'z) session_context_scheme \<Rightarrow> nat" where
  "session_context_size c = length (cx_receive_buffer_ref c)"

definition session_context_clear_buffer ::
  "'b flat_buffer \<Rightarrow> ('b, 'h, 'z) session_context_scheme \<Rightarrow> ('b, 'h, 'z) session_context_scheme" where
  "session_context_clear_buffer B c =
     c\<lparr>cx_receive_buffer := fb_consume B (cx_receive_buffer c) (fb_size B (cx_receive_buffer c))\<rparr>"

definition session_context_close ::
  "('b, 'h, 'z) session_context_scheme \<Rightarrow> ('b, 'h, 'z) session_context_scheme" where
  "session_context_close c = c\<lparr>cx_bound_close := True\<rparr>"

text \<open>
  A bound handler is user code. It reads the context through its public interface and changes
  it through the interface only: it assigns the public members and calls \<^verbatim>\<open>close()\<close> and
  \<^verbatim>\<open>clear_buffer()\<close>. The model takes any function from what the handler can read to the
  list of the changes it makes.
\<close>

record 'h context_view =
  cv_id :: u64
  cv_remote_host :: string
  cv_data :: "u8 list"
  cv_size :: nat
  cv_config :: session_config
  cv_request_handshake :: 'h

definition context_view :: "('b, 'h, 'z) session_context_scheme \<Rightarrow> 'h context_view" where
  "context_view c =
     \<lparr>cv_id = cx_id c, cv_remote_host = cx_remote_host c, cv_data = session_context_data c,
      cv_size = session_context_size c, cv_config = cx_config c,
      cv_request_handshake = cx_req_handshake c\<rparr>"

datatype context_op =
    Ctx_response "u8 list"
  | Ctx_id u64
  | Ctx_clear_buffer
  | Ctx_close

fun context_exec ::
  "'b flat_buffer \<Rightarrow> context_op \<Rightarrow> ('b, 'h, 'z) session_context_scheme \<Rightarrow>
   ('b, 'h, 'z) session_context_scheme" where
  "context_exec B (Ctx_response bs) c = c\<lparr>cx_response := bs\<rparr>"
| "context_exec B (Ctx_id i) c = c\<lparr>cx_id := i\<rparr>"
| "context_exec B Ctx_clear_buffer c = session_context_clear_buffer B c"
| "context_exec B Ctx_close c = session_context_close c"

type_synonym 'h bound_handler = "'h context_view \<Rightarrow> context_op list"
type_synonym 'h bound_funcs = "u32 \<Rightarrow> 'h bound_handler option option"

section \<open>State\<close>

datatype ping_state = Ping_next | Ping_send | Ping_close

text \<open>
  The queue holds shared references: \<open>sp_msg\<close> is the broadcast message the reference belongs
  to, or nothing for a response, which only its queue owns. \<open>ss_posted\<close> are the references
  bound to handlers \<^verbatim>\<open>send()\<close> has posted to the strand. \<open>ss_calls\<close> records the
  handlers that were called and \<open>ss_fault\<close> that the front of an empty queue was used.
\<close>

record shared_push =
  sp_msg :: "nat option"
  sp_data :: data_push

record ('b, 'h) server_session = "('b, 'h) session_context" +
  ss_write_error :: bool
  ss_read_error :: bool
  ss_queue :: "shared_push list"
  ss_server_timeout :: server_timeout
  ss_stream :: "u8 list stream_ops"
  ss_timer :: timer_ops
  ss_close :: bool
  ss_close_received :: bool
  ss_ping_state :: ping_state
  ss_posted :: "shared_push list"
  ss_calls :: "(u32 \<times> u8 list) list"
  ss_fault :: bool

definition server_session_new ::
  "'b flat_buffer \<Rightarrow> 'h http_fields \<Rightarrow> u64 \<Rightarrow> string \<Rightarrow> server_timeout \<Rightarrow> session_config \<Rightarrow>
   ('b, 'h) server_session" where
  "server_session_new B H p_id p_remote_host p_server_timeout p_session_cfg =
     \<lparr>cx_bound_close = False, cx_header = io_header_new 0 0, cx_receive_buffer = fb_new B,
      cx_receive_buffer_ref = [], cx_config = p_session_cfg, cx_req_handshake = hd_new H,
      cx_res_handshake = hd_new H, cx_id = p_id, cx_remote_host = p_remote_host, cx_response = [],
      ss_write_error = False, ss_read_error = False, ss_queue = [],
      ss_server_timeout = p_server_timeout, ss_stream = stream_new, ss_timer = timer_new,
      ss_close = False, ss_close_received = False, ss_ping_state = Ping_next, ss_posted = [],
      ss_calls = [], ss_fault = False\<rparr>"

section \<open>Closing and the ping timer\<close>

type_synonym ('b, 'h, 'z) session_step =
  "('b, 'h, 'z) server_session_scheme \<Rightarrow> ('b, 'h, 'z) server_session_scheme"

definition server_shutdown :: "('b, 'h, 'z) session_step" where
  "server_shutdown s =
     (if ss_close s \<or> ss_close_received s then s
      else s\<lparr>ss_close := True, ss_stream := async_close (ss_stream s)\<rparr>)"

definition server_close_session :: "time_point \<Rightarrow> ('b, 'h, 'z) session_step" where
  "server_close_session now s =
     (if sg_ping_delay (cx_config s) \<noteq> duration_zero
      then s\<lparr>ss_ping_state := Ping_close, ss_timer := expires_after now 0 (ss_timer s)\<rparr>
      else server_shutdown s)"

definition on_timer :: "time_point \<Rightarrow> bool \<Rightarrow> error_code \<Rightarrow> ('b, 'h, 'z) session_step" where
  "on_timer now is_open ec s =
     (if failed ec \<and> ec \<noteq> Operation_aborted then s
      else
        (let rearm = (\<lambda>s. s\<lparr>ss_timer :=
               async_wait (expires_after now (sg_ping_delay (cx_config s)) (ss_timer s))\<rparr>)
         in if tm_expiry (ss_timer s) \<le> sint now
            then if is_open \<and> ss_ping_state s = Ping_next
                 then rearm (s\<lparr>ss_ping_state := Ping_send, ss_stream := async_ping (ss_stream s)\<rparr>)
                 else server_shutdown s
            else rearm s))"

definition server_on_ping :: "error_code \<Rightarrow> ('b, 'h, 'z) session_step" where
  "server_on_ping ec s = s"

definition server_on_control_callback :: "time_point \<Rightarrow> frame_type \<Rightarrow> ('b, 'h, 'z) session_step" where
  "server_on_control_callback now kind s =
     (if kind = Frame_close then s\<lparr>ss_close_received := True\<rparr>
      else s\<lparr>ss_ping_state := Ping_next,
             ss_timer := expires_after now (sg_ping_delay (cx_config s)) (ss_timer s)\<rparr>)"

definition on_shutdown :: "error_code \<Rightarrow> ('b, 'h, 'z) session_step" where
  "on_shutdown ec s = s"

section \<open>Handlers\<close>

definition server_read :: "('b, 'h, 'z) session_step" where
  "server_read s = s\<lparr>ss_stream := async_read (ss_stream s)\<rparr>"

definition server_wire_of :: "endian \<Rightarrow> shared_push \<Rightarrow> u8 list" where
  "server_wire_of e m = io_header_bytes e (dp_header (sp_data m)) @ dp_body (sp_data m)"

definition server_write :: "endian \<Rightarrow> ('b, 'h, 'z) session_step" where
  "server_write e s =
     (case ss_queue s of
        [] \<Rightarrow> s\<lparr>ss_fault := True\<rparr>
      | m # ms \<Rightarrow> s\<lparr>ss_stream := async_write (server_wire_of e m) (ss_stream s)\<rparr>)"

definition server_handle_send :: "endian \<Rightarrow> shared_push \<Rightarrow> ('b, 'h, 'z) session_step" where
  "server_handle_send e data s =
     (if ss_close s \<or> ss_close_received s \<or> ss_write_error s \<or> ss_read_error s then s
      else if queue_send_max \<le> length (ss_queue s) then s
      else
        (let s1 = s\<lparr>ss_queue := ss_queue s @ [data]\<rparr>
         in if 1 < length (ss_queue s1) then s1 else server_write e s1))"

definition call_function ::
  "'b flat_buffer \<Rightarrow> endian \<Rightarrow> 'h bound_funcs \<Rightarrow> time_point \<Rightarrow> ('b, 'h, 'z) session_step" where
  "call_function B e bound_funcs now s =
     (let s1 = s\<lparr>cx_receive_buffer_ref := fb_bytes B (cx_receive_buffer s)\<rparr>
      in if sizeof_io_header \<le> length (cx_receive_buffer_ref s1)
         then
           (let s2 = s1\<lparr>cx_header := io_header_of_bytes e (cx_receive_buffer_ref s1)\<rparr>;
                cid = call_id (cx_header s2);
                s3 = s2\<lparr>cx_receive_buffer := fb_consume B (cx_receive_buffer s2) sizeof_io_header\<rparr>;
                s4 = s3\<lparr>cx_receive_buffer_ref := fb_bytes B (cx_receive_buffer s3)\<rparr>
            in case bound_funcs cid of
                 None \<Rightarrow> s4
               | Some None \<Rightarrow> s4
               | Some (Some f) \<Rightarrow>
                   (let s5 = fold (context_exec B) (f (context_view s4))
                          (s4\<lparr>ss_calls := ss_calls s4 @ [(cid, cx_receive_buffer_ref s4)]\<rparr>)
                    in if cx_bound_close s5 then server_close_session now s5
                       else if cx_response s5 \<noteq> []
                       then server_handle_send e
                         \<lparr>sp_msg = None,
                          sp_data = (data_push_new (cx_header s5))\<lparr>dp_body := cx_response s5\<rparr>\<rparr>
                         (s5\<lparr>cx_response := []\<rparr>)
                       else s5))
         else s1)"

definition server_on_write :: "endian \<Rightarrow> time_point \<Rightarrow> error_code \<Rightarrow> ('b, 'h, 'z) session_step" where
  "server_on_write e now ec s =
     (if failed ec \<or> ss_close s \<or> ss_close_received s \<or> ss_read_error s
      then server_close_session now (s\<lparr>ss_write_error := True, ss_queue := []\<rparr>)
      else
        (case ss_queue s of
           [] \<Rightarrow> s\<lparr>ss_fault := True\<rparr>
         | m # ms \<Rightarrow>
             (let s1 = s\<lparr>ss_queue := ms\<rparr>
              in if ms \<noteq> [] then server_write e s1 else s1)))"

definition server_on_read ::
  "'b flat_buffer \<Rightarrow> endian \<Rightarrow> 'h bound_funcs \<Rightarrow> time_point \<Rightarrow> error_code \<Rightarrow>
   ('b, 'h, 'z) session_step" where
  "server_on_read B e bound_funcs now ec s =
     (if failed ec \<or> ss_close_received s
      then server_close_session now (s\<lparr>ss_read_error := True\<rparr>)
      else
        (let s1 = (if \<not> ss_close s \<and> \<not> ss_write_error s then call_function B e bound_funcs now s else s);
             s2 = s1\<lparr>cx_receive_buffer :=
                       fb_consume B (cx_receive_buffer s1) (fb_size B (cx_receive_buffer s1)),
                     cx_response := []\<rparr>
         in server_read s2))"

definition server_session_send :: "shared_push \<Rightarrow> ('b, 'h, 'z) session_step" where
  "server_session_send data s = s\<lparr>ss_posted := ss_posted s @ [data]\<rparr>"

section \<open>Steps\<close>

datatype 'b server_event =
    Sv_send shared_push
  | Sv_posted
  | Sv_read time_point error_code 'b
  | Sv_wrote time_point error_code
  | Sv_control time_point frame_type
  | Sv_timer time_point bool error_code
  | Sv_pinged error_code
  | Sv_closed error_code

fun server_enabled :: "'b server_event \<Rightarrow> ('b, 'h, 'z) server_session_scheme \<Rightarrow> bool" where
  "server_enabled (Sv_send m) s \<longleftrightarrow> True"
| "server_enabled Sv_posted s \<longleftrightarrow> ss_posted s \<noteq> []"
| "server_enabled (Sv_read now ec b) s \<longleftrightarrow> so_reads (ss_stream s) \<noteq> 0"
| "server_enabled (Sv_wrote now ec) s \<longleftrightarrow> so_writes (ss_stream s) \<noteq> []"
| "server_enabled (Sv_control now kind) s \<longleftrightarrow> True"
| "server_enabled (Sv_timer now is_open ec) s \<longleftrightarrow> tm_waits (ss_timer s) \<noteq> 0"
| "server_enabled (Sv_pinged ec) s \<longleftrightarrow> so_pings (ss_stream s) \<noteq> 0"
| "server_enabled (Sv_closed ec) s \<longleftrightarrow> so_closes (ss_stream s) \<noteq> 0"

fun server_exec ::
  "'b flat_buffer \<Rightarrow> endian \<Rightarrow> 'h bound_funcs \<Rightarrow> 'b server_event \<Rightarrow> ('b, 'h, 'z) session_step" where
  "server_exec B e funcs (Sv_send m) s = server_session_send m s"
| "server_exec B e funcs Sv_posted s =
     (case ss_posted s of
        [] \<Rightarrow> s
      | m # ms \<Rightarrow> server_handle_send e m (s\<lparr>ss_posted := ms\<rparr>))"
| "server_exec B e funcs (Sv_read now ec b) s =
     server_on_read B e funcs now ec
       (s\<lparr>cx_receive_buffer := b, ss_stream := read_done (ss_stream s)\<rparr>)"
| "server_exec B e funcs (Sv_wrote now ec) s =
     server_on_write e now ec (s\<lparr>ss_stream := write_done (ss_stream s)\<rparr>)"
| "server_exec B e funcs (Sv_control now kind) s = server_on_control_callback now kind s"
| "server_exec B e funcs (Sv_timer now is_open ec) s =
     on_timer now is_open ec (s\<lparr>ss_timer := wait_done (ss_timer s)\<rparr>)"
| "server_exec B e funcs (Sv_pinged ec) s =
     server_on_ping ec (s\<lparr>ss_stream := ping_done (ss_stream s)\<rparr>)"
| "server_exec B e funcs (Sv_closed ec) s =
     on_shutdown ec (s\<lparr>ss_stream := close_done (ss_stream s)\<rparr>)"

inductive server_step ::
  "'b flat_buffer \<Rightarrow> endian \<Rightarrow> 'h bound_funcs \<Rightarrow> ('b, 'h, 'z) server_session_scheme \<Rightarrow>
   'b server_event \<Rightarrow> ('b, 'h, 'z) server_session_scheme \<Rightarrow> bool"
  for B :: "'b flat_buffer" and e :: endian and funcs :: "'h bound_funcs"
where
  server_stepI: "server_enabled ev s \<Longrightarrow> server_step B e funcs s ev (server_exec B e funcs ev s)"

inductive_cases server_stepE: "server_step B e funcs s ev t"

section \<open>The write pipeline\<close>

definition server_accepts :: "('b, 'h, 'z) server_session_scheme \<Rightarrow> bool" where
  "server_accepts s \<longleftrightarrow>
     \<not> (ss_close s \<or> ss_close_received s \<or> ss_write_error s \<or> ss_read_error s) \<and>
     length (ss_queue s) < queue_send_max"

definition server_goes_on :: "error_code \<Rightarrow> ('b, 'h, 'z) server_session_scheme \<Rightarrow> bool" where
  "server_goes_on ec s \<longleftrightarrow>
     \<not> (failed ec \<or> ss_close s \<or> ss_close_received s \<or> ss_read_error s)"

lemma server_send_refused: "\<not> server_accepts s \<Longrightarrow> server_handle_send e m s = s"
  by (auto simp: server_accepts_def server_handle_send_def)

lemma server_send_accepted:
  "server_accepts s \<Longrightarrow> server_handle_send e m s =
     (if ss_queue s = []
      then s\<lparr>ss_queue := [m], ss_stream := async_write (server_wire_of e m) (ss_stream s)\<rparr>
      else s\<lparr>ss_queue := ss_queue s @ [m]\<rparr>)"
  by (auto simp: server_accepts_def server_handle_send_def server_write_def Let_def)

lemma server_close_frame [simp]:
  "ss_queue (server_close_session now s) = ss_queue s"
  "so_writes (ss_stream (server_close_session now s)) = so_writes (ss_stream s)"
  "so_started (ss_stream (server_close_session now s)) = so_started (ss_stream s)"
  "so_reads (ss_stream (server_close_session now s)) = so_reads (ss_stream s)"
  "so_pings (ss_stream (server_close_session now s)) = so_pings (ss_stream s)"
  "tm_waits (ss_timer (server_close_session now s)) = tm_waits (ss_timer s)"
  "ss_fault (server_close_session now s) = ss_fault s"
  "ss_write_error (server_close_session now s) = ss_write_error s"
  "ss_read_error (server_close_session now s) = ss_read_error s"
  "ss_calls (server_close_session now s) = ss_calls s"
  "ss_posted (server_close_session now s) = ss_posted s"
  "cx_response (server_close_session now s) = cx_response s"
  "cx_receive_buffer (server_close_session now s) = cx_receive_buffer s"
  "cx_config (server_close_session now s) = cx_config s"
  by (simp_all add: server_close_session_def server_shutdown_def)

lemma server_wrote_failed:
  "\<not> server_goes_on ec s \<Longrightarrow> server_on_write e now ec s =
     server_close_session now (s\<lparr>ss_write_error := True, ss_queue := []\<rparr>)"
  by (auto simp: server_goes_on_def server_on_write_def)

lemma server_wrote_next:
  "server_goes_on ec s \<Longrightarrow> ss_queue s = m # ms \<Longrightarrow> server_on_write e now ec s =
     (case ms of
        [] \<Rightarrow> s\<lparr>ss_queue := []\<rparr>
      | m' # _ \<Rightarrow> s\<lparr>ss_queue := ms, ss_stream := async_write (server_wire_of e m') (ss_stream s)\<rparr>)"
  by (auto simp: server_goes_on_def server_on_write_def server_write_def Let_def split: list.split)

interpretation sw: write_pipeline
  ss_queue "\<lambda>s. so_writes (ss_stream s)" "\<lambda>s. so_started (ss_stream s)" "server_wire_of e"
  server_accepts server_goes_on "\<lambda>m. m" "server_handle_send e"
  "\<lambda>s. s\<lparr>ss_stream := write_done (ss_stream s)\<rparr>" "server_on_write e now" "\<lambda>_. queue_send_max"
  for e :: endian and now :: time_point
proof (unfold_locales, goal_cases)
  case (1 s a)
  then show ?case by (simp add: server_send_refused)
next
  case (2 s a)
  then show ?case by (simp add: server_send_accepted)
next
  case (3 s)
  then show ?case by (simp add: server_accepts_def)
next
  case (4 s ec)
  then show ?case by (simp add: server_goes_on_def)
next
  case (5 ec s m ms)
  then show ?case by (auto simp: server_wrote_next split: list.split)
next
  case (6 ec s)
  then show ?case by (simp add: server_wrote_failed)
qed simp_all

section \<open>Invariant\<close>

text \<open>
  \<open>server_quiet\<close> is what holds of the stream and the timer besides the writes. The pings are not
  part of it: see the theorem on overlapping pings below.
\<close>

definition server_quiet :: "('b, 'h, 'z) server_session_scheme \<Rightarrow> bool" where
  "server_quiet s \<longleftrightarrow>
     so_reads (ss_stream s) \<le> 1 \<and>
     so_close_count (ss_stream s) = of_bool (ss_close s) \<and>
     so_closes (ss_stream s) \<le> so_close_count (ss_stream s) \<and>
     tm_waits (ss_timer s) \<le> 1 \<and>
     \<not> ss_fault s \<and>
     (ss_write_error s \<longrightarrow> ss_queue s = []) \<and>
     cx_response s = []"

definition server_inv :: "endian \<Rightarrow> ('b, 'h, 'z) server_session_scheme \<Rightarrow> bool" where
  "server_inv e s \<longleftrightarrow> sw.one_writer e s \<and> server_quiet s"

lemma one_writer_cong:
  "ss_queue t = ss_queue s \<Longrightarrow> so_writes (ss_stream t) = so_writes (ss_stream s) \<Longrightarrow>
   sw.one_writer e t = sw.one_writer e s"
  by (simp add: sw.one_writer_def)

lemma server_inv_new: "server_inv e (server_session_new B H i h st sg)"
  by (simp add: server_inv_def server_quiet_def sw.one_writer_def server_session_new_def)

lemma server_inv_close:
  "server_inv e s \<Longrightarrow> server_inv e (server_close_session now s)"
  by (auto simp: server_inv_def server_quiet_def sw.one_writer_def server_close_session_def
      server_shutdown_def)

lemma server_inv_shutdown: "server_inv e s \<Longrightarrow> server_inv e (server_shutdown s)"
  by (auto simp: server_inv_def server_quiet_def sw.one_writer_def server_shutdown_def)

lemma server_inv_handle_send:
  assumes "server_inv e s"
  shows "server_inv e (server_handle_send e m s)"
proof -
  have "sw.one_writer e (server_handle_send e m s)"
    using sw.one_writer_push [of e s m] assms by (simp add: server_inv_def)
  moreover have "server_quiet (server_handle_send e m s)"
    using assms by (cases "server_accepts s")
      (auto simp: server_send_refused server_send_accepted server_inv_def server_quiet_def
        server_accepts_def)
  ultimately show ?thesis by (simp add: server_inv_def)
qed

text \<open>A bound handler changes the context only.\<close>

lemma context_exec_frame [simp]:
  fixes s :: "('b, 'h, 'z) server_session_scheme"
  shows "ss_queue (context_exec B op s) = ss_queue s"
    "ss_stream (context_exec B op s) = ss_stream s"
    "ss_timer (context_exec B op s) = ss_timer s"
    "ss_close (context_exec B op s) = ss_close s"
    "ss_close_received (context_exec B op s) = ss_close_received s"
    "ss_write_error (context_exec B op s) = ss_write_error s"
    "ss_read_error (context_exec B op s) = ss_read_error s"
    "ss_fault (context_exec B op s) = ss_fault s"
    "ss_posted (context_exec B op s) = ss_posted s"
    "ss_calls (context_exec B op s) = ss_calls s"
    "ss_ping_state (context_exec B op s) = ss_ping_state s"
    "cx_header (context_exec B op s) = cx_header s"
    "cx_config (context_exec B op s) = cx_config s"
  by (cases op; simp add: session_context_clear_buffer_def session_context_close_def)+

lemma context_run_frame [simp]:
  fixes s :: "('b, 'h, 'z) server_session_scheme"
  shows "ss_queue (fold (context_exec B) ops s) = ss_queue s"
    "ss_stream (fold (context_exec B) ops s) = ss_stream s"
    "ss_timer (fold (context_exec B) ops s) = ss_timer s"
    "ss_close (fold (context_exec B) ops s) = ss_close s"
    "ss_close_received (fold (context_exec B) ops s) = ss_close_received s"
    "ss_write_error (fold (context_exec B) ops s) = ss_write_error s"
    "ss_read_error (fold (context_exec B) ops s) = ss_read_error s"
    "ss_fault (fold (context_exec B) ops s) = ss_fault s"
    "ss_posted (fold (context_exec B) ops s) = ss_posted s"
    "ss_calls (fold (context_exec B) ops s) = ss_calls s"
    "ss_ping_state (fold (context_exec B) ops s) = ss_ping_state s"
    "cx_header (fold (context_exec B) ops s) = cx_header s"
    "cx_config (fold (context_exec B) ops s) = cx_config s"
  by (induction ops arbitrary: s) simp_all

text \<open>
  What the handler leaves in the context: its last response and whether it asked to close.
\<close>

fun handler_response :: "context_op list \<Rightarrow> u8 list \<Rightarrow> u8 list" where
  "handler_response [] r = r"
| "handler_response (Ctx_response bs # ops) r = handler_response ops bs"
| "handler_response (_ # ops) r = handler_response ops r"

lemma context_run_response:
  fixes s :: "('b, 'h, 'z) server_session_scheme"
  shows "cx_response (fold (context_exec B) ops s) = handler_response ops (cx_response s)"
    and "cx_bound_close (fold (context_exec B) ops s) \<longleftrightarrow> cx_bound_close s \<or> Ctx_close \<in> set ops"
proof (induction ops arbitrary: s)
  case (Cons op ops)
  { case 1 show ?case
      using Cons(1) by (cases op) (simp_all add: session_context_clear_buffer_def session_context_close_def) }
  { case 2 show ?case
      using Cons(2) by (cases op) (simp_all add: session_context_clear_buffer_def session_context_close_def) }
qed simp_all

text \<open>The session as the handler finds it, and the three ways a call ends.\<close>

definition frame_header ::
  "'b flat_buffer \<Rightarrow> endian \<Rightarrow> ('b, 'h, 'z) server_session_scheme \<Rightarrow> io_header" where
  "frame_header B e s = io_header_of_bytes e (fb_bytes B (cx_receive_buffer s))"

definition call_context ::
  "'b flat_buffer \<Rightarrow> endian \<Rightarrow> ('b, 'h, 'z) session_step" where
  "call_context B e s =
     s\<lparr>cx_header := frame_header B e s,
       cx_receive_buffer := fb_consume B (cx_receive_buffer s) sizeof_io_header,
       cx_receive_buffer_ref := fb_bytes B (fb_consume B (cx_receive_buffer s) sizeof_io_header)\<rparr>"

lemma call_context_frame [simp]:
  "ss_queue (call_context B e s) = ss_queue s" "ss_stream (call_context B e s) = ss_stream s"
  "ss_timer (call_context B e s) = ss_timer s" "ss_close (call_context B e s) = ss_close s"
  "ss_close_received (call_context B e s) = ss_close_received s"
  "ss_write_error (call_context B e s) = ss_write_error s"
  "ss_read_error (call_context B e s) = ss_read_error s"
  "ss_fault (call_context B e s) = ss_fault s" "ss_posted (call_context B e s) = ss_posted s"
  "ss_calls (call_context B e s) = ss_calls s" "cx_response (call_context B e s) = cx_response s"
  "cx_bound_close (call_context B e s) = cx_bound_close s"
  "ss_ping_state (call_context B e s) = ss_ping_state s"
  "cx_config (call_context B e s) = cx_config s"
  "cx_header (call_context B e s) = frame_header B e s"
  by (simp_all add: call_context_def)

lemma call_function_short:
  "length (fb_bytes B (cx_receive_buffer s)) < sizeof_io_header \<Longrightarrow>
   call_function B e funcs now s = s\<lparr>cx_receive_buffer_ref := fb_bytes B (cx_receive_buffer s)\<rparr>"
  by (simp add: call_function_def Let_def)

lemma call_function_frame:
  assumes "sizeof_io_header \<le> length (fb_bytes B (cx_receive_buffer s))"
  shows "call_function B e funcs now s =
    (case funcs (call_id (frame_header B e s)) of
       Some (Some f) \<Rightarrow>
         (let s4 = call_context B e s;
              ops = f (context_view s4);
              s5 = fold (context_exec B) ops
                (s4\<lparr>ss_calls := ss_calls s @ [(call_id (frame_header B e s), cx_receive_buffer_ref s4)]\<rparr>);
              r = handler_response ops (cx_response s)
          in if cx_bound_close s \<or> Ctx_close \<in> set ops then server_close_session now s5
             else if r \<noteq> []
             then server_handle_send e
               \<lparr>sp_msg = None, sp_data = \<lparr>dp_header = frame_header B e s, dp_body = r\<rparr>\<rparr>
               (s5\<lparr>cx_response := []\<rparr>)
             else s5)
     | _ \<Rightarrow> call_context B e s)"
  using assms
  by (simp add: call_function_def Let_def frame_header_def call_context_def context_run_response
      data_push_new_def split: option.split)

lemma server_inv_cong:
  assumes "server_inv e s" and "ss_queue t = ss_queue s" and "ss_stream t = ss_stream s"
    and "ss_close t = ss_close s" and "tm_waits (ss_timer t) = tm_waits (ss_timer s)"
    and "ss_fault t = ss_fault s" and "ss_write_error t \<longrightarrow> ss_write_error s" and "cx_response t = []"
  shows "server_inv e t"
  using assms by (auto simp: server_inv_def server_quiet_def sw.one_writer_def)

text \<open>
  The bytes a call leaves in the context do not matter to the invariant: \<open>on_read\<close> clears
  them right after.
\<close>

lemma server_inv_call:
  assumes inv: "server_inv e s"
  shows "server_inv e ((call_function B e funcs now s)\<lparr>cx_response := []\<rparr>)"
proof (cases "sizeof_io_header \<le> length (fb_bytes B (cx_receive_buffer s))")
  case False
  then show ?thesis by (intro server_inv_cong [OF inv]) (simp_all add: call_function_short)
next
  case True
  let ?s5 = "\<lambda>f. fold (context_exec B) (f (context_view (call_context B e s)))
      ((call_context B e s)\<lparr>ss_calls := ss_calls s @ [(call_id (frame_header B e s),
         cx_receive_buffer_ref (call_context B e s))]\<rparr>)"
  have ctx: "server_inv e ((call_context B e s)\<lparr>cx_response := []\<rparr>)"
    by (rule server_inv_cong [OF inv]) simp_all
  have s5: "server_inv e ((?s5 f)\<lparr>cx_response := []\<rparr>)" for f
    by (rule server_inv_cong [OF inv]) simp_all
  have cl: "(server_close_session now t)\<lparr>cx_response := []\<rparr> = server_close_session now (t\<lparr>cx_response := []\<rparr>)"
    for t :: "('a, 'b, 'c) server_session_scheme"
    by (simp add: server_close_session_def server_shutdown_def)
  have hs: "server_inv e (server_handle_send e m t) \<Longrightarrow>
      server_inv e ((server_handle_send e m t)\<lparr>cx_response := []\<rparr>)"
    for m and t :: "('a, 'b, 'c) server_session_scheme"
    by (simp add: server_inv_def server_quiet_def sw.one_writer_def)
  show ?thesis
    unfolding call_function_frame [OF True]
    by (auto simp: Let_def cl split: option.split
        intro!: ctx s5 hs server_inv_close server_inv_handle_send)
qed

lemma server_inv_on_read:
  assumes inv: "server_inv e s" and r: "so_reads (ss_stream s) \<noteq> 0"
  shows "server_inv e (server_exec B e funcs (Sv_read now ec b) s)"
proof -
  let ?s = "s\<lparr>cx_receive_buffer := b, ss_stream := read_done (ss_stream s)\<rparr>"
  have s: "server_inv e ?s" and r0: "so_reads (ss_stream ?s) = 0" and resp: "cx_response ?s = []"
    using inv r by (auto simp: server_inv_def server_quiet_def sw.one_writer_def)
  have err: "server_inv e (?s\<lparr>ss_read_error := True\<rparr>)"
    using resp by (intro server_inv_cong [OF s]) simp_all
  have reads: "so_reads (ss_stream (call_function B e funcs now ?s)) = 0"
  proof (cases "sizeof_io_header \<le> length (fb_bytes B b)")
    case True
    have "so_reads (ss_stream (server_handle_send e m t)) = so_reads (ss_stream t)"
      for m and t :: "('a, 'b, 'c) server_session_scheme"
      by (cases "server_accepts t") (simp_all add: server_send_refused server_send_accepted)
    with True r0 show ?thesis by (simp add: call_function_frame Let_def split: option.split)
  next
    case False
    with r0 show ?thesis by (simp add: call_function_short)
  qed
  have rd: "server_inv e (server_read (t\<lparr>cx_receive_buffer := x, cx_response := []\<rparr>))"
    if "server_inv e (t\<lparr>cx_response := []\<rparr>)" "so_reads (ss_stream t) = 0"
    for t :: "('a, 'b, 'c) server_session_scheme" and x
    using that by (simp add: server_inv_def server_quiet_def sw.one_writer_def server_read_def)
  have "server_inv e (?s\<lparr>cx_response := []\<rparr>)" by (rule server_inv_cong [OF s]) simp_all
  then show ?thesis
    using r0 reads server_inv_call [OF s, of B funcs now]
    by (auto simp: server_on_read_def Let_def err server_inv_close rd simp del: stream_ops_defs)
qed

lemma server_inv_on_write:
  assumes inv: "server_inv e s" and w: "so_writes (ss_stream s) \<noteq> []"
  shows "server_inv e (server_exec B e funcs (Sv_wrote now ec) s)"
proof -
  let ?s = "s\<lparr>ss_stream := write_done (ss_stream s)\<rparr>"
  from inv w obtain m ms where q: "ss_queue ?s = m # ms"
    by (cases "ss_queue s") (auto simp: server_inv_def sw.one_writer_def)
  have f: "server_quiet ?s" using inv by (simp add: server_inv_def server_quiet_def)
  have "sw.one_writer e (server_on_write e now ec ?s)"
    using sw.one_writer_wrote [of e s now ec] inv w by (simp add: server_inv_def)
  moreover have "server_quiet (server_on_write e now ec ?s)"
  proof (cases "server_goes_on ec ?s")
    case True
    with f q show ?thesis by (auto simp: server_wrote_next server_quiet_def split: list.split)
  next
    case False
    with f show ?thesis
      by (auto simp: server_wrote_failed server_quiet_def server_close_session_def server_shutdown_def)
  qed
  ultimately show ?thesis by (simp add: server_inv_def)
qed

lemma server_inv_exec:
  assumes "server_inv e s" and "server_enabled ev s"
  shows "server_inv e (server_exec B e funcs ev s)"
proof (cases ev)
  case Sv_posted
  moreover have "server_inv e (s\<lparr>ss_posted := ms\<rparr>)" for ms
    using assms(1) by (intro server_inv_cong [OF assms(1)]) (auto simp: server_inv_def server_quiet_def)
  ultimately show ?thesis using assms by (auto simp: server_inv_handle_send split: list.split)
next
  case (Sv_read now ec b)
  with assms show ?thesis by (simp add: server_inv_on_read del: server_exec.simps)
next
  case (Sv_wrote now ec)
  with assms show ?thesis by (simp add: server_inv_on_write del: server_exec.simps)
qed (use assms in \<open>auto simp: server_inv_def server_quiet_def sw.one_writer_def Let_def
      server_session_send_def server_on_control_callback_def on_timer_def server_shutdown_def
      server_on_ping_def on_shutdown_def\<close>)

text \<open>
  An established session (\<^verbatim>\<open>session_accept::on_accept\<close>): the timer waits when a ping delay is
  configured and the first read is started.
\<close>

definition arm_timer :: "time_point \<Rightarrow> ('b, 'h, 'z) session_step" where
  "arm_timer now s =
     (if sg_ping_delay (cx_config s) \<noteq> duration_zero
      then s\<lparr>ss_timer := async_wait (expires_after now (sg_ping_delay (cx_config s)) (ss_timer s))\<rparr>
      else s)"

definition server_established ::
  "'b flat_buffer \<Rightarrow> 'h http_fields \<Rightarrow> ('b, 'h) server_session \<Rightarrow> bool" where
  "server_established B H s \<longleftrightarrow>
     (\<exists>i h st sg now. s = server_read (arm_timer now (server_session_new B H i h st sg)))"

lemma server_inv_start:
  assumes "server_inv e s" and "so_reads (ss_stream s) = 0" and "tm_waits (ss_timer s) = 0"
  shows "server_inv e (server_read (arm_timer now s))"
  using assms by (cases "sg_ping_delay (cx_config s) = duration_zero")
    (simp_all add: arm_timer_def server_read_def server_inv_def server_quiet_def sw.one_writer_def)

lemma server_inv_established: "server_established B H s \<Longrightarrow> server_inv e s"
  unfolding server_established_def
  by (auto intro!: server_inv_start server_inv_new) (simp_all add: server_session_new_def)

interpretation server_sys: invariant_system "server_established B H" "server_step B e funcs" "server_inv e"
proof unfold_locales
  show "server_inv e t" if "server_inv e s" "server_step B e funcs s ev t"
    for s t :: "('a, 'b) server_session" and ev
    using that by (auto elim!: server_stepE intro: server_inv_exec)
qed (rule server_inv_established)

section \<open>The order of writes\<close>

text \<open>The response a received frame leads to, and the messages an event makes a session queue.\<close>

definition response_of ::
  "'b flat_buffer \<Rightarrow> endian \<Rightarrow> 'h bound_funcs \<Rightarrow> ('b, 'h, 'z) server_session_scheme \<Rightarrow>
   shared_push list" where
  "response_of B e funcs s =
     (if sizeof_io_header \<le> length (fb_bytes B (cx_receive_buffer s))
      then (case funcs (call_id (frame_header B e s)) of
              Some (Some f) \<Rightarrow>
                (let ops = f (context_view (call_context B e s));
                     r = handler_response ops (cx_response s)
                 in if cx_bound_close s \<or> Ctx_close \<in> set ops \<or> r = [] then []
                    else [\<lparr>sp_msg = None, sp_data = \<lparr>dp_header = frame_header B e s, dp_body = r\<rparr>\<rparr>])
            | _ \<Rightarrow> [])
      else [])"

lemma length_response_of: "length (response_of B e funcs s) \<le> 1"
  by (auto simp: response_of_def Let_def split: option.split)

definition received :: "'b \<Rightarrow> ('b, 'h, 'z) session_step" where
  "received b s = s\<lparr>cx_receive_buffer := b, ss_stream := read_done (ss_stream s)\<rparr>"

fun server_taken ::
  "'b flat_buffer \<Rightarrow> endian \<Rightarrow> 'h bound_funcs \<Rightarrow> 'b server_event \<Rightarrow>
   ('b, 'h, 'z) server_session_scheme \<Rightarrow> shared_push list" where
  "server_taken B e funcs Sv_posted s = (if server_accepts s then take 1 (ss_posted s) else [])"
| "server_taken B e funcs (Sv_read now ec b) s =
     (if so_reads (ss_stream s) \<noteq> 0 \<and> \<not> failed ec \<and> server_accepts s
      then response_of B e funcs (received b s) else [])"
| "server_taken B e funcs _ s = []"

lemma server_accepts_cong:
  "ss_close t = ss_close s \<Longrightarrow> ss_close_received t = ss_close_received s \<Longrightarrow>
   ss_write_error t = ss_write_error s \<Longrightarrow> ss_read_error t = ss_read_error s \<Longrightarrow>
   ss_queue t = ss_queue s \<Longrightarrow> server_accepts t = server_accepts s"
  by (simp add: server_accepts_def)

lemma server_send_keeps [simp]:
  "ss_write_error (server_handle_send e m s) = ss_write_error s"
  "ss_calls (server_handle_send e m s) = ss_calls s"
  "ss_posted (server_handle_send e m s) = ss_posted s"
  "so_reads (ss_stream (server_handle_send e m s)) = so_reads (ss_stream s)"
  "cx_receive_buffer (server_handle_send e m s) = cx_receive_buffer s"
  by (cases "server_accepts s"; simp add: server_send_refused server_send_accepted)+

lemma call_function_queue:
  "ss_queue (call_function B e funcs now s) =
     ss_queue s @ (if server_accepts s then response_of B e funcs s else [])"
  "so_started (ss_stream (call_function B e funcs now s)) =
     so_started (ss_stream s) @
       (if server_accepts s \<and> ss_queue s = [] then map (server_wire_of e) (response_of B e funcs s) else [])"
  "ss_write_error (call_function B e funcs now s) = ss_write_error s"
proof -
  let ?s5 = "\<lambda>f. fold (context_exec B) (f (context_view (call_context B e s)))
      ((call_context B e s)\<lparr>ss_calls := ss_calls s @ [(call_id (frame_header B e s),
         cx_receive_buffer_ref (call_context B e s))]\<rparr>)\<lparr>cx_response := []\<rparr>"
  have acc: "server_accepts (?s5 f) = server_accepts s" for f
    by (rule server_accepts_cong) simp_all
  have q: "ss_queue (server_handle_send e m (?s5 f)) =
        ss_queue s @ (if server_accepts s then [m] else [])" for f m
    using acc [of f] by (cases "server_accepts s") (simp_all add: server_send_refused server_send_accepted)
  have st: "so_started (ss_stream (server_handle_send e m (?s5 f))) =
        so_started (ss_stream s) @ (if server_accepts s \<and> ss_queue s = [] then [server_wire_of e m] else [])" for f m
    using acc [of f] by (cases "server_accepts s") (simp_all add: server_send_refused server_send_accepted)
  show "ss_queue (call_function B e funcs now s) =
      ss_queue s @ (if server_accepts s then response_of B e funcs s else [])"
    by (cases "sizeof_io_header \<le> length (fb_bytes B (cx_receive_buffer s))")
      (auto simp: call_function_frame call_function_short response_of_def Let_def q split: option.split)
  show "so_started (ss_stream (call_function B e funcs now s)) = so_started (ss_stream s) @
      (if server_accepts s \<and> ss_queue s = [] then map (server_wire_of e) (response_of B e funcs s) else [])"
    by (cases "sizeof_io_header \<le> length (fb_bytes B (cx_receive_buffer s))")
      (auto simp: call_function_frame call_function_short response_of_def Let_def st split: option.split)
  show "ss_write_error (call_function B e funcs now s) = ss_write_error s"
    by (cases "sizeof_io_header \<le> length (fb_bytes B (cx_receive_buffer s))")
      (auto simp: call_function_frame call_function_short Let_def split: option.split)
qed

lemma server_read_frame [simp]:
  "ss_queue (server_read s) = ss_queue s" "so_started (ss_stream (server_read s)) = so_started (ss_stream s)"
  "ss_write_error (server_read s) = ss_write_error s"
  by (simp_all add: server_read_def)

lemma server_exec_read:
  "ss_write_error (server_exec B e funcs (Sv_read now ec b) s) = ss_write_error s"
  "so_reads (ss_stream s) \<noteq> 0 \<Longrightarrow> ss_queue (server_exec B e funcs (Sv_read now ec b) s) =
     ss_queue s @ server_taken B e funcs (Sv_read now ec b) s"
  "so_reads (ss_stream s) \<noteq> 0 \<Longrightarrow> so_started (ss_stream (server_exec B e funcs (Sv_read now ec b) s)) =
     so_started (ss_stream s) @
       (if ss_queue s = [] then map (server_wire_of e) (server_taken B e funcs (Sv_read now ec b) s) else [])"
proof -
  have acc: "server_accepts (received b s) = server_accepts s"
    by (rule server_accepts_cong) (simp_all add: received_def)
  have rec [simp]: "ss_queue (received b s) = ss_queue s" "ss_close (received b s) = ss_close s"
    "ss_write_error (received b s) = ss_write_error s" "ss_close_received (received b s) = ss_close_received s"
    "so_started (ss_stream (received b s)) = so_started (ss_stream s)"
    by (simp_all add: received_def)
  have ex: "server_exec B e funcs (Sv_read now ec b) s = server_on_read B e funcs now ec (received b s)"
    by (simp add: received_def)
  have no: "\<not> server_accepts s" if "ss_close s \<or> ss_write_error s \<or> ss_close_received s"
    using that by (auto simp: server_accepts_def)
  show "ss_write_error (server_exec B e funcs (Sv_read now ec b) s) = ss_write_error s"
    unfolding ex by (simp add: server_on_read_def Let_def call_function_queue)
  show "ss_queue (server_exec B e funcs (Sv_read now ec b) s) =
      ss_queue s @ server_taken B e funcs (Sv_read now ec b) s" if "so_reads (ss_stream s) \<noteq> 0"
    using that no unfolding ex by (auto simp: server_on_read_def Let_def call_function_queue acc)
  show "so_started (ss_stream (server_exec B e funcs (Sv_read now ec b) s)) = so_started (ss_stream s) @
      (if ss_queue s = [] then map (server_wire_of e) (server_taken B e funcs (Sv_read now ec b) s) else [])"
    if "so_reads (ss_stream s) \<noteq> 0"
    using that no unfolding ex by (auto simp: server_on_read_def Let_def call_function_queue acc)
qed

text \<open>All other events leave the queue and the writes alone.\<close>

lemma server_exec_other:
  assumes "\<And>now ec b. ev \<noteq> Sv_read now ec b" and "\<And>now ec. ev \<noteq> Sv_wrote now ec" and "ev \<noteq> Sv_posted"
  shows "ss_queue (server_exec B e funcs ev s) = ss_queue s \<and>
     so_started (ss_stream (server_exec B e funcs ev s)) = so_started (ss_stream s) \<and>
     ss_write_error (server_exec B e funcs ev s) = ss_write_error s \<and>
     server_taken B e funcs ev s = []"
  using assms
  by (cases ev) (auto simp: server_session_send_def server_on_control_callback_def on_timer_def
      Let_def server_shutdown_def server_on_ping_def on_shutdown_def)

lemma server_exec_posted:
  assumes "ss_posted s \<noteq> []"
  shows "ss_write_error (server_exec B e funcs Sv_posted s) = ss_write_error s"
    and "sw.outgoing e (server_exec B e funcs Sv_posted s) =
      sw.outgoing e s @ map (server_wire_of e) (server_taken B e funcs Sv_posted s)"
    and "\<not> server_accepts s \<Longrightarrow>
      so_started (ss_stream (server_exec B e funcs Sv_posted s)) = so_started (ss_stream s)"
proof -
  from assms obtain m ms where p: "ss_posted s = m # ms" by (cases "ss_posted s") auto
  have acc: "server_accepts (s\<lparr>ss_posted := ms\<rparr>) = server_accepts s"
    by (rule server_accepts_cong) simp_all
  have o: "sw.outgoing e (s\<lparr>ss_posted := ms\<rparr>) = sw.outgoing e s" by (simp add: sw.outgoing_def)
  show "ss_write_error (server_exec B e funcs Sv_posted s) = ss_write_error s" by (simp add: p)
  show "sw.outgoing e (server_exec B e funcs Sv_posted s) =
      sw.outgoing e s @ map (server_wire_of e) (server_taken B e funcs Sv_posted s)"
    using sw.outgoing_push [of e m "s\<lparr>ss_posted := ms\<rparr>"] by (simp add: p acc o)
  show "so_started (ss_stream (server_exec B e funcs Sv_posted s)) = so_started (ss_stream s)"
    if "\<not> server_accepts s"
    using that acc by (simp add: p server_send_refused)
qed

lemma server_exec_wrote:
  assumes inv: "server_inv e s" and w: "so_writes (ss_stream s) \<noteq> []"
  shows "\<not> ss_write_error s"
    and "server_goes_on ec s \<Longrightarrow> \<not> ss_write_error (server_exec B e funcs (Sv_wrote now ec) s) \<and>
      sw.outgoing e (server_exec B e funcs (Sv_wrote now ec) s) = sw.outgoing e s"
    and "\<not> server_goes_on ec s \<Longrightarrow> ss_write_error (server_exec B e funcs (Sv_wrote now ec) s) \<and>
      so_started (ss_stream (server_exec B e funcs (Sv_wrote now ec) s)) = so_started (ss_stream s)"
proof -
  from inv w obtain m ms where q: "ss_queue s = m # ms"
    by (cases "ss_queue s") (auto simp: server_inv_def sw.one_writer_def)
  with inv show we: "\<not> ss_write_error s" by (auto simp: server_inv_def server_quiet_def)
  have g: "server_goes_on ec (s\<lparr>ss_stream := write_done (ss_stream s)\<rparr>) = server_goes_on ec s"
    by (simp add: server_goes_on_def)
  show "server_goes_on ec s \<Longrightarrow> \<not> ss_write_error (server_exec B e funcs (Sv_wrote now ec) s) \<and>
      sw.outgoing e (server_exec B e funcs (Sv_wrote now ec) s) = sw.outgoing e s"
    using sw.outgoing_wrote [of s ec e now] q g we
    by (auto simp: server_wrote_next split: list.splits)
  show "\<not> server_goes_on ec s \<Longrightarrow> ss_write_error (server_exec B e funcs (Sv_wrote now ec) s) \<and>
      so_started (ss_stream (server_exec B e funcs (Sv_wrote now ec) s)) = so_started (ss_stream s)"
    using g by (simp add: server_wrote_failed)
qed

lemma outgoing_append:
  assumes "ss_queue t = ss_queue s @ ms" and "length ms \<le> 1"
    and "so_started (ss_stream t) = so_started (ss_stream s) @
       (if ss_queue s = [] then map (server_wire_of e) ms else [])"
  shows "sw.outgoing e t = sw.outgoing e s @ map (server_wire_of e) ms"
proof (cases "ss_queue s")
  case Nil
  moreover have "tl ms = []" using assms(2) by (cases ms) auto
  ultimately show ?thesis using assms by (simp add: sw.outgoing_def)
qed (use assms in \<open>simp add: sw.outgoing_def\<close>)

interpretation so: ordered_events "\<lambda>s. so_started (ss_stream s)" "sw.outgoing e" "server_wire_of e"
  ss_write_error server_enabled "server_exec B e funcs" "server_taken B e funcs" "server_inv e"
  for B :: "'b flat_buffer" and e :: endian and funcs :: "'h bound_funcs"
proof (unfold_locales, goal_cases)
  case (1 s ev)
  then show ?case by (rule server_inv_exec)
next
  case (2 ev s)
  then show ?case by (cases ev) auto
next
  case (3 s)
  then show ?case by (auto simp: sw.outgoing_def)
next
  case (4 s ev)
  show ?case
  proof (cases ev)
    case Sv_posted
    with 4 server_exec_posted [where s = s and B = B and e = e and funcs = funcs] show ?thesis by (simp del: server_exec.simps server_taken.simps)
  next
    case (Sv_read now ec b)
    have "length (server_taken B e funcs ev s) \<le> 1" 
      using length_response_of [of B e funcs "received b s"] by (simp add: Sv_read)
    with 4 Sv_read server_exec_read [where s = s and B = B and e = e and funcs = funcs and now = now and ec = ec and b = b]
      outgoing_append [of "server_exec B e funcs ev s" s "server_taken B e funcs ev s" e]
    show ?thesis by (simp del: server_exec.simps server_taken.simps)
  next
    case (Sv_wrote now ec)
    with 4 server_exec_wrote(1) [of e s] server_exec_wrote(2,3) [of e s ec B funcs now] show ?thesis
      by (cases "server_goes_on ec s") (simp_all del: server_exec.simps)
  qed (use 4 server_exec_other [of ev B e funcs s] in \<open>simp_all add: sw.outgoing_def del: server_exec.simps\<close>)
next
  case (5 s ev)
  show ?case
  proof (cases ev)
    case Sv_posted
    with 5 server_exec_posted [where s = s and B = B and e = e and funcs = funcs] have "ss_write_error s" by (simp del: server_exec.simps)
    then have "\<not> server_accepts s" by (simp add: server_accepts_def)
    with 5 Sv_posted server_exec_posted [where s = s and B = B and e = e and funcs = funcs] show ?thesis by (simp del: server_exec.simps)
  next
    case (Sv_read now ec b)
    with 5 server_exec_read(1) [of B e funcs now ec b s] have "ss_write_error s" by (simp del: server_exec.simps)
    then have "\<not> server_accepts s" by (simp add: server_accepts_def)
    with 5 Sv_read server_exec_read(3) [of s B e funcs now ec b] show ?thesis by (simp del: server_exec.simps)
  next
    case (Sv_wrote now ec)
    with 5 server_exec_wrote(1) [of e s] server_exec_wrote(2,3) [of e s ec B funcs now] show ?thesis
      by (cases "server_goes_on ec s") (simp_all del: server_exec.simps)
  qed (use 5 server_exec_other [of ev B e funcs s] in \<open>simp_all del: server_exec.simps\<close>)
qed

lemma server_run_ordered:
  assumes "server_established B H s"
  shows "so.ordered e (so.taken_run B' e funcs evs s) (so.run B' e funcs evs s)"
proof -
  from assms have "ss_queue s = []" "so_started (ss_stream s) = []"
    by (auto simp: server_established_def server_read_def arm_timer_def server_session_new_def)
  then have "so.ordered e [] s" by (simp add: so.ordered_def sw.outgoing_def)
  from so.ordered_run [OF server_inv_established [OF assms] this, of B' funcs evs] show ?thesis by simp
qed

section \<open>Properties\<close>

text \<open>C6: in every reachable state of a server session the stream has at most one write and one read in
  progress and is closed at most once, the timer has at most one wait in progress, the queue is
  bounded, its front is what is being written, and it is never used while empty.\<close>

theorem server_stream_discipline:
  assumes "reachable (server_established B H) (server_step B e funcs) s"
  shows "so_writes (ss_stream s) = map (server_wire_of e) (take 1 (ss_queue s)) \<and>
     length (ss_queue s) \<le> queue_send_max \<and> so_reads (ss_stream s) \<le> 1 \<and>
     so_close_count (ss_stream s) \<le> 1 \<and> tm_waits (ss_timer s) \<le> 1 \<and> \<not> ss_fault s"
  using server_sys.reachable_inv [OF assms]
  by (simp add: server_inv_def server_quiet_def sw.one_writer_def)

abbreviation demo_session :: "duration \<Rightarrow> (u8 list, (string \<times> string) list) server_session" where
  "demo_session d \<equiv> server_read (arm_timer 0 (server_session_new byte_buffer list_http 7 ''host''
      server_timeout_default \<lparr>sg_max_transfer_bytes = 100, sg_ping_delay = d\<rparr>))"

lemma demo_established: "server_established byte_buffer list_http (demo_session d)"
  unfolding server_established_def by (intro exI) (rule refl)

lemma demo_reachable:
  "reachable (server_established byte_buffer list_http) (server_step byte_buffer e funcs) (demo_session d)"
  by (rule reachable.reach_init) (rule demo_established)

theorem server_stream_discipline_witness:
  "length (ss_queue (demo_session 0)) \<le> queue_send_max"
  using server_stream_discipline [OF demo_reachable [of Little "\<lambda>_. None" 0]] by simp

text \<open>C7: a server session starts writes in the order in which it takes messages (responses and
  broadcasts) into its queue, each once: over any run the writes started are a prefix of the
  messages taken, and all of them as long as no write fails once the queue is drained.\<close>

theorem server_writes_in_order:
  assumes "server_established B H s"
  shows "\<exists>k. so_started (ss_stream (so.run B e funcs evs s)) =
       map (server_wire_of e) (take k (so.taken_run B e funcs evs s)) \<and>
     (\<not> ss_write_error (so.run B e funcs evs s) \<longrightarrow>
        so_started (ss_stream (so.run B e funcs evs s)) @
          map (server_wire_of e) (tl (ss_queue (so.run B e funcs evs s))) =
        map (server_wire_of e) (so.taken_run B e funcs evs s))"
  using server_run_ordered [OF assms, of e B funcs evs] by (auto simp: so.ordered_def sw.outgoing_def)

theorem server_writes_in_order_witness:
  "\<exists>k. so_started (ss_stream (so.run byte_buffer Little (\<lambda>_. None)
       [Sv_send \<lparr>sp_msg = None, sp_data = data_push_new (io_header_new 1 2)\<rparr>, Sv_posted] (demo_session 0))) =
     map (server_wire_of Little) (take k (so.taken_run byte_buffer Little (\<lambda>_. None)
       [Sv_send \<lparr>sp_msg = None, sp_data = data_push_new (io_header_new 1 2)\<rparr>, Sv_posted] (demo_session 0)))"
  using server_writes_in_order [OF demo_established [of 0]] by blast

lemma frame_bytes:
  assumes laws: "flat_buffer_laws B" and frame: "fb_bytes B (cx_receive_buffer s) = io_header_bytes e h @ body"
  shows "sizeof_io_header \<le> length (fb_bytes B (cx_receive_buffer s))" "frame_header B e s = h"
    "cx_receive_buffer_ref (call_context B e s) = body"
    "context_view (call_context B e s) =
       \<lparr>cv_id = cx_id s, cv_remote_host = cx_remote_host s, cv_data = body, cv_size = length body,
        cv_config = cx_config s, cv_request_handshake = cx_req_handshake s\<rparr>"
  using laws frame
  by (simp_all add: frame_header_def call_context_def context_view_def session_context_data_def
      session_context_size_def flat_buffer_consume io_header_of_bytes_append)

lemma call_function_calls:
  assumes "flat_buffer_laws B" and "fb_bytes B (cx_receive_buffer s) = io_header_bytes e h @ body"
  shows "ss_calls (call_function B e funcs now s) =
    ss_calls s @ (case funcs (call_id h) of Some (Some f) \<Rightarrow> [(call_id h, body)] | _ \<Rightarrow> [])"
  using frame_bytes [OF assms]
  by (auto simp: call_function_frame Let_def split: option.split)

lemma on_read_next:
  assumes "flat_buffer_laws B" and "\<not> ss_close_received s"
  shows "fb_bytes B (cx_receive_buffer (server_on_read B e funcs now No_error s)) = []"
    "cx_response (server_on_read B e funcs now No_error s) = []"
    "\<not> ss_close s \<Longrightarrow> \<not> ss_write_error s \<Longrightarrow>
       server_on_read B e funcs now No_error s = server_read ((call_function B e funcs now s)\<lparr>
         cx_receive_buffer := fb_consume B (cx_receive_buffer (call_function B e funcs now s))
           (fb_size B (cx_receive_buffer (call_function B e funcs now s))), cx_response := []\<rparr>)"
  using assms by (simp_all add: server_on_read_def Let_def server_read_def flat_buffer_consume_all)

text \<open>C8: a request is answered to its caller: when a frame carries a bound call id, its handler is
  called once, with exactly the bytes after the header, and a non-empty response it leaves is
  queued under the header of the request, so that call id and result id come back unchanged. The
  session then reads on with an empty buffer and an empty response.\<close>

theorem server_response_echoes_header:
  assumes laws: "flat_buffer_laws B"
    and frame: "fb_bytes B (cx_receive_buffer s) = io_header_bytes e h @ body"
    and bound: "funcs (call_id h) = Some (Some f)"
    and ops: "ops = f \<lparr>cv_id = cx_id s, cv_remote_host = cx_remote_host s, cv_data = body,
        cv_size = length body, cv_config = cx_config s, cv_request_handshake = cx_req_handshake s\<rparr>"
    and acc: "server_accepts s" and clean: "cx_response s = []" "\<not> cx_bound_close s"
    and resp: "Ctx_close \<notin> set ops" "handler_response ops [] \<noteq> []"
  shows "ss_queue (server_on_read B e funcs now No_error s) = ss_queue s @
       [\<lparr>sp_msg = None, sp_data = \<lparr>dp_header = h, dp_body = handler_response ops []\<rparr>\<rparr>] \<and>
     ss_calls (server_on_read B e funcs now No_error s) = ss_calls s @ [(call_id h, body)] \<and>
     fb_bytes B (cx_receive_buffer (server_on_read B e funcs now No_error s)) = [] \<and>
     cx_response (server_on_read B e funcs now No_error s) = []"
proof -
  note fr = frame_bytes [OF laws frame]
  have st: "\<not> ss_close s" "\<not> ss_write_error s" "\<not> ss_close_received s"
    using acc by (simp_all add: server_accepts_def)
  have "response_of B e funcs s =
      [\<lparr>sp_msg = None, sp_data = \<lparr>dp_header = h, dp_body = handler_response ops []\<rparr>\<rparr>]"
    using fr bound ops clean resp by (simp add: response_of_def Let_def)
  with acc st on_read_next [OF laws st(3)] call_function_calls [OF laws frame, of funcs now] bound
  show ?thesis by (simp add: call_function_queue server_read_def)
qed

theorem server_response_echoes_header_witness:
  "ss_queue (server_on_read byte_buffer Little (\<lambda>_. Some (Some (\<lambda>v. [Ctx_response (rev (cv_data v))])))
     0 No_error ((demo_session 0)\<lparr>cx_receive_buffer := io_header_bytes Little (io_header_new 3 9) @ [1, 2]\<rparr>)) =
   [\<lparr>sp_msg = None, sp_data = \<lparr>dp_header = io_header_new 3 9, dp_body = [2, 1]\<rparr>\<rparr>]"
  using server_response_echoes_header [of byte_buffer
      "(demo_session 0)\<lparr>cx_receive_buffer := io_header_bytes Little (io_header_new 3 9) @ [1, 2]\<rparr>"
      Little "io_header_new 3 9" "[1, 2]" "\<lambda>_. Some (Some (\<lambda>v. [Ctx_response (rev (cv_data v))]))"
      "\<lambda>v. [Ctx_response (rev (cv_data v))]" "[Ctx_response [2, 1]]" 0]
  by (simp add: server_accepts_def server_read_def arm_timer_def server_session_new_def
      duration_zero_def queue_send_max_def)

text \<open>A handler that asks to close drops its response: nothing is queued, and the session starts to
  close. Without a ping delay the close handshake is started at once; with one, the close is left
  to the timer, whose expiry is moved to now.\<close>

theorem server_close_request_drops_response:
  assumes laws: "flat_buffer_laws B"
    and frame: "fb_bytes B (cx_receive_buffer s) = io_header_bytes e h @ body"
    and bound: "funcs (call_id h) = Some (Some f)"
    and ops: "Ctx_close \<in> set (f (context_view (call_context B e s)))"
    and st: "\<not> ss_close s" "\<not> ss_close_received s" "\<not> ss_write_error s"
  shows "ss_queue (server_on_read B e funcs now No_error s) = ss_queue s \<and>
     cx_response (server_on_read B e funcs now No_error s) = [] \<and>
     (if sg_ping_delay (cx_config s) = duration_zero
      then ss_close (server_on_read B e funcs now No_error s) \<and>
        so_closes (ss_stream (server_on_read B e funcs now No_error s)) = Suc (so_closes (ss_stream s))
      else ss_close (server_on_read B e funcs now No_error s) = ss_close s \<and>
        ss_ping_state (server_on_read B e funcs now No_error s) = Ping_close \<and>
        tm_expiry (ss_timer (server_on_read B e funcs now No_error s)) = sint now)"
proof -
  note fr = frame_bytes [OF laws frame]
  let ?s5 = "fold (context_exec B) (f (context_view (call_context B e s)))
      ((call_context B e s)\<lparr>ss_calls := ss_calls s @ [(call_id h, body)]\<rparr>)"
  have "call_function B e funcs now s = server_close_session now ?s5"
    using fr bound ops by (simp add: call_function_frame Let_def)
  moreover have "ss_close ?s5 = ss_close s" "ss_close_received ?s5 = ss_close_received s"
    "ss_stream ?s5 = ss_stream s" "cx_config ?s5 = cx_config s" by simp_all
  ultimately show ?thesis
    using st on_read_next [OF laws st(2), of e funcs now]
    by (auto simp: server_read_def server_close_session_def server_shutdown_def)
qed

theorem server_close_request_drops_response_witness:
  "ss_queue (server_on_read byte_buffer Little (\<lambda>_. Some (Some (\<lambda>v. [Ctx_response [1], Ctx_close])))
     0 No_error ((demo_session 0)\<lparr>cx_receive_buffer := io_header_bytes Little (io_header_new 3 9) @ [1, 2]\<rparr>)) = []"
  using server_close_request_drops_response [of byte_buffer
      "(demo_session 0)\<lparr>cx_receive_buffer := io_header_bytes Little (io_header_new 3 9) @ [1, 2]\<rparr>"
      Little "io_header_new 3 9" "[1, 2]" "\<lambda>_. Some (Some (\<lambda>v. [Ctx_response [1], Ctx_close]))"
      "\<lambda>v. [Ctx_response [1], Ctx_close]" 0]
  by (simp add: server_read_def arm_timer_def server_session_new_def duration_zero_def)

text \<open>A frame that is shorter than a header, or whose call id is not bound (or bound to an empty
  function), is dropped: no handler is called, nothing is queued or closed, and the session reads
  on with an empty buffer.\<close>

theorem server_ignores_unbound_frames:
  assumes laws: "flat_buffer_laws B" and st: "\<not> ss_close_received s"
    and frame: "length (fb_bytes B (cx_receive_buffer s)) < sizeof_io_header \<or>
      (\<forall>f. funcs (call_id (io_header_of_bytes e (fb_bytes B (cx_receive_buffer s)))) \<noteq> Some (Some f))"
    and t: "t = server_on_read B e funcs now No_error s"
  shows "ss_calls t = ss_calls s \<and> ss_queue t = ss_queue s \<and> ss_close t = ss_close s \<and>
     ss_ping_state t = ss_ping_state s \<and> fb_bytes B (cx_receive_buffer t) = [] \<and>
     ss_stream t = async_read (ss_stream s)"
proof -
  have "\<exists>c. call_function B e funcs now s = s\<lparr>cx_receive_buffer_ref := c\<rparr> \<or>
      call_function B e funcs now s = call_context B e s"
    using frame
    by (cases "length (fb_bytes B (cx_receive_buffer s)) < sizeof_io_header")
      (auto simp: call_function_short call_function_frame frame_header_def split: option.split)
  then show ?thesis
    using st laws unfolding t
    by (auto simp: server_on_read_def Let_def server_read_def flat_buffer_consume_all
        simp del: stream_ops_defs)
qed

theorem server_ignores_unbound_frames_witness:
  "ss_queue (server_on_read byte_buffer Big (\<lambda>_. None) 0 No_error
     ((demo_session 0)\<lparr>cx_receive_buffer := [1, 2, 3]\<rparr>)) = []"
  using server_ignores_unbound_frames [of byte_buffer "(demo_session 0)\<lparr>cx_receive_buffer := [1, 2, 3]\<rparr>"
      "\<lambda>_. None" Big "server_on_read byte_buffer Big (\<lambda>_. None) 0 No_error
     ((demo_session 0)\<lparr>cx_receive_buffer := [1, 2, 3]\<rparr>)" 0]
  by (simp add: server_read_def arm_timer_def server_session_new_def)

section \<open>The ping timer\<close>

text \<open>The time at which the handler of an event runs, where the handler looks at the clock.\<close>

fun event_time :: "'b server_event \<Rightarrow> time_point option" where
  "event_time (Sv_read now ec b) = Some now"
| "event_time (Sv_wrote now ec) = Some now"
| "event_time (Sv_control now kind) = Some now"
| "event_time (Sv_timer now is_open ec) = Some now"
| "event_time _ = None"

fun timer_free :: "'b server_event \<Rightarrow> bool" where
  "timer_free (Sv_control now kind) \<longleftrightarrow> False"
| "timer_free (Sv_timer now is_open ec) \<longleftrightarrow> False"
| "timer_free _ \<longleftrightarrow> True"

text \<open>The session waits for an answer to its ping, or for its close, until \<open>now\<close> at most.\<close>

definition awaiting :: "time_point \<Rightarrow> ('b, 'h, 'z) server_session_scheme \<Rightarrow> bool" where
  "awaiting now s \<longleftrightarrow> ss_ping_state s \<noteq> Ping_next \<and> tm_expiry (ss_timer s) \<le> sint now \<and>
     tm_waits (ss_timer s) \<noteq> 0 \<and> \<not> ss_close_received s \<and> sg_ping_delay (cx_config s) \<noteq> duration_zero"

lemma awaiting_close:
  "awaiting now s \<Longrightarrow> sint t \<le> sint now \<Longrightarrow> awaiting now (server_close_session t s)"
  by (simp add: awaiting_def server_close_session_def)

lemma awaiting_cong:
  assumes "awaiting now s" and "ss_ping_state t = ss_ping_state s" and "ss_timer t = ss_timer s"
    and "ss_close_received t = ss_close_received s" and "cx_config t = cx_config s"
  shows "awaiting now t"
  using assms by (simp add: awaiting_def)

lemma send_frame_timer [simp]:
  "ss_ping_state (server_handle_send e m s) = ss_ping_state s"
  "ss_timer (server_handle_send e m s) = ss_timer s"
  "ss_close_received (server_handle_send e m s) = ss_close_received s"
  "cx_config (server_handle_send e m s) = cx_config s"
  by (cases "server_accepts s"; simp add: server_send_refused server_send_accepted)+

lemma write_frame_timer [simp]:
  "ss_ping_state (server_write e s) = ss_ping_state s" "ss_timer (server_write e s) = ss_timer s"
  "ss_close_received (server_write e s) = ss_close_received s"
  "cx_config (server_write e s) = cx_config s"
  by (simp_all add: server_write_def split: list.split)

lemma awaiting_call:
  assumes "awaiting now s" and "sint t \<le> sint now"
  shows "awaiting now (call_function B e funcs t s)"
proof (cases "sizeof_io_header \<le> length (fb_bytes B (cx_receive_buffer s))")
  case True
  have "awaiting now (call_context B e s)" by (rule awaiting_cong [OF assms(1)]) simp_all
  moreover have "awaiting now (fold (context_exec B) ops ((call_context B e s)\<lparr>ss_calls := c\<rparr>))" for ops c
    by (rule awaiting_cong [OF assms(1)]) simp_all
  moreover have "awaiting now u \<Longrightarrow> awaiting now (server_handle_send e m (u\<lparr>cx_response := []\<rparr>))"
    for m and u :: "('a, 'b, 'c) server_session_scheme"
    by (erule awaiting_cong) simp_all
  ultimately show ?thesis
    using assms(2) by (auto simp: call_function_frame [OF True] Let_def intro: awaiting_close split: option.split)
next
  case False
  with assms show ?thesis by (auto simp: call_function_short intro: awaiting_cong)
qed

lemma awaiting_exec:
  assumes aw: "awaiting now s" and free: "timer_free ev"
    and time: "\<And>t. event_time ev = Some t \<Longrightarrow> sint t \<le> sint now"
  shows "awaiting now (server_exec B e funcs ev s)"
proof (cases ev)
  case (Sv_send m)
  with aw show ?thesis by (auto simp: server_session_send_def intro: awaiting_cong)
next
  case Sv_posted
  with aw show ?thesis by (auto intro: awaiting_cong split: list.split)
next
  case (Sv_read t ec b)
  let ?s = "s\<lparr>cx_receive_buffer := b, ss_stream := read_done (ss_stream s)\<rparr>"
  have s: "awaiting now ?s" "awaiting now (?s\<lparr>ss_read_error := True\<rparr>)"
    by (rule awaiting_cong [OF aw], simp_all)+
  have "awaiting now u \<Longrightarrow> awaiting now (server_read (u\<lparr>cx_receive_buffer := x, cx_response := []\<rparr>))"
    for x and u :: "('a, 'b, 'c) server_session_scheme"
    by (erule awaiting_cong) (simp_all add: server_read_def)
  with s Sv_read time show ?thesis
    using awaiting_call [OF s(1), of t B e funcs] awaiting_close [OF s(2), of t]
    by (simp add: server_on_read_def Let_def del: stream_ops_defs)
next
  case (Sv_wrote t ec)
  let ?s = "s\<lparr>ss_stream := write_done (ss_stream s)\<rparr>"
  have "awaiting now (?s\<lparr>ss_write_error := True, ss_queue := []\<rparr>)"
    by (rule awaiting_cong [OF aw]) simp_all
  moreover have "awaiting now (?s\<lparr>ss_fault := True\<rparr>)" "awaiting now (?s\<lparr>ss_queue := q\<rparr>)"
    "awaiting now (server_write e (?s\<lparr>ss_queue := q\<rparr>))" for q
    by (rule awaiting_cong [OF aw], simp_all)+
  ultimately show ?thesis
    using Sv_wrote time
    by (auto simp: server_on_write_def Let_def awaiting_close simp del: stream_ops_defs split: list.split)
qed (use aw free in \<open>auto simp: server_on_ping_def on_shutdown_def intro: awaiting_cong\<close>)

lemma awaiting_run:
  assumes "awaiting now s" and "\<forall>ev \<in> set evs. timer_free ev"
    and "\<forall>ev \<in> set evs. \<forall>t. event_time ev = Some t \<longrightarrow> sint t \<le> sint now"
  shows "awaiting now (so.run B e funcs evs s)"
  using assms by (induction evs arbitrary: s) (simp_all add: awaiting_exec)

text \<open>C31: a client that does not answer is disconnected: once the timer has sent a ping, and until its
  next expiry no control frame arrives, the expiry starts the close, whatever else the session
  sends and receives in between, and the timer is not armed again.\<close>

theorem unanswered_ping_closes:
  assumes waits: "tm_waits (ss_timer s) = 1" and state: "ss_ping_state s = Ping_next"
    and up: "\<not> ss_close_received s" and delay: "sg_ping_delay (cx_config s) \<noteq> duration_zero"
    and exp1: "tm_expiry (ss_timer s) \<le> sint now1"
    and exp2: "sint now1 + sint (sg_ping_delay (cx_config s)) \<le> sint now2"
    and quiet: "\<forall>ev \<in> set evs. timer_free ev"
    and times: "\<forall>ev \<in> set evs. \<forall>t. event_time ev = Some t \<longrightarrow> sint t \<le> sint now2"
    and s1: "s1 = server_exec B e funcs (Sv_timer now1 True No_error) s"
    and s2: "s2 = server_exec B e funcs (Sv_timer now2 is_open No_error) (so.run B e funcs evs s1)"
  shows "so_pings (ss_stream s1) = Suc (so_pings (ss_stream s)) \<and> ss_close s2 \<and>
     Suc (tm_waits (ss_timer s2)) = tm_waits (ss_timer (so.run B e funcs evs s1))"
proof -
  have "s1 = s\<lparr>ss_ping_state := Ping_send, ss_stream := async_ping (ss_stream s),
      ss_timer := \<lparr>tm_expiry = sint now1 + sint (sg_ping_delay (cx_config s)), tm_waits = 1\<rparr>\<rparr>"
    using waits state exp1 by (cases "ss_timer s") (simp add: s1 on_timer_def Let_def)
  then have "awaiting now2 s1" and p: "so_pings (ss_stream s1) = Suc (so_pings (ss_stream s))"
    using up delay exp2 by (simp_all add: awaiting_def)
  from awaiting_run [OF this(1) quiet times, of B e funcs]
  have "awaiting now2 (so.run B e funcs evs s1)" .
  with p show ?thesis by (simp add: s2 on_timer_def awaiting_def Let_def server_shutdown_def)
qed

theorem unanswered_ping_closes_witness:
  "ss_close (server_exec byte_buffer Little (\<lambda>_. None) (Sv_timer 20 True No_error)
     (so.run byte_buffer Little (\<lambda>_. None) [Sv_pinged No_error, Sv_read 15 No_error [1]]
       (server_exec byte_buffer Little (\<lambda>_. None) (Sv_timer 10 True No_error) (demo_session 10))))"
  using unanswered_ping_closes [of "demo_session 10" 10 20 "[Sv_pinged No_error, Sv_read 15 No_error [1]]"
      "server_exec byte_buffer Little (\<lambda>_. None) (Sv_timer 10 True No_error) (demo_session 10)"
      byte_buffer Little "\<lambda>_. None" _ True, OF _ _ _ _ _ _ _ _ refl refl]
  by (simp add: server_read_def arm_timer_def server_session_new_def duration_zero_def
      del: so.run.simps server_exec.simps)

text \<open>With a ping delay a request to close is only a mark for the timer, and a ping or pong frame
  that arrives before the timer's handler runs takes it back: the handler finds an expiry in the
  future, arms the timer again and the session stays open.\<close>

theorem control_frame_cancels_close:
  assumes waits: "tm_waits (ss_timer s) \<noteq> 0" and open_: "\<not> ss_close s"
    and delay: "sg_ping_delay (cx_config s) \<noteq> duration_zero"
    and kind: "kind = Frame_ping \<or> kind = Frame_pong"
    and early: "sint now3 < sint now2 + sint (sg_ping_delay (cx_config s))"
    and t: "t = server_exec B e funcs (Sv_timer now3 is_open Operation_aborted)
       (server_exec B e funcs (Sv_control now2 kind) (server_close_session now1 s))"
  shows "\<not> ss_close t \<and> ss_ping_state t = Ping_next \<and>
     so_closes (ss_stream t) = so_closes (ss_stream s) \<and>
     tm_waits (ss_timer t) = tm_waits (ss_timer s) \<and>
     tm_expiry (ss_timer t) = sint now3 + sint (sg_ping_delay (cx_config s))"
  using waits open_ delay kind early
  by (auto simp: t server_close_session_def server_on_control_callback_def on_timer_def Let_def)

theorem control_frame_cancels_close_witness:
  "\<not> ss_close (server_exec byte_buffer Little (\<lambda>_. None) (Sv_timer 7 True Operation_aborted)
     (server_exec byte_buffer Little (\<lambda>_. None) (Sv_control 6 Frame_pong)
       (server_close_session 5 (demo_session 10))))"
  using control_frame_cancels_close [of "demo_session 10" Frame_pong 7 6
      "server_exec byte_buffer Little (\<lambda>_. None) (Sv_timer 7 True Operation_aborted)
       (server_exec byte_buffer Little (\<lambda>_. None) (Sv_control 6 Frame_pong)
         (server_close_session 5 (demo_session 10)))" byte_buffer Little "\<lambda>_. None" True 5]
  by (simp add: server_read_def arm_timer_def server_session_new_def duration_zero_def
      del: server_exec.simps)

text \<open>A server session can have two pings in progress at once, which the stream does not allow:
  a ping frame from the client makes the timer send its next ping although the write of the
  first has not completed.\<close>

theorem pings_can_overlap:
  "\<exists>s. reachable (server_established byte_buffer list_http) (server_step byte_buffer e funcs) s \<and>
     so_pings (ss_stream s) = 2"
proof -
  let ?s = "so.run byte_buffer e funcs
      [Sv_timer 10 True No_error, Sv_control 11 Frame_ping, Sv_timer 21 True No_error] (demo_session 10)"
  have run: "reachable (server_established byte_buffer list_http) (server_step byte_buffer e funcs) s \<Longrightarrow>
      reachable (server_established byte_buffer list_http) (server_step byte_buffer e funcs)
        (so.run byte_buffer e funcs evs s)" for evs s
    by (induction evs arbitrary: s) (auto intro: reachable.reach_step server_stepI)
  have "so_pings (ss_stream ?s) = 2"
    by (simp add: server_read_def arm_timer_def server_session_new_def duration_zero_def on_timer_def
        server_on_control_callback_def Let_def)
  with run [OF demo_reachable] show ?thesis by blast
qed

end
