(* ===== verification/Session_Manager.thy ===== *)
theory Session_Manager
  imports Server_Session
begin

text \<open>
  \<^verbatim>\<open>session_manager\<close> of \<^verbatim>\<open>include/radrpc/impl/server/server_session.hpp\<close>: the tables of the
  established sessions, broadcasting, and counting the sessions by counting the references to
  the manager.
\<close>

section \<open>The manager\<close>

text \<open>What the handlers for accepted and disconnected sessions see of a session.\<close>

record 'h session_info =
  si_id :: u64
  si_remote_host :: string
  si_request_handshake :: 'h
  si_response_handshake :: 'h
  si_config :: session_config

text \<open>
  The tables hold weak references: a session object is named by a number of its own, which is not
  used again when it is gone. The accept handler may change the session's configuration and
  its response; it answers whether to accept.
\<close>

record 'h session_manager =
  sm_sub_refs :: int
  sm_msg_queued :: int
  sm_plain_sessions :: "(u64 \<times> nat) list"
  sm_ssl_sessions :: "(u64 \<times> nat) list"
  sm_server_cfg :: server_config
  sm_bound_funcs :: "(u32 \<times> 'h bound_handler option) list"
  sm_on_accept :: "('h session_info \<Rightarrow> bool \<times> session_config \<times> 'h) option"
  sm_on_listen :: "(string \<Rightarrow> bool) option"
  sm_on_disconnect :: bool

definition session_manager_new :: "server_config \<Rightarrow> 'h session_manager" where
  "session_manager_new p_server_cfg =
     \<lparr>sm_sub_refs = 0, sm_msg_queued = 0, sm_plain_sessions = [], sm_ssl_sessions = [],
      sm_server_cfg = p_server_cfg, sm_bound_funcs = [], sm_on_accept = None, sm_on_listen = None,
      sm_on_disconnect = False\<rparr>"

definition on_msg_sent :: "'h session_manager \<Rightarrow> 'h session_manager" where
  "on_msg_sent m = m\<lparr>sm_msg_queued := sm_msg_queued m - 1\<rparr>"

text \<open>\<^verbatim>\<open>set_subtract_refs()\<close>: a second call fails its assertion.\<close>

definition set_subtract_refs :: "int \<Rightarrow> 'h session_manager \<Rightarrow> 'h session_manager option" where
  "set_subtract_refs use_count m =
     (if sm_sub_refs m = 0 then Some (m\<lparr>sm_sub_refs := use_count\<rparr>) else None)"

definition manager_connections :: "int \<Rightarrow> 'h session_manager \<Rightarrow> int" where
  "manager_connections use_count m = max (use_count - sm_sub_refs m) 0"

definition manager_is_full :: "int \<Rightarrow> 'h session_manager \<Rightarrow> bool" where
  "manager_is_full use_count m \<longleftrightarrow> uint (sc_max_sessions (sm_server_cfg m)) \<le> manager_connections use_count m"

definition add_plain_session :: "u64 \<Rightarrow> nat \<Rightarrow> 'h session_manager \<Rightarrow> 'h session_manager" where
  "add_plain_session i k m = m\<lparr>sm_plain_sessions := AList.update i k (sm_plain_sessions m)\<rparr>"

definition remove_plain_session :: "u64 \<Rightarrow> 'h session_manager \<Rightarrow> 'h session_manager" where
  "remove_plain_session i m =
     (case map_of (sm_plain_sessions m) i of
        None \<Rightarrow> m
      | Some k \<Rightarrow> m\<lparr>sm_plain_sessions := AList.delete i (sm_plain_sessions m)\<rparr>)"

definition add_ssl_session :: "u64 \<Rightarrow> nat \<Rightarrow> 'h session_manager \<Rightarrow> 'h session_manager" where
  "add_ssl_session i k m = m\<lparr>sm_ssl_sessions := AList.update i k (sm_ssl_sessions m)\<rparr>"

definition remove_ssl_session :: "u64 \<Rightarrow> 'h session_manager \<Rightarrow> 'h session_manager" where
  "remove_ssl_session i m =
     (case map_of (sm_ssl_sessions m) i of
        None \<Rightarrow> m
      | Some k \<Rightarrow> m\<lparr>sm_ssl_sessions := AList.delete i (sm_ssl_sessions m)\<rparr>)"

definition get_session_ids :: "'h session_manager \<Rightarrow> u64 list" where
  "get_session_ids m = map fst (sm_plain_sessions m) @ map fst (sm_ssl_sessions m)"

subsection \<open>The tables\<close>

locale session_table =
  fixes tab :: "'m \<Rightarrow> (u64 \<times> nat) list"
    and add :: "u64 \<Rightarrow> nat \<Rightarrow> 'm \<Rightarrow> 'm"
    and remove :: "u64 \<Rightarrow> 'm \<Rightarrow> 'm"
  assumes tab_add: "tab (add i k m) = AList.update i k (tab m)"
    and tab_remove: "tab (remove i m) = AList.delete i (tab m)"
begin

lemma find_add: "map_of (tab (add i k m)) = (map_of (tab m))(i \<mapsto> k)"
  by (simp add: tab_add update_conv')

lemma find_remove: "map_of (tab (remove i m)) = (map_of (tab m))(i := None)"
  by (simp add: tab_remove delete_conv')

lemma add_remove:
  "i \<notin> dom (map_of (tab m)) \<Longrightarrow> map_of (tab (remove i (add i k m))) = map_of (tab m)"
  by (auto simp: find_add find_remove fun_eq_iff domIff)

lemma distinct_add: "distinct_keys (tab m) \<Longrightarrow> distinct_keys (tab (add i k m))"
  by (simp add: tab_add)

lemma distinct_remove: "distinct_keys (tab m) \<Longrightarrow> distinct_keys (tab (remove i m))"
  by (simp add: tab_remove)

end

lemma delete_absent: "map_of al k = None \<Longrightarrow> AList.delete k al = al"
  by (induction al) (auto split: if_splits)

interpretation plain_tab: session_table sm_plain_sessions add_plain_session remove_plain_session
  by unfold_locales
    (auto simp: add_plain_session_def remove_plain_session_def delete_absent split: option.split)

interpretation ssl_tab: session_table sm_ssl_sessions add_ssl_session remove_ssl_session
  by unfold_locales
    (auto simp: add_ssl_session_def remove_ssl_session_def delete_absent split: option.split)

section \<open>The objects around the manager\<close>

text \<open>
  The manager is shared: \<open>pl_refs\<close> counts the references of the server and the listener, every
  session object holds one, and so does the deleter of every broadcast message. \<open>pl_messages\<close> are
  the broadcast messages that exist; a message goes away, through its deleter, with its last
  reference from a queue or a posted handler.
\<close>

record ('b, 'h, 'z) session_pool =
  pl_manager :: "'h session_manager"
  pl_refs :: nat
  pl_sessions :: "(nat \<times> ('b, 'h, 'z) server_session_scheme) list"
  pl_messages :: "nat list"
  pl_next_message :: nat

text \<open>\<^verbatim>\<open>shared_from_this().use_count()\<close> counts its own temporary reference too.\<close>

definition use_count :: "('b, 'h, 'z) session_pool \<Rightarrow> int" where
  "use_count p = int (pl_refs p + length (pl_sessions p) + length (pl_messages p) + 1)"

definition connections :: "('b, 'h, 'z) session_pool \<Rightarrow> int" where
  "connections p = manager_connections (use_count p) (pl_manager p)"

definition is_full :: "('b, 'h, 'z) session_pool \<Rightarrow> bool" where
  "is_full p \<longleftrightarrow> manager_is_full (use_count p) (pl_manager p)"

definition session_msgs :: "('b, 'h, 'z) server_session_scheme \<Rightarrow> nat list" where
  "session_msgs s = List.map_filter sp_msg (ss_posted s @ ss_queue s)"

definition referenced :: "('b, 'h, 'z) session_pool \<Rightarrow> nat \<Rightarrow> bool" where
  "referenced p i \<longleftrightarrow> list_ex (\<lambda>(k, s). i \<in> set (session_msgs s)) (pl_sessions p)"

text \<open>The deleter of every message that has lost its last reference.\<close>

definition release :: "('b, 'h, 'z) session_pool \<Rightarrow> ('b, 'h, 'z) session_pool" where
  "release p =
     p\<lparr>pl_manager := (on_msg_sent ^^ length (filter (\<lambda>i. \<not> referenced p i) (pl_messages p))) (pl_manager p),
       pl_messages := filter (referenced p) (pl_messages p)\<rparr>"

subsection \<open>Broadcasting\<close>

text \<open>The sessions of a table with the given ids: \<^verbatim>\<open>emplace\<close> keeps the first of equal keys.\<close>

fun select_sessions :: "u64 list \<Rightarrow> (u64 \<times> nat) list \<Rightarrow> (u64 \<times> nat) list \<Rightarrow> (u64 \<times> nat) list" where
  "select_sessions [] tab tmp = tmp"
| "select_sessions (i # is) tab tmp =
     (case map_of tab i of
        None \<Rightarrow> select_sessions is tab tmp
      | Some k \<Rightarrow>
          select_sessions is tab (if map_of tmp i = None then tmp @ [(i, k)] else tmp))"

definition target_sessions :: "u64 list option \<Rightarrow> (u64 \<times> nat) list \<Rightarrow> (u64 \<times> nat) list" where
  "target_sessions session_ids tab =
     (case session_ids of Some is \<Rightarrow> select_sessions is tab [] | None \<Rightarrow> tab)"

definition send_to ::
  "shared_push \<Rightarrow> u64 \<times> nat \<Rightarrow> (nat \<times> ('b, 'h, 'z) server_session_scheme) list \<Rightarrow>
   (nat \<times> ('b, 'h, 'z) server_session_scheme) list" where
  "send_to push w ss =
     (case map_of ss (snd w) of
        None \<Rightarrow> ss
      | Some s \<Rightarrow> AList.update (snd w) (server_session_send push s) ss)"

definition manager_broadcast ::
  "u32 \<Rightarrow> u8 list \<Rightarrow> u64 list option \<Rightarrow> ('b, 'h, 'z) session_pool \<Rightarrow> ('b, 'h, 'z) session_pool" where
  "manager_broadcast cid send_bytes session_ids p =
     (let m = pl_manager p in
      if int queue_send_max \<le> sm_msg_queued m then p
      else if connections p = 0 then p
      else
        (let i = pl_next_message p;
             push = \<lparr>sp_msg = Some i, sp_data = (data_push_new (io_header_new cid 0))\<lparr>dp_body := send_bytes\<rparr>\<rparr>;
             p1 = p\<lparr>pl_manager := m\<lparr>sm_msg_queued := sm_msg_queued m + 1\<rparr>,
                    pl_messages := pl_messages p @ [i], pl_next_message := Suc i\<rparr>;
             p2 = p1\<lparr>pl_sessions :=
                   fold (send_to push) (target_sessions session_ids (sm_plain_sessions m)) (pl_sessions p1)\<rparr>;
             p3 = p2\<lparr>pl_sessions :=
                   fold (send_to push) (target_sessions session_ids (sm_ssl_sessions m)) (pl_sessions p2)\<rparr>
         in release p3))"

section \<open>Invariant\<close>

text \<open>
  The counter of queued messages is the number of messages that exist, each message is held by
  some session, and every reference in a session is to a message that exists. \<open>pool_pre\<close> is the
  same before the messages without a reference are released.
\<close>

definition pool_pre :: "('b, 'h, 'z) session_pool \<Rightarrow> bool" where
  "pool_pre p \<longleftrightarrow>
     distinct_keys (pl_sessions p) \<and> distinct (pl_messages p) \<and>
     (\<forall>i \<in> set (pl_messages p). i < pl_next_message p) \<and>
     (\<forall>i. referenced p i \<longrightarrow> i \<in> set (pl_messages p)) \<and>
     sm_msg_queued (pl_manager p) = int (length (pl_messages p)) \<and>
     length (pl_messages p) \<le> queue_send_max \<and>
     sm_sub_refs (pl_manager p) = int (pl_refs p) + 1"

definition pool_inv :: "('b, 'h, 'z) session_pool \<Rightarrow> bool" where
  "pool_inv p \<longleftrightarrow> pool_pre p \<and> (\<forall>i \<in> set (pl_messages p). referenced p i)"

lemma on_msg_sent_pow: "(on_msg_sent ^^ n) m = m\<lparr>sm_msg_queued := sm_msg_queued m - int n\<rparr>"
  by (induction n) (simp_all add: on_msg_sent_def)

lemma referenced_release [simp]: "referenced (release p) = referenced p"
  by (simp add: referenced_def release_def fun_eq_iff)

lemma release_frame [simp]:
  "pl_sessions (release p) = pl_sessions p" "pl_refs (release p) = pl_refs p"
  "pl_next_message (release p) = pl_next_message p"
  "pl_messages (release p) = filter (referenced p) (pl_messages p)"
  "sm_plain_sessions (pl_manager (release p)) = sm_plain_sessions (pl_manager p)"
  "sm_ssl_sessions (pl_manager (release p)) = sm_ssl_sessions (pl_manager p)"
  "sm_sub_refs (pl_manager (release p)) = sm_sub_refs (pl_manager p)"
  "sm_server_cfg (pl_manager (release p)) = sm_server_cfg (pl_manager p)"
  "sm_bound_funcs (pl_manager (release p)) = sm_bound_funcs (pl_manager p)"
  "sm_on_accept (pl_manager (release p)) = sm_on_accept (pl_manager p)"
  "sm_on_listen (pl_manager (release p)) = sm_on_listen (pl_manager p)"
  "sm_on_disconnect (pl_manager (release p)) = sm_on_disconnect (pl_manager p)"
  by (simp_all add: release_def on_msg_sent_pow)

lemma pool_inv_release:
  assumes "pool_pre p"
  shows "pool_inv (release p)"
proof -
  have "length (filter (referenced p) (pl_messages p)) +
      length (filter (\<lambda>i. \<not> referenced p i) (pl_messages p)) = length (pl_messages p)"
    by (rule sum_length_filter_compl)
  with assms show ?thesis
    by (auto simp: pool_inv_def pool_pre_def) (auto simp: release_def on_msg_sent_pow)
qed

lemma referenced_iff: "referenced p i \<longleftrightarrow> (\<exists>(k, s) \<in> set (pl_sessions p). i \<in> set (session_msgs s))"
  by (auto simp: referenced_def list_ex_iff)

lemma session_msgs_iff:
  "i \<in> set (session_msgs s) \<longleftrightarrow> (\<exists>m \<in> set (ss_posted s) \<union> set (ss_queue s). sp_msg m = Some i)"
  by (force simp: session_msgs_def List.map_filter_def)

subsection \<open>Sending to the sessions of a table\<close>

lemma send_to_keys [simp]: "map fst (send_to push w ss) = map fst ss"
proof (cases "map_of ss (snd w)")
  case (Some s)
  then have "snd w \<in> fst ` set ss" by (force dest: map_of_SomeD)
  with Some show ?thesis by (simp add: send_to_def update_keys)
qed (simp add: send_to_def)

lemma send_all_keys [simp]: "map fst (fold (send_to push) ws ss) = map fst ss"
  by (induction ws arbitrary: ss) simp_all

lemma send_all_length [simp]: "length (fold (send_to push) ws ss) = length ss"
  using send_all_keys [of push ws ss] by (metis length_map)

lemma send_all_distinct [simp]: "distinct_keys (fold (send_to push) ws ss) = distinct_keys ss"
  by (simp add: distinct_keys_def)

lemma map_of_send_to:
  "map_of (send_to push w ss) k =
     (if k = snd w then map_option (server_session_send push) (map_of ss k) else map_of ss k)"
  by (auto simp: send_to_def update_conv' split: option.split)

lemma map_of_send_all:
  "distinct (map snd ws) \<Longrightarrow> map_of (fold (send_to push) ws ss) k =
     (if k \<in> snd ` set ws then map_option (server_session_send push) (map_of ss k) else map_of ss k)"
  by (induction ws arbitrary: ss) (auto simp: map_of_send_to)

lemma map_of_send_all_cases:
  "map_of (fold (send_to push) ws ss) k = Some t \<Longrightarrow>
   \<exists>s. map_of ss k = Some s \<and> set (session_msgs t) \<subseteq> set (session_msgs s) \<union> set_option (sp_msg push)"
proof (induction ws arbitrary: ss)
  case Nil
  then show ?case by auto
next
  case (Cons w ws)
  then obtain s where s: "map_of (send_to push w ss) k = Some s"
      "set (session_msgs t) \<subseteq> set (session_msgs s) \<union> set_option (sp_msg push)" by auto
  from s(1) obtain s0 where "map_of ss k = Some s0" "s = s0 \<or> s = server_session_send push s0"
    by (auto simp: map_of_send_to split: if_splits)
  with s(2) show ?case by (auto simp: session_msgs_iff server_session_send_def)
qed

lemma select_sessions_set:
  "set (select_sessions is tab tmp) =
     set tmp \<union> {(i, k). i \<in> set is \<and> map_of tab i = Some k \<and> map_of tmp i = None}"
proof (induction "is" arbitrary: tmp)
  case Nil
  then show ?case by simp
next
  case (Cons i "is")
  then show ?case
    by (cases "map_of tab i"; cases "map_of tmp i")
      (auto simp: map_add_def split: option.splits if_splits)
qed

lemma distinct_snd_inject:
  "(i, k) \<in> set al \<Longrightarrow> distinct (map snd al) \<Longrightarrow> (j, k) \<in> set al \<Longrightarrow> j = i"
  by (induction al) (auto simp: image_iff)

lemma select_sessions_distinct:
  assumes "distinct (map snd tab)"
  shows "distinct (map snd tmp) \<Longrightarrow> set tmp \<subseteq> set tab \<Longrightarrow> distinct_keys tab \<Longrightarrow>
    distinct (map snd (select_sessions is tab tmp)) \<and> set (select_sessions is tab tmp) \<subseteq> set tab"
proof (induction "is" arbitrary: tmp)
  case Nil
  then show ?case by simp
next
  case (Cons i "is")
  show ?case
  proof (cases "map_of tab i")
    case None
    with Cons show ?thesis by simp
  next
    case (Some k)
    then have ik: "(i, k) \<in> set tab" by (rule map_of_SomeD)
    have "k \<notin> snd ` set tmp" if "map_of tmp i = None"
    proof
      assume "k \<in> snd ` set tmp"
      then obtain j where "(j, k) \<in> set tmp" by auto
      with Cons.prems(2) have "(j, k) \<in> set tab" by blast
      with ik assms have "j = i" by (rule distinct_snd_inject)
      with \<open>(j, k) \<in> set tmp\<close> that show False by (auto simp: map_of_eq_None_iff image_iff)
    qed
    with Some ik Cons show ?thesis by simp
  qed
qed

section \<open>Broadcasts\<close>

text \<open>The tables hold each session object once; the ids of a table are distinct.\<close>

definition tables_ok :: "'h session_manager \<Rightarrow> bool" where
  "tables_ok m \<longleftrightarrow> distinct_keys (sm_plain_sessions m) \<and> distinct_keys (sm_ssl_sessions m) \<and>
     distinct (map snd (sm_plain_sessions m @ sm_ssl_sessions m))"

definition targeted :: "u64 list option \<Rightarrow> 'h session_manager \<Rightarrow> nat \<Rightarrow> bool" where
  "targeted session_ids m k \<longleftrightarrow>
     (\<exists>i. (map_of (sm_plain_sessions m) i = Some k \<or> map_of (sm_ssl_sessions m) i = Some k) \<and>
        (case session_ids of None \<Rightarrow> True | Some is \<Rightarrow> i \<in> set is))"

lemma target_sessions_props:
  assumes "distinct_keys tab" and "distinct (map snd tab)"
  shows "distinct (map snd (target_sessions ids tab))" "set (target_sessions ids tab) \<subseteq> set tab"
    "k \<in> snd ` set (target_sessions ids tab) \<longleftrightarrow>
       (\<exists>i. map_of tab i = Some k \<and> (case ids of None \<Rightarrow> True | Some is \<Rightarrow> i \<in> set is))"
proof -
  have sel: "distinct (map snd (select_sessions is tab [])) \<and> set (select_sessions is tab []) \<subseteq> set tab" for "is"
    using select_sessions_distinct [OF assms(2), of "[]" "is"] assms(1) by simp
  show "distinct (map snd (target_sessions ids tab))" "set (target_sessions ids tab) \<subseteq> set tab"
    using assms sel by (auto simp: target_sessions_def split: option.split)
  have "map_of tab i = Some k \<longleftrightarrow> (i, k) \<in> set tab" for i
    using assms(1) by (simp add: distinct_keys_def)
  then show "k \<in> snd ` set (target_sessions ids tab) \<longleftrightarrow>
       (\<exists>i. map_of tab i = Some k \<and> (case ids of None \<Rightarrow> True | Some is \<Rightarrow> i \<in> set is))"
    by (cases ids) (force simp: target_sessions_def select_sessions_set)+
qed

lemma broadcast_sessions:
  assumes ok: "tables_ok m" and m: "m = pl_manager p"
    and room: "sm_msg_queued m < int queue_send_max" and conn: "connections p \<noteq> 0"
  shows "map_of (pl_sessions (manager_broadcast cid bs ids p)) k =
    map_option (\<lambda>s. if targeted ids m k
        then server_session_send \<lparr>sp_msg = Some (pl_next_message p),
           sp_data = \<lparr>dp_header = io_header_new cid 0, dp_body = bs\<rparr>\<rparr> s
        else s) (map_of (pl_sessions p) k)"
proof -
  let ?P = "sm_plain_sessions m" and ?S = "sm_ssl_sessions m"
  have d: "distinct_keys ?P" "distinct (map snd ?P)" "distinct_keys ?S" "distinct (map snd ?S)"
    and disj: "snd ` set ?P \<inter> snd ` set ?S = {}"
    using ok by (auto simp: tables_ok_def)
  note P = target_sessions_props [OF d(1,2), where ids = ids] and S = target_sessions_props [OF d(3,4), where ids = ids]
  have t: "targeted ids m k \<longleftrightarrow>
      k \<in> snd ` set (target_sessions ids ?P) \<or> k \<in> snd ` set (target_sessions ids ?S)"
    unfolding P(3) S(3) targeted_def by blast
  have x: "\<not> (k \<in> snd ` set (target_sessions ids ?P) \<and> k \<in> snd ` set (target_sessions ids ?S))"
    using disj P(2) S(2) by blast
  show ?thesis
    using room conn t x P(1) S(1)
    by (auto simp: manager_broadcast_def Let_def m map_of_send_all data_push_new_def option.map_comp
        option.map_ident)
qed

lemma pool_inv_broadcast:
  assumes inv: "pool_inv p"
  shows "pool_inv (manager_broadcast cid bs ids p)"
proof (cases "int queue_send_max \<le> sm_msg_queued (pl_manager p) \<or> connections p = 0")
  case True
  with inv show ?thesis by (auto simp: manager_broadcast_def Let_def)
next
  case False
  let ?i = "pl_next_message p" and ?m = "pl_manager p"
  let ?push = "\<lparr>sp_msg = Some ?i, sp_data = (data_push_new (io_header_new cid 0))\<lparr>dp_body := bs\<rparr>\<rparr>"
  let ?ss = "fold (send_to ?push) (target_sessions ids (sm_ssl_sessions ?m))
      (fold (send_to ?push) (target_sessions ids (sm_plain_sessions ?m)) (pl_sessions p))"
  let ?p3 = "p\<lparr>pl_manager := ?m\<lparr>sm_msg_queued := sm_msg_queued ?m + 1\<rparr>,
      pl_messages := pl_messages p @ [?i], pl_next_message := Suc ?i, pl_sessions := ?ss\<rparr>"
  from inv have d: "distinct_keys (pl_sessions p)" by (simp add: pool_inv_def pool_pre_def)
  have "j \<in> set (pl_messages p) \<or> j = ?i" if "referenced ?p3 j" for j
  proof -
    from that obtain k t where t: "(k, t) \<in> set ?ss" "j \<in> set (session_msgs t)"
      by (auto simp: referenced_iff)
    then have "map_of ?ss k = Some t" using d by (simp add: distinct_keys_def del: fold.simps)
    then obtain s0 where "map_of (fold (send_to ?push) (target_sessions ids (sm_plain_sessions ?m))
        (pl_sessions p)) k = Some s0" "set (session_msgs t) \<subseteq> set (session_msgs s0) \<union> {?i}"
      using map_of_send_all_cases by fastforce
    then obtain s where "map_of (pl_sessions p) k = Some s" "set (session_msgs t) \<subseteq> set (session_msgs s) \<union> {?i}"
      using map_of_send_all_cases by fastforce
    then have "(k, s) \<in> set (pl_sessions p)" "j \<in> set (session_msgs s) \<or> j = ?i"
      using t(2) by (auto dest: map_of_SomeD)
    then have "referenced p j \<or> j = ?i" unfolding referenced_iff by blast
    with inv show ?thesis by (auto simp: pool_inv_def pool_pre_def)
  qed
  with inv False have "pool_pre ?p3"
    by (auto simp: pool_inv_def pool_pre_def less_Suc_eq)
  from pool_inv_release [OF this] show ?thesis
    using False by (simp add: manager_broadcast_def Let_def)
qed

section \<open>Changing, adding and removing sessions\<close>

definition update_session ::
  "nat \<Rightarrow> ('b, 'h, 'z) session_step \<Rightarrow> ('b, 'h, 'z) session_pool \<Rightarrow> ('b, 'h, 'z) session_pool" where
  "update_session k f p =
     (case map_of (pl_sessions p) k of
        None \<Rightarrow> p
      | Some s \<Rightarrow> release (p\<lparr>pl_sessions := AList.update k (f s) (pl_sessions p)\<rparr>))"

definition insert_session ::
  "nat \<Rightarrow> ('b, 'h, 'z) server_session_scheme \<Rightarrow> ('b, 'h, 'z) session_pool \<Rightarrow> ('b, 'h, 'z) session_pool" where
  "insert_session k s p = p\<lparr>pl_sessions := pl_sessions p @ [(k, s)]\<rparr>"

definition erase_session :: "nat \<Rightarrow> ('b, 'h, 'z) session_pool \<Rightarrow> ('b, 'h, 'z) session_pool" where
  "erase_session k p = release (p\<lparr>pl_sessions := AList.delete k (pl_sessions p)\<rparr>)"

lemma pool_pre_sessions:
  assumes "pool_inv p" and "distinct_keys ss"
    and "\<And>k s i. map_of ss k = Some s \<Longrightarrow> i \<in> set (session_msgs s) \<Longrightarrow> referenced p i"
  shows "pool_pre (p\<lparr>pl_sessions := ss\<rparr>)"
proof -
  have "referenced p i" if "referenced (p\<lparr>pl_sessions := ss\<rparr>) i" for i
  proof -
    from that obtain k s where "(k, s) \<in> set ss" "i \<in> set (session_msgs s)" by (auto simp: referenced_iff)
    with assms(2) have "map_of ss k = Some s" by (simp add: distinct_keys_def)
    then show ?thesis using assms(3) \<open>i \<in> set (session_msgs s)\<close> by blast
  qed
  with assms(1,2) show ?thesis by (auto simp: pool_inv_def pool_pre_def)
qed

lemma referencedI: "map_of (pl_sessions p) k = Some s \<Longrightarrow> i \<in> set (session_msgs s) \<Longrightarrow> referenced p i"
  by (auto simp: referenced_iff dest: map_of_SomeD)

lemma pool_inv_update:
  assumes inv: "pool_inv p"
    and sub: "\<And>s. map_of (pl_sessions p) k = Some s \<Longrightarrow> set (session_msgs (f s)) \<subseteq> set (session_msgs s)"
  shows "pool_inv (update_session k f p)"
proof (cases "map_of (pl_sessions p) k")
  case None
  with inv show ?thesis by (simp add: update_session_def)
next
  case (Some s)
  have "pool_pre (p\<lparr>pl_sessions := AList.update k (f s) (pl_sessions p)\<rparr>)"
    by (rule pool_pre_sessions [OF inv])
      (use inv sub [OF Some] Some in \<open>auto simp: pool_inv_def pool_pre_def update_conv' split: if_splits
        intro: referencedI\<close>)
  with Some show ?thesis by (simp add: update_session_def pool_inv_release)
qed

lemma pool_inv_insert:
  assumes inv: "pool_inv p" and fresh: "k \<notin> fst ` set (pl_sessions p)" and none: "session_msgs s = []"
  shows "pool_inv (insert_session k s p)"
proof -
  have "referenced (insert_session k s p) = referenced p"
    using none by (auto simp: referenced_def insert_session_def fun_eq_iff)
  with inv fresh show ?thesis
    by (simp add: pool_inv_def pool_pre_def insert_session_def distinct_keys_def)
qed

lemma pool_inv_erase:
  assumes inv: "pool_inv p"
  shows "pool_inv (erase_session k p)"
proof -
  have "pool_pre (p\<lparr>pl_sessions := AList.delete k (pl_sessions p)\<rparr>)"
    by (rule pool_pre_sessions [OF inv])
      (use inv in \<open>auto simp: pool_inv_def pool_pre_def delete_conv' split: if_splits intro: referencedI\<close>)
  then show ?thesis by (simp add: erase_session_def pool_inv_release)
qed

lemma pool_inv_manager:
  "pool_inv p \<Longrightarrow> sm_msg_queued m = sm_msg_queued (pl_manager p) \<Longrightarrow>
   sm_sub_refs m = sm_sub_refs (pl_manager p) \<Longrightarrow> pool_inv (p\<lparr>pl_manager := m\<rparr>)"
  by (simp add: pool_inv_def pool_pre_def referenced_def)

text \<open>A session gets hold of a broadcast message through \<^verbatim>\<open>send()\<close> only.\<close>

lemma session_msgs_cong:
  "ss_posted t = ss_posted s \<Longrightarrow> ss_queue t = ss_queue s \<Longrightarrow> session_msgs t = session_msgs s"
  by (simp add: session_msgs_def)

lemma session_msgs_handle_send:
  "set (session_msgs (server_handle_send e m s)) \<subseteq> set (session_msgs s) \<union> set_option (sp_msg m)"
  by (cases "server_accepts s") (auto simp: server_send_refused server_send_accepted session_msgs_iff)

lemma response_of_msg: "List.map_filter sp_msg (response_of B e funcs s) = []"
proof (cases "funcs (call_id (frame_header B e s))")
  case None
  then show ?thesis by (simp add: response_of_def)
next
  case (Some a)
  then show ?thesis by (cases a) (simp_all add: response_of_def Let_def)
qed

lemma map_filter_append: "List.map_filter f (xs @ ys) = List.map_filter f xs @ List.map_filter f ys"
  by (simp add: List.map_filter_def)

lemma call_function_posted: "ss_posted (call_function B e funcs now s) = ss_posted s"
  by (cases "sizeof_io_header \<le> length (fb_bytes B (cx_receive_buffer s))")
    (auto simp: call_function_frame call_function_short Let_def split: option.split)

lemma session_msgs_read:
  "set (session_msgs (server_on_read B e funcs now ec s)) \<subseteq> set (session_msgs s)"
proof -
  have c: "set (session_msgs (call_function B e funcs now s)) \<subseteq> set (session_msgs s)"
    by (simp add: session_msgs_def call_function_posted call_function_queue map_filter_append
        response_of_msg)
  have "session_msgs (server_read (t\<lparr>cx_receive_buffer := x, cx_response := []\<rparr>)) = session_msgs t"
    for x and t :: "('a, 'b, 'c) server_session_scheme"
    by (rule session_msgs_cong) (simp_all add: server_read_def)
  moreover have "session_msgs (server_close_session now (s\<lparr>ss_read_error := True\<rparr>)) = session_msgs s"
    by (rule session_msgs_cong) simp_all
  ultimately show ?thesis using c by (simp add: server_on_read_def Let_def)
qed

lemma session_msgs_exec:
  assumes "\<And>m. ev \<noteq> Sv_send m"
  shows "set (session_msgs (server_exec B e funcs ev s)) \<subseteq> set (session_msgs s)"
proof (cases ev)
  case Sv_posted
  show ?thesis
  proof (cases "ss_posted s")
    case (Cons m ms)
    have "set (session_msgs (s\<lparr>ss_posted := ms\<rparr>)) \<union> set_option (sp_msg m) \<subseteq> set (session_msgs s)"
      using Cons by (auto simp: session_msgs_iff)
    with Sv_posted Cons session_msgs_handle_send [of e m "s\<lparr>ss_posted := ms\<rparr>"] show ?thesis
      by simp blast
  qed (simp add: Sv_posted)
next
  case (Sv_read now ec b)
  then show ?thesis
    using session_msgs_read [of B e funcs now ec "s\<lparr>cx_receive_buffer := b, ss_stream := read_done (ss_stream s)\<rparr>"]
      session_msgs_cong [of "s\<lparr>cx_receive_buffer := b, ss_stream := read_done (ss_stream s)\<rparr>" s]
    by simp
next
  case (Sv_wrote now ec)
  then show ?thesis
    by (auto simp: server_on_write_def server_write_def Let_def session_msgs_iff split: list.splits if_splits)
qed (use assms in \<open>auto simp: server_on_control_callback_def on_timer_def Let_def server_shutdown_def
      server_on_ping_def on_shutdown_def session_msgs_iff split: if_splits\<close>)

section \<open>Properties\<close>

lemma connections_eq:
  "pool_inv p \<Longrightarrow> connections p = int (length (pl_sessions p)) + int (length (pl_messages p))"
  by (simp add: connections_def manager_connections_def use_count_def pool_inv_def pool_pre_def)

lemma connections_zero: "pool_inv p \<Longrightarrow> connections p = 0 \<longleftrightarrow> pl_sessions p = []"
proof -
  assume inv: "pool_inv p"
  then have "pl_sessions p = [] \<Longrightarrow> pl_messages p = []"
    by (cases "pl_messages p") (auto simp: pool_inv_def referenced_def)
  with connections_eq [OF inv] show ?thesis by (auto simp flip: of_nat_add)
qed

text \<open>\<^verbatim>\<open>connections()\<close> is the number of session objects, established or not, plus the number of
  broadcast messages still queued somewhere, because the deleter of a message holds a reference
  to the manager too. So the server counts as full with fewer sessions than its maximum while
  broadcasts are on their way. The count is zero exactly when there is no session.\<close>

theorem connections_counts_broadcasts:
  assumes "pool_inv p"
  shows "connections p = int (length (pl_sessions p)) + int (length (pl_messages p)) \<and>
     (is_full p \<longleftrightarrow> uint (sc_max_sessions (sm_server_cfg (pl_manager p))) \<le>
        int (length (pl_sessions p)) + int (length (pl_messages p))) \<and>
     (connections p = 0 \<longleftrightarrow> pl_sessions p = [])"
  using connections_eq [OF assms] connections_zero [OF assms]
  by (simp add: is_full_def manager_is_full_def connections_def)

abbreviation demo_pool :: "nat \<Rightarrow> (u8 list, (string \<times> string) list, unit) session_pool" where
  "demo_pool k \<equiv> \<lparr>pl_manager = (session_manager_new server_config_default)\<lparr>sm_sub_refs := 3,
        sm_plain_sessions := [(7, k)]\<rparr>,
      pl_refs = 2, pl_sessions = [(k, demo_session 0)], pl_messages = [], pl_next_message = 0\<rparr>"

lemma demo_pool_inv: "pool_inv (demo_pool k)"
  by (simp add: pool_inv_def pool_pre_def referenced_def session_manager_new_def distinct_keys_def
      session_msgs_def server_read_def arm_timer_def server_session_new_def duration_zero_def)

theorem connections_counts_broadcasts_witness:
  "connections (manager_broadcast 5 [1] None (demo_pool 0)) = 2"
  using connections_counts_broadcasts [OF pool_inv_broadcast [OF demo_pool_inv [of 0]], of 5 "[1]" None]
  by (simp add: manager_broadcast_def Let_def session_manager_new_def queue_send_max_def connections_def
      manager_connections_def use_count_def release_def referenced_def target_sessions_def send_to_def
      session_msgs_def server_session_send_def data_push_new_def server_read_def arm_timer_def
      server_session_new_def duration_zero_def)

text \<open>
  The reference for a broadcast: one pass over the sessions that posts the message to every
  session the ids select.
\<close>

definition broadcast_pass ::
  "u32 \<Rightarrow> u8 list \<Rightarrow> u64 list option \<Rightarrow> ('b, 'h, 'z) session_pool \<Rightarrow>
   (nat \<times> ('b, 'h, 'z) server_session_scheme) list" where
  "broadcast_pass cid bs ids p =
     map (\<lambda>(k, s). (k, if targeted ids (pl_manager p) k
        then server_session_send \<lparr>sp_msg = Some (pl_next_message p),
           sp_data = \<lparr>dp_header = io_header_new cid 0, dp_body = bs\<rparr>\<rparr> s
        else s)) (pl_sessions p)"

lemma map_of_map_values: "map_of (map (\<lambda>(k, v). (k, f k v)) al) k = map_option (f k) (map_of al k)"
  by (induction al) auto

text \<open>C28: a broadcast, which copies the selected entries of two tables into new tables and then sends to
  every session found through them, does exactly what one pass over the sessions does: each session
  whose id is selected gets the message once, even when the ids repeat, and no other session changes.\<close>

theorem broadcast_equals_pass:
  assumes ok: "tables_ok (pl_manager p)" and keys: "distinct_keys (pl_sessions p)"
    and room: "sm_msg_queued (pl_manager p) < int queue_send_max" and conn: "connections p \<noteq> 0"
  shows "pl_sessions (manager_broadcast cid bs ids p) = broadcast_pass cid bs ids p"
proof (rule alist_eqI)
  show "map fst (pl_sessions (manager_broadcast cid bs ids p)) = map fst (broadcast_pass cid bs ids p)"
    using room conn by (simp add: manager_broadcast_def Let_def broadcast_pass_def split_def o_def)
  show "distinct_keys (broadcast_pass cid bs ids p)"
    using keys by (simp add: distinct_keys_def broadcast_pass_def split_def o_def)
  show "map_of (pl_sessions (manager_broadcast cid bs ids p)) = map_of (broadcast_pass cid bs ids p)"
    by (rule ext) (simp add: broadcast_sessions [OF ok refl room conn] broadcast_pass_def map_of_map_values)
qed

theorem broadcast_equals_pass_witness:
  "pl_sessions (manager_broadcast 5 [1] (Some [7, 7]) (demo_pool 0)) = broadcast_pass 5 [1] (Some [7, 7]) (demo_pool 0)"
  by (rule broadcast_equals_pass)
    (simp_all add: tables_ok_def distinct_keys_def session_manager_new_def queue_send_max_def connections_def
      manager_connections_def use_count_def)

end
