(* ===== verification/Session_Accept.thy ===== *)
theory Session_Accept
  imports Session_Manager
begin

text \<open>
  \<^verbatim>\<open>session_accept\<close> of \<^verbatim>\<open>include/radrpc/impl/server/server_session.hpp\<close>: the TLS handshake, reading
  and answering the websocket handshake and the life of a session object in the tables of the
  manager. Closing and the ping timer, which \<^verbatim>\<open>server_session\<close> uses, are in \<^verbatim>\<open>Server_Session\<close>.
\<close>

section \<open>State\<close>

datatype accept_op = Ac_ssl_handshake | Ac_read_handshake | Ac_accept

text \<open>
  \<open>sa_ssl\<close> tells the stream type, \<open>sa_ops\<close> the operation of the accept sequence in progress. The
  options set on the stream: the timeout of the TCP stream (\<open>None\<close> for never), the handshake timeout
  of the websocket, the fields its decorator captured and its limit for a message. \<open>sa_info_id\<close> is
  the id \<^verbatim>\<open>info\<close> has copied when it was built; its other members refer to the session.
\<close>

record ('b, 'h) session_accept = "('b, 'h) server_session" +
  sa_ssl :: bool
  sa_handshake_buffer :: 'b
  sa_established :: bool
  sa_ops :: "accept_op list"
  sa_expires :: "duration option"
  sa_stream_timeout :: "duration option"
  sa_decorator :: "'h option"
  sa_read_message_max :: "u64 option"
  sa_info_id :: u64

definition session_accept_new ::
  "'b flat_buffer \<Rightarrow> 'h http_fields \<Rightarrow> bool \<Rightarrow> u64 \<Rightarrow> string \<Rightarrow> 'b \<Rightarrow> server_timeout \<Rightarrow> session_config \<Rightarrow>
   ('b, 'h) session_accept" where
  "session_accept_new B H ssl p_id host p_handshake_buffer p_server_timeout p_session_cfg =
     server_session.extend (server_session_new B H p_id host p_server_timeout p_session_cfg)
       (session_accept.fields ssl p_handshake_buffer False [] None None None None p_id)"

definition session_info_of :: "('b, 'h) session_accept \<Rightarrow> 'h session_info" where
  "session_info_of s =
     \<lparr>si_id = sa_info_id s, si_remote_host = cx_remote_host s, si_request_handshake = cx_req_handshake s,
      si_response_handshake = cx_res_handshake s, si_config = cx_config s\<rparr>"

section \<open>Handlers\<close>

definition accept_on_ssl_handshake ::
  "'b flat_buffer \<Rightarrow> error_code \<Rightarrow> nat \<Rightarrow> ('b, 'h) session_accept \<Rightarrow> ('b, 'h) session_accept" where
  "accept_on_ssl_handshake B ec bytes_used s =
     (if failed ec then s
      else s\<lparr>sa_handshake_buffer := fb_consume B (sa_handshake_buffer s) bytes_used,
             sa_expires := Some (st_handshake_or_close_timeout (ss_server_timeout s)),
             sa_ops := sa_ops s @ [Ac_read_handshake]\<rparr>)"

definition accept_ssl_handshake ::
  "'b flat_buffer \<Rightarrow> ('b, 'h) session_accept \<Rightarrow> ('b, 'h) session_accept" where
  "accept_ssl_handshake B s =
     (if sa_ssl s
      then s\<lparr>sa_expires := Some (st_handshake_or_close_timeout (ss_server_timeout s)),
             sa_ops := sa_ops s @ [Ac_ssl_handshake]\<rparr>
      else accept_on_ssl_handshake B No_error 0 s)"

definition accept_configure :: "('b, 'h) session_accept \<Rightarrow> ('b, 'h) session_accept" where
  "accept_configure s =
     s\<lparr>sa_read_message_max :=
         Some (sg_max_transfer_bytes (cx_config s) + of_nat sizeof_io_header),
       sa_decorator := Some (cx_res_handshake s), sa_expires := None,
       sa_stream_timeout := Some (st_handshake_or_close_timeout (ss_server_timeout s)),
       sa_ops := sa_ops s @ [Ac_accept]\<rparr>"

definition accept_on_read_handshake ::
  "'b flat_buffer \<Rightarrow> 'h session_manager \<Rightarrow> error_code \<Rightarrow> ('b, 'h) session_accept \<Rightarrow>
   ('b, 'h) session_accept" where
  "accept_on_read_handshake B m ec s =
     (if failed ec \<or> fb_size B (sa_handshake_buffer s) \<noteq> 0 then s
      else
        (let s1 = s\<lparr>sa_handshake_buffer :=
                     fb_consume B (sa_handshake_buffer s) (fb_size B (sa_handshake_buffer s))\<rparr>
         in case sm_on_accept m of
              None \<Rightarrow> accept_configure s1
            | Some h \<Rightarrow>
                (case h (session_info_of s1) of
                   (ok, cfg, res) \<Rightarrow>
                     (let s2 = s1\<lparr>cx_config := cfg, cx_res_handshake := res\<rparr>
                      in if ok then accept_configure s2 else s2))))"

definition manager_add_session :: "nat \<Rightarrow> ('b, 'h) session_accept \<Rightarrow> 'h session_manager \<Rightarrow> 'h session_manager" where
  "manager_add_session k s m =
     (if sa_ssl s then add_ssl_session (cx_id s) k m else add_plain_session (cx_id s) k m)"

definition manager_remove_session :: "('b, 'h) session_accept \<Rightarrow> 'h session_manager \<Rightarrow> 'h session_manager" where
  "manager_remove_session s m =
     (if sa_ssl s then remove_ssl_session (cx_id s) m else remove_plain_session (cx_id s) m)"

definition accept_on_accept ::
  "time_point \<Rightarrow> nat \<Rightarrow> error_code \<Rightarrow> ('b, 'h) session_accept \<times> 'h session_manager \<Rightarrow>
   ('b, 'h) session_accept \<times> 'h session_manager" where
  "accept_on_accept now k ec = (\<lambda>(s, m).
     if failed ec then (s, m)
     else
       (let s1 = arm_timer now (s\<lparr>sa_established := True\<rparr>)
        in (server_read s1, manager_add_session k s1 m)))"

text \<open>
  The destructors: \<^verbatim>\<open>~session_accept\<close> takes an established session off its table, then
  \<^verbatim>\<open>~server_session\<close> tells the disconnect handler, if there is one.
\<close>

definition session_accept_delete ::
  "('b, 'h) session_accept \<Rightarrow> 'h session_manager \<Rightarrow> 'h session_info option \<times> 'h session_manager" where
  "session_accept_delete s m =
     (let m1 = (if sa_established s then manager_remove_session s m else m)
      in (if sm_on_disconnect m1 then Some (session_info_of s) else None, m1))"

definition session_accept_accept ::
  "'b flat_buffer \<Rightarrow> ('b, 'h) session_accept \<Rightarrow> ('b, 'h) session_accept" where
  "session_accept_accept B s = accept_ssl_handshake B s"

text \<open>
  The completion of the operation in progress. The library has read into the handshake buffer
  (\<open>buf\<close>) and parsed the request \<open>req\<close> when the operation was the read of the handshake.
\<close>

definition accept_done ::
  "'b flat_buffer \<Rightarrow> time_point \<Rightarrow> nat \<Rightarrow> error_code \<Rightarrow> nat \<Rightarrow> 'b \<Rightarrow> 'h \<Rightarrow>
   ('b, 'h) session_accept \<times> 'h session_manager \<Rightarrow> ('b, 'h) session_accept \<times> 'h session_manager" where
  "accept_done B now k ec bytes_used buf req = (\<lambda>(s, m).
     case sa_ops s of
       [] \<Rightarrow> (s, m)
     | op # ops \<Rightarrow>
         (let s1 = s\<lparr>sa_ops := ops\<rparr>
          in case op of
               Ac_ssl_handshake \<Rightarrow> (accept_on_ssl_handshake B ec bytes_used s1, m)
             | Ac_read_handshake \<Rightarrow>
                 (accept_on_read_handshake B m ec
                    (s1\<lparr>sa_handshake_buffer := buf, cx_req_handshake := req\<rparr>), m)
             | Ac_accept \<Rightarrow> accept_on_accept now k ec (s1, m)))"

section \<open>The pool of sessions\<close>

type_synonym ('b, 'h) accept_pool = "('b, 'h, ('b, 'h, unit) session_accept_ext) session_pool"

text \<open>
  A session object lives as long as an operation in progress or a posted handler refers to it.
\<close>

definition pending :: "('b, 'h, 'z) server_session_scheme \<Rightarrow> nat" where
  "pending s = so_reads (ss_stream s) + length (so_writes (ss_stream s)) + so_pings (ss_stream s) +
     so_closes (ss_stream s) + tm_waits (ss_timer s) + length (ss_posted s)"

definition session_idle :: "('b, 'h) session_accept \<Rightarrow> bool" where
  "session_idle s \<longleftrightarrow> pending s = 0 \<and> sa_ops s = []"

definition pool_construct ::
  "'b flat_buffer \<Rightarrow> 'h http_fields \<Rightarrow> nat \<Rightarrow> bool \<Rightarrow> u64 \<Rightarrow> string \<Rightarrow> 'b \<Rightarrow> server_timeout \<Rightarrow>
   session_config \<Rightarrow> ('b, 'h) accept_pool \<Rightarrow> ('b, 'h) accept_pool" where
  "pool_construct B H k ssl i host buf st sg p =
     insert_session k (session_accept_accept B (session_accept_new B H ssl i host buf st sg)) p"

definition pool_done ::
  "'b flat_buffer \<Rightarrow> nat \<Rightarrow> time_point \<Rightarrow> error_code \<Rightarrow> nat \<Rightarrow> 'b \<Rightarrow> 'h \<Rightarrow> ('b, 'h) accept_pool \<Rightarrow>
   ('b, 'h) accept_pool" where
  "pool_done B k now ec n buf req p =
     (case map_of (pl_sessions p) k of
        None \<Rightarrow> p
      | Some s \<Rightarrow>
          (case accept_done B now k ec n buf req (s, pl_manager p) of
             (t, m) \<Rightarrow> update_session k (\<lambda>_. t) (p\<lparr>pl_manager := m\<rparr>)))"

definition pool_delete :: "nat \<Rightarrow> ('b, 'h) accept_pool \<Rightarrow> 'h session_info option \<times> ('b, 'h) accept_pool" where
  "pool_delete k p =
     (case map_of (pl_sessions p) k of
        None \<Rightarrow> (None, p)
      | Some s \<Rightarrow>
          (case session_accept_delete s (pl_manager p) of
             (info, m) \<Rightarrow> (info, erase_session k (p\<lparr>pl_manager := m\<rparr>))))"

datatype ('b, 'h) pool_event =
    Pl_construct nat bool u64 string 'b server_timeout session_config
  | Pl_done nat time_point error_code nat 'b 'h
  | Pl_session nat "'b server_event"
  | Pl_broadcast u32 "u8 list" "u64 list option"
  | Pl_delete nat

text \<open>
  A new object has a number of its own and, as its id, the address of its stream, which no
  other living session has. Control frames are reported once the session is established, and
  messages reach a session through a broadcast.
\<close>

fun pool_enabled :: "('b, 'h) pool_event \<Rightarrow> ('b, 'h) accept_pool \<Rightarrow> bool" where
  "pool_enabled (Pl_construct k ssl i host buf st sg) p \<longleftrightarrow>
     k \<notin> fst ` set (pl_sessions p) \<and> i \<notin> (\<lambda>(k, s). cx_id s) ` set (pl_sessions p)"
| "pool_enabled (Pl_done k now ec n buf req) p \<longleftrightarrow>
     (case map_of (pl_sessions p) k of None \<Rightarrow> False | Some s \<Rightarrow> sa_ops s \<noteq> [])"
| "pool_enabled (Pl_session k ev) p \<longleftrightarrow>
     (case map_of (pl_sessions p) k of
        None \<Rightarrow> False
      | Some s \<Rightarrow> sa_established s \<and> server_enabled ev s \<and> (case ev of Sv_send m \<Rightarrow> False | _ \<Rightarrow> True))"
| "pool_enabled (Pl_broadcast cid bs ids) p \<longleftrightarrow> True"
| "pool_enabled (Pl_delete k) p \<longleftrightarrow>
     (case map_of (pl_sessions p) k of None \<Rightarrow> False | Some s \<Rightarrow> session_idle s)"

fun pool_exec ::
  "'b flat_buffer \<Rightarrow> 'h http_fields \<Rightarrow> endian \<Rightarrow> ('b, 'h) pool_event \<Rightarrow> ('b, 'h) accept_pool \<Rightarrow>
   ('b, 'h) accept_pool" where
  "pool_exec B H e (Pl_construct k ssl i host buf st sg) p = pool_construct B H k ssl i host buf st sg p"
| "pool_exec B H e (Pl_done k now ec n buf req) p = pool_done B k now ec n buf req p"
| "pool_exec B H e (Pl_session k ev) p =
     update_session k (server_exec B e (map_of (sm_bound_funcs (pl_manager p))) ev) p"
| "pool_exec B H e (Pl_broadcast cid bs ids) p = manager_broadcast cid bs ids p"
| "pool_exec B H e (Pl_delete k) p = snd (pool_delete k p)"

inductive pool_step ::
  "'b flat_buffer \<Rightarrow> 'h http_fields \<Rightarrow> endian \<Rightarrow> ('b, 'h) accept_pool \<Rightarrow> ('b, 'h) pool_event \<Rightarrow>
   ('b, 'h) accept_pool \<Rightarrow> bool"
  for B :: "'b flat_buffer" and H :: "'h http_fields" and e :: endian
where
  pool_stepI: "pool_enabled ev p \<Longrightarrow> pool_step B H e p ev (pool_exec B H e ev p)"

inductive_cases pool_stepE: "pool_step B H e p ev q"

text \<open>A started server: the manager with its references counted and its handlers bound.\<close>

definition pool_start :: "('b, 'h) accept_pool \<Rightarrow> bool" where
  "pool_start p \<longleftrightarrow> pl_sessions p = [] \<and> pl_messages p = [] \<and> pl_refs p = 2 \<and>
     sm_sub_refs (pl_manager p) = 3 \<and> sm_msg_queued (pl_manager p) = 0 \<and>
     sm_plain_sessions (pl_manager p) = [] \<and> sm_ssl_sessions (pl_manager p) = []"

section \<open>Invariants\<close>

text \<open>One session: nothing of \<^verbatim>\<open>server_session\<close> is in progress before it is established.\<close>

definition accept_inv :: "endian \<Rightarrow> ('b, 'h) session_accept \<Rightarrow> bool" where
  "accept_inv e s \<longleftrightarrow> server_inv e s \<and> length (sa_ops s) \<le> 1 \<and> (sa_established s \<longrightarrow> sa_ops s = []) \<and>
     (\<not> sa_established s \<longrightarrow> pending s = 0 \<and> session_msgs s = [])"

text \<open>The tables hold exactly the established sessions that are alive.\<close>

type_synonym ('b, 'h) live = "nat \<Rightarrow> ('b, 'h) session_accept option"

definition listed :: "bool \<Rightarrow> (u64 \<times> nat) list \<Rightarrow> ('b, 'h) live \<Rightarrow> bool" where
  "listed ssl tab F \<longleftrightarrow> distinct_keys tab \<and>
     (\<forall>i k. map_of tab i = Some k \<longleftrightarrow>
        (\<exists>s. F k = Some s \<and> sa_established s \<and> sa_ssl s = ssl \<and> cx_id s = i))"

definition distinct_ids :: "('b, 'h) live \<Rightarrow> bool" where
  "distinct_ids F \<longleftrightarrow>
     (\<forall>j k s t. F j = Some s \<longrightarrow> F k = Some t \<longrightarrow> cx_id s = cx_id t \<longrightarrow> j = k)"

definition accept_pool_inv :: "endian \<Rightarrow> ('b, 'h) accept_pool \<Rightarrow> bool" where
  "accept_pool_inv e p \<longleftrightarrow> pool_inv p \<and>
     (\<forall>k s. map_of (pl_sessions p) k = Some s \<longrightarrow> accept_inv e s) \<and>
     distinct_ids (map_of (pl_sessions p)) \<and>
     listed False (sm_plain_sessions (pl_manager p)) (map_of (pl_sessions p)) \<and>
     listed True (sm_ssl_sessions (pl_manager p)) (map_of (pl_sessions p))"

text \<open>Handlers that leave the id of the session alone.\<close>

definition keeps_ids :: "'h bound_funcs \<Rightarrow> bool" where
  "keeps_ids funcs \<longleftrightarrow> (\<forall>c f v i. funcs c = Some (Some f) \<longrightarrow> Ctx_id i \<notin> set (f v))"

lemma context_run_id:
  fixes s :: "('b, 'h, 'z) server_session_scheme"
  assumes "\<And>i. Ctx_id i \<notin> set ops"
  shows "cx_id (fold (context_exec B) ops s) = cx_id s"
  using assms
proof (induction ops arbitrary: s)
  case (Cons op ops)
  from Cons.prems [of "cx_id s"] Cons.prems have "cx_id (context_exec B op s) = cx_id s"
    by (cases op) (auto simp: session_context_clear_buffer_def session_context_close_def)
  with Cons show ?case by simp
qed simp

lemma send_frame_id [simp]: "cx_id (server_handle_send e m s) = cx_id s"
  by (cases "server_accepts s"; simp add: server_send_refused server_send_accepted)

lemma close_frame_id [simp]: "cx_id (server_close_session now s) = cx_id s"
  by (simp add: server_close_session_def server_shutdown_def)

lemma call_function_id:
  assumes "keeps_ids funcs"
  shows "cx_id (call_function B e funcs now s) = cx_id s"
proof (cases "sizeof_io_header \<le> length (fb_bytes B (cx_receive_buffer s))")
  case True
  have c: "cx_id (call_context B e s) = cx_id s" by (simp add: call_context_def)
  show ?thesis
  proof (cases "funcs (call_id (frame_header B e s))")
    case None
    with True c show ?thesis by (simp add: call_function_frame)
  next
    case (Some a)
    show ?thesis
    proof (cases a)
      case None
      with True c Some show ?thesis by (simp add: call_function_frame)
    next
      case (Some f)
      with assms \<open>funcs _ = Some a\<close> have "\<And>i. Ctx_id i \<notin> set (f (context_view (call_context B e s)))"
        by (simp add: keeps_ids_def)
      note i = context_run_id [OF this]
      from True c Some \<open>funcs _ = Some a\<close> show ?thesis
        by (simp add: call_function_frame Let_def i)
    qed
  qed
qed (simp add: call_function_short)

lemma server_exec_id:
  assumes "keeps_ids funcs"
  shows "cx_id (server_exec B e funcs ev s) = cx_id s"
  by (cases ev) (auto simp: call_function_id [OF assms] server_session_send_def server_on_read_def server_read_def server_on_write_def
      server_write_def server_on_control_callback_def on_timer_def server_shutdown_def
      server_on_ping_def on_shutdown_def Let_def split: list.split)

text \<open>The handlers of \<^verbatim>\<open>server_session\<close> leave the members of the derived class alone.\<close>

lemma context_run_more:
  fixes s :: "('b, 'h, 'z) server_session_scheme"
  shows "server_session.more (fold (context_exec B) ops s) = server_session.more s"
proof (induction ops arbitrary: s)
  case (Cons op ops)
  have "server_session.more (context_exec B op s) = server_session.more s"
    by (cases op) (simp_all add: session_context_clear_buffer_def session_context_close_def)
  with Cons show ?case by simp
qed simp

lemma send_frame_more [simp]: "server_session.more (server_handle_send e m s) = server_session.more s"
  by (cases "server_accepts s"; simp add: server_send_refused server_send_accepted)

lemma close_frame_more [simp]: "server_session.more (server_close_session now s) = server_session.more s"
  by (simp add: server_close_session_def server_shutdown_def)

lemma call_function_more: "server_session.more (call_function B e funcs now s) = server_session.more s"
proof (cases "sizeof_io_header \<le> length (fb_bytes B (cx_receive_buffer s))")
  case True
  have "server_session.more (call_context B e s) = server_session.more s" by (simp add: call_context_def)
  with True show ?thesis by (simp add: call_function_frame Let_def context_run_more split: option.split)
qed (simp add: call_function_short)

lemma server_exec_more: "server_session.more (server_exec B e funcs ev s) = server_session.more s"
  by (cases ev) (auto simp: call_function_more server_session_send_def server_on_read_def server_read_def
      server_on_write_def server_write_def server_on_control_callback_def on_timer_def
      server_shutdown_def server_on_ping_def on_shutdown_def Let_def split: list.split)

lemma derived_members:
  fixes s t :: "('b, 'h) session_accept"
  assumes "server_session.more t = server_session.more s"
  shows "sa_established t = sa_established s" "sa_ssl t = sa_ssl s" "sa_ops t = sa_ops s"
  using assms by (cases t, cases s, simp)+

lemma server_send_more: "server_session.more (server_session_send m s) = server_session.more s"
  by (simp add: server_session_send_def)

lemmas server_exec_derived = derived_members [OF server_exec_more]
lemmas server_send_derived = derived_members [OF server_send_more]

subsection \<open>The tables\<close>

lemma distinct_idsD:
  "distinct_ids F \<Longrightarrow> F j = Some s \<Longrightarrow> F k = Some t \<Longrightarrow> cx_id s = cx_id t \<Longrightarrow> j = k"
  by (simp add: distinct_ids_def)

lemma listedI:
  "distinct_keys tab \<Longrightarrow>
   (\<And>i k. map_of tab i = Some k \<longleftrightarrow>
      (\<exists>s. F k = Some s \<and> sa_established s \<and> sa_ssl s = ssl \<and> cx_id s = i)) \<Longrightarrow> listed ssl tab F"
  by (simp add: listed_def)

lemma listed_find:
  "listed ssl tab F \<Longrightarrow> map_of tab i = Some k \<longleftrightarrow>
     (\<exists>s. F k = Some s \<and> sa_established s \<and> sa_ssl s = ssl \<and> cx_id s = i)"
  by (simp add: listed_def)

lemma listed_distinct: "listed ssl tab F \<Longrightarrow> distinct_keys tab"
  by (simp add: listed_def)

lemma listed_same:
  assumes "listed ssl tab F" and "F k = Some s"
    and "sa_established t = sa_established s" "sa_ssl t = sa_ssl s" "cx_id t = cx_id s"
  shows "listed ssl tab (F(k \<mapsto> t))"
  using assms unfolding listed_def by auto

lemma listed_unestablished:
  assumes "listed ssl tab F" and "F k = None \<or> (\<exists>s. F k = Some s \<and> \<not> sa_established s)"
    and "\<not> sa_established t \<or> sa_ssl t \<noteq> ssl"
  shows "listed ssl tab (F(k \<mapsto> t))"
  using assms unfolding listed_def by auto

lemma listed_established:
  assumes l: "listed ssl tab F" and k: "F k = Some s" "\<not> sa_established s"
    and t: "sa_established t" "sa_ssl t = ssl" "cx_id t = cx_id s" and d: "distinct_ids F"
  shows "listed ssl (AList.update (cx_id s) k tab) (F(k \<mapsto> t))"
proof -
  show ?thesis
  proof (rule listedI, goal_cases)
    case 1
    show ?case using listed_distinct [OF l] by simp
  next
    case (2 i j)
    show ?case
    proof (cases "j = k")
      case True
      have "map_of tab i \<noteq> Some k" using listed_find [OF l, of i k] k by simp
      with True t show ?thesis by (auto simp: update_conv')
    next
      case False
      have "\<not> (\<exists>u. F j = Some u \<and> cx_id u = cx_id s)"
        using distinct_idsD [OF d _ k(1), of j] False by blast
      with False listed_find [OF l, of i j] show ?thesis by (auto simp: update_conv')
    qed
  qed
qed

lemma listed_deleted:
  assumes l: "listed ssl tab F" and k: "F k = Some s" and d: "distinct_ids F"
  shows "listed ssl (if sa_established s \<and> sa_ssl s = ssl then AList.delete (cx_id s) tab else tab) (F(k := None))"
proof -
  have jk: "j = k" if "F j = Some u" "cx_id u = cx_id s" for j u
    using distinct_idsD [OF d that(1) k that(2)] .
  show ?thesis
  proof (rule listedI, goal_cases)
    case 1
    show ?case using listed_distinct [OF l] by simp
  next
    case (2 i j)
    show ?case
    proof (cases "sa_established s \<and> sa_ssl s = ssl")
      case True
      show ?thesis
      proof (cases "i = cx_id s")
        case same: True
        have "\<not> (\<exists>u. (F(k := None)) j = Some u \<and> cx_id u = i)"
          using jk [of j] same by (auto split: if_splits)
        with True same show ?thesis by (auto simp: delete_conv')
      next
        case False
        with listed_find [OF l, of i j] k True show ?thesis by (cases "j = k") (simp_all add: delete_conv')
      qed
    next
      case False
      with listed_find [OF l, of i j] k show ?thesis by auto
    qed
  qed
qed

lemma distinct_ids_update:
  "distinct_ids F \<Longrightarrow> F k = Some s \<Longrightarrow> cx_id t = cx_id s \<Longrightarrow> distinct_ids (F(k \<mapsto> t))"
  unfolding distinct_ids_def by (simp add: fun_upd_def) metis

lemma distinct_ids_fresh:
  "distinct_ids F \<Longrightarrow> (\<And>j s. F j = Some s \<Longrightarrow> cx_id s \<noteq> cx_id t) \<Longrightarrow> distinct_ids (F(k \<mapsto> t))"
  unfolding distinct_ids_def by (simp add: fun_upd_def) metis

lemma distinct_ids_delete: "distinct_ids F \<Longrightarrow> distinct_ids (F(k := None))"
  unfolding distinct_ids_def by (simp add: fun_upd_def)

lemma tables_ok_listed:
  assumes p: "listed False (sm_plain_sessions m) F" and s: "listed True (sm_ssl_sessions m) F"
  shows "tables_ok m"
proof -
  have in_tab: "map_of tab i = Some k \<longleftrightarrow> (i, k) \<in> set tab" if "distinct_keys tab"
    for tab :: "(u64 \<times> nat) list" and i k
    using that by (simp add: distinct_keys_def)
  have dist: "distinct (map snd tab)" if "listed ssl tab F" for ssl tab
  proof -
    have "inj_on snd (set tab)"
    proof (rule inj_onI, clarsimp)
      fix i j k
      assume "(i, k) \<in> set tab" "(j, k) \<in> set tab"
      then have "map_of tab i = Some k" "map_of tab j = Some k"
        using in_tab [OF listed_distinct [OF that]] by simp_all
      then show "i = j" using listed_find [OF that] by auto
    qed
    moreover have "distinct tab" using that by (auto simp: listed_def distinct_keys_def simp: distinct_map)
    ultimately show ?thesis by (simp add: distinct_map)
  qed
  have "k \<notin> snd ` set (sm_ssl_sessions m)" if "(i, k) \<in> set (sm_plain_sessions m)" for i k
  proof
    assume "k \<in> snd ` set (sm_ssl_sessions m)"
    then obtain j where "(j, k) \<in> set (sm_ssl_sessions m)" by auto
    then have "map_of (sm_ssl_sessions m) j = Some k" "map_of (sm_plain_sessions m) i = Some k"
      using that in_tab [OF listed_distinct [OF p]] in_tab [OF listed_distinct [OF s]] by simp_all
    then show False using listed_find [OF p] listed_find [OF s] by auto
  qed
  then have "k \<notin> snd ` set (sm_ssl_sessions m)" if "k \<in> snd ` set (sm_plain_sessions m)" for k
    using that by (elim imageE) (simp add: split_paired_all)
  then have "snd ` set (sm_plain_sessions m) \<inter> snd ` set (sm_ssl_sessions m) = {}" by blast
  with dist [OF p] dist [OF s] p s show ?thesis by (simp add: tables_ok_def listed_def)
qed

subsection \<open>Every event keeps the invariants\<close>

lemma session_accept_new_frame [simp]:
  "ss_queue (session_accept_new B H ssl i h b st sg) = []"
  "ss_posted (session_accept_new B H ssl i h b st sg) = []"
  "cx_id (session_accept_new B H ssl i h b st sg) = i"
  "cx_remote_host (session_accept_new B H ssl i h b st sg) = h"
  "cx_res_handshake (session_accept_new B H ssl i h b st sg) = hd_new H"
  "cx_config (session_accept_new B H ssl i h b st sg) = sg"
  "ss_stream (session_accept_new B H ssl i h b st sg) = stream_new"
  "ss_timer (session_accept_new B H ssl i h b st sg) = timer_new"
  "sa_ssl (session_accept_new B H ssl i h b st sg) = ssl"
  "sa_handshake_buffer (session_accept_new B H ssl i h b st sg) = b"
  "\<not> sa_established (session_accept_new B H ssl i h b st sg)"
  "sa_ops (session_accept_new B H ssl i h b st sg) = []"
  "sa_info_id (session_accept_new B H ssl i h b st sg) = i"
  "ss_server_timeout (session_accept_new B H ssl i h b st sg) = st"
  "cx_response (session_accept_new B H ssl i h b st sg) = []"
  "\<not> ss_close (session_accept_new B H ssl i h b st sg)"
  "\<not> ss_fault (session_accept_new B H ssl i h b st sg)"
  "\<not> ss_write_error (session_accept_new B H ssl i h b st sg)"
  by (simp_all add: session_accept_new_def server_session_new_def server_session.extend_def
      session_accept.fields_def del: stream_ops_defs timer_ops_defs)

lemma accept_inv_cong:
  assumes "accept_inv e s" and "\<not> sa_established t"
    and "ss_queue t = ss_queue s" "ss_posted t = ss_posted s" "ss_stream t = ss_stream s"
    "ss_timer t = ss_timer s" "ss_close t = ss_close s" "ss_fault t = ss_fault s"
    "ss_write_error t = ss_write_error s" "cx_response t = cx_response s"
    and "length (sa_ops t) \<le> 1" "\<not> sa_established s"
  shows "accept_inv e t"
proof -
  have "server_inv e s" using assms(1) by (simp add: accept_inv_def)
  then have "server_inv e t"
    using assms(3-10) by (simp add: server_inv_def server_quiet_def sw.one_writer_def)
  moreover have "pending s = 0" "session_msgs s = []" using assms(1,12) by (simp_all add: accept_inv_def)
  ultimately show ?thesis
    using assms(2-6,11) by (simp add: accept_inv_def pending_def session_msgs_def)
qed

lemma accept_inv_new: "accept_inv e (session_accept_accept B (session_accept_new B H ssl i h b st sg))"
proof -
  have "accept_inv e (session_accept_new B H ssl i h b st sg)"
    by (simp add: accept_inv_def server_inv_def server_quiet_def sw.one_writer_def pending_def session_msgs_def)
  then show ?thesis
    by (rule accept_inv_cong)
      (auto simp: session_accept_accept_def accept_ssl_handshake_def accept_on_ssl_handshake_def)
qed

lemma accept_done_props:
  assumes inv: "accept_inv e s" and ops: "sa_ops s \<noteq> []"
    and run: "accept_done B now k ec n buf req (s, m) = (t, m')"
  shows "accept_inv e t \<and> cx_id t = cx_id s \<and> sa_ssl t = sa_ssl s \<and> session_msgs t = [] \<and>
     \<not> sa_established s \<and> m' = (if sa_established t then manager_add_session k s m else m)"
proof -
  from inv ops have ne: "\<not> sa_established s" and nil: "session_msgs s = []" "pending s = 0"
    by (auto simp: accept_inv_def)
  from inv ops obtain op where op: "sa_ops s = [op]"
    by (cases "sa_ops s") (auto simp: accept_inv_def)
  have si: "server_inv e s" using inv by (simp add: accept_inv_def)
  show ?thesis
  proof (cases "sa_established t")
    case False
    have fr: "ss_queue t = ss_queue s \<and> ss_posted t = ss_posted s \<and> ss_stream t = ss_stream s \<and>
        ss_timer t = ss_timer s \<and> ss_close t = ss_close s \<and> ss_fault t = ss_fault s \<and>
        ss_write_error t = ss_write_error s \<and> cx_response t = cx_response s \<and> length (sa_ops t) \<le> 1 \<and>
        cx_id t = cx_id s \<and> sa_ssl t = sa_ssl s \<and> m' = m"
      using run False op
      by (cases op)
        (auto simp: accept_done_def Let_def accept_on_ssl_handshake_def accept_on_read_handshake_def
          accept_configure_def accept_on_accept_def server_read_def arm_timer_def
          split: if_splits option.splits prod.splits)
    then have "accept_inv e t" by (intro accept_inv_cong [OF inv False _ _ _ _ _ _ _ _ _ ne]) auto
    with fr False ne nil show ?thesis by (simp add: session_msgs_def)
  next
    case True
    then have "\<not> failed ec" and t: "t = server_read (arm_timer now (s\<lparr>sa_ops := [], sa_established := True\<rparr>))"
      and m: "m' = manager_add_session k (arm_timer now (s\<lparr>sa_ops := [], sa_established := True\<rparr>)) m"
      using run op ne
      by (cases op;
          auto simp: accept_done_def Let_def accept_on_ssl_handshake_def accept_on_read_handshake_def
            accept_configure_def accept_on_accept_def split: if_splits option.splits prod.splits)+
    let ?s = "s\<lparr>sa_ops := [], sa_established := True\<rparr>"
    have at: "cx_id (arm_timer now u) = cx_id u" "sa_ssl (arm_timer now u) = sa_ssl u"
        "sa_established (arm_timer now u) = sa_established u" "sa_ops (arm_timer now u) = sa_ops u"
        "ss_posted (arm_timer now u) = ss_posted u" "ss_queue (arm_timer now u) = ss_queue u"
      for u :: "('a, 'b) session_accept" by (simp_all add: arm_timer_def)
    have "server_inv e ?s" by (rule server_inv_cong [OF si]) (use si in \<open>auto simp: server_inv_def server_quiet_def\<close>)
    then have "server_inv e t" unfolding t using nil(2) by (intro server_inv_start) (simp_all add: pending_def)
    with True ne nil t m at show ?thesis
      by (simp add: accept_inv_def manager_add_session_def server_read_def session_msgs_def)
  qed
qed

lemma accept_pool_invD:
  assumes "accept_pool_inv e p"
  shows "pool_inv p" "map_of (pl_sessions p) k = Some s \<Longrightarrow> accept_inv e s"
    "distinct_ids (map_of (pl_sessions p))"
    "listed False (sm_plain_sessions (pl_manager p)) (map_of (pl_sessions p))"
    "listed True (sm_ssl_sessions (pl_manager p)) (map_of (pl_sessions p))"
  using assms by (simp_all add: accept_pool_inv_def)

lemma accept_inv_exec:
  assumes "accept_inv e s" and "sa_established s" and "server_enabled ev s"
  shows "accept_inv e (server_exec B e funcs ev s)"
  using assms server_inv_exec [of e s ev B funcs]
  by (simp add: accept_inv_def server_exec_derived del: server_exec.simps)

lemma accept_inv_send: "accept_inv e s \<Longrightarrow> sa_established s \<Longrightarrow> accept_inv e (server_session_send m s)"
  using accept_inv_exec [of e s "Sv_send m"] by simp

lemma pool_session_inv:
  assumes inv: "accept_pool_inv e p" and ids: "keeps_ids funcs" and k: "map_of (pl_sessions p) k = Some s"
    and en: "sa_established s" "server_enabled ev s" "\<And>m. ev \<noteq> Sv_send m"
  shows "accept_pool_inv e (update_session k (server_exec B e funcs ev) p)"
proof -
  note i = accept_pool_invD [OF inv]
  let ?t = "server_exec B e funcs ev s"
  have F: "map_of (pl_sessions (update_session k (server_exec B e funcs ev) p)) =
      (map_of (pl_sessions p))(k \<mapsto> ?t)"
    using k by (simp add: update_session_def update_conv')
  have m: "sm_plain_sessions (pl_manager (update_session k g p)) = sm_plain_sessions (pl_manager p)"
      "sm_ssl_sessions (pl_manager (update_session k g p)) = sm_ssl_sessions (pl_manager p)" for g
    by (simp_all add: update_session_def split: option.split)
  have t: "cx_id ?t = cx_id s" "accept_inv e ?t"
    using server_exec_id [OF ids] accept_inv_exec [OF i(2) [OF k] en(1,2)] by simp_all
  have "pool_inv (update_session k (server_exec B e funcs ev) p)"
    using pool_inv_update [OF i(1)] session_msgs_exec [OF en(3)] by blast
  moreover have "distinct_ids ((map_of (pl_sessions p))(k \<mapsto> ?t))"
    using distinct_ids_update [OF i(3) k t(1)] .
  moreover have "listed ssl tab ((map_of (pl_sessions p))(k \<mapsto> ?t))"
    if "listed ssl tab (map_of (pl_sessions p))" for ssl tab
    using listed_same [OF that k server_exec_derived(1,2) t(1)] .
  ultimately show ?thesis
    using i t unfolding accept_pool_inv_def F m by auto
qed

lemma pool_done_inv:
  assumes inv: "accept_pool_inv e p" and k: "map_of (pl_sessions p) k = Some s" and ops: "sa_ops s \<noteq> []"
  shows "accept_pool_inv e (pool_done B k now ec n buf req p)"
proof -
  note i = accept_pool_invD [OF inv]
  obtain t m where run: "accept_done B now k ec n buf req (s, pl_manager p) = (t, m)" by fastforce
  note d = accept_done_props [OF i(2) [OF k] ops run]
  let ?p1 = "p\<lparr>pl_manager := m\<rparr>" and ?F = "(map_of (pl_sessions p))(k \<mapsto> t)"
  have q: "pool_done B k now ec n buf req p = update_session k (\<lambda>_. t) ?p1"
    using k run by (simp add: pool_done_def)
  have F: "map_of (pl_sessions (update_session k (\<lambda>_. t) ?p1)) = ?F"
    using k by (simp add: update_session_def update_conv')
  have m: "sm_plain_sessions (pl_manager (update_session k g ?p1)) = sm_plain_sessions m"
      "sm_ssl_sessions (pl_manager (update_session k g ?p1)) = sm_ssl_sessions m" for g
    by (simp_all add: update_session_def split: option.split)
  have frame: "sm_msg_queued m = sm_msg_queued (pl_manager p)" "sm_sub_refs m = sm_sub_refs (pl_manager p)"
    using d by (auto simp: manager_add_session_def add_plain_session_def add_ssl_session_def)
  have "pool_inv (update_session k (\<lambda>_. t) ?p1)"
    using d by (intro pool_inv_update pool_inv_manager [OF i(1) frame]) simp
  moreover have "distinct_ids ?F" using distinct_ids_update [OF i(3) k] d by simp
  moreover have "listed False (sm_plain_sessions m) ?F \<and> listed True (sm_ssl_sessions m) ?F"
  proof (cases "sa_established t")
    case False
    with d k i(4,5) show ?thesis by (auto intro: listed_unestablished)
  next
    case True
    note e = listed_established [OF _ k _ True _ _ i(3)]
    have "listed (\<not> sa_ssl t) tab ?F" if "listed (\<not> sa_ssl t) tab (map_of (pl_sessions p))" for tab
      using that k d by (intro listed_unestablished) auto
    with True d i(4,5) e show ?thesis
      by (cases "sa_ssl t")
        (simp_all add: manager_add_session_def add_plain_session_def add_ssl_session_def)
  qed
  ultimately show ?thesis
    using i(2) d unfolding accept_pool_inv_def q F m by auto
qed

lemma pool_construct_inv:
  assumes inv: "accept_pool_inv e p" and fresh: "k \<notin> fst ` set (pl_sessions p)"
    "i \<notin> (\<lambda>(k, s). cx_id s) ` set (pl_sessions p)"
  shows "accept_pool_inv e (pool_construct B H k ssl i host buf st sg p)"
proof -
  note v = accept_pool_invD [OF inv]
  let ?s = "session_accept_accept B (session_accept_new B H ssl i host buf st sg)"
  have ai: "accept_inv e ?s" by (rule accept_inv_new)
  have s: "cx_id ?s = i" "\<not> sa_established ?s" "session_msgs ?s = []"
    by (auto simp: session_accept_accept_def accept_ssl_handshake_def accept_on_ssl_handshake_def
        session_msgs_def)
  have none: "map_of (pl_sessions p) k = None" using fresh(1) by (simp add: map_of_eq_None_iff)
  have F: "map_of (pl_sessions (pool_construct B H k ssl i host buf st sg p)) =
      (map_of (pl_sessions p))(k \<mapsto> ?s)"
    using none by (auto simp: pool_construct_def insert_session_def fun_eq_iff map_add_def split: option.split)
  have "pool_inv (pool_construct B H k ssl i host buf st sg p)"
    unfolding pool_construct_def by (rule pool_inv_insert [OF v(1) fresh(1) s(3)])
  moreover have "cx_id t \<noteq> cx_id ?s" if "map_of (pl_sessions p) j = Some t" for j t
    using map_of_SomeD [OF that] fresh(2) s(1) by force
  then have "distinct_ids ((map_of (pl_sessions p))(k \<mapsto> ?s))"
    by (rule distinct_ids_fresh [OF v(3)])
  moreover have "listed x tab ((map_of (pl_sessions p))(k \<mapsto> ?s))"
    if "listed x tab (map_of (pl_sessions p))" for x tab
    using that none s(2) by (auto intro: listed_unestablished)
  moreover have "pl_manager (pool_construct B H k ssl i host buf st sg p) = pl_manager p"
    by (simp add: pool_construct_def insert_session_def)
  ultimately show ?thesis using v ai unfolding accept_pool_inv_def F by auto
qed

lemma pool_delete_inv:
  assumes inv: "accept_pool_inv e p" and k: "map_of (pl_sessions p) k = Some s"
  shows "accept_pool_inv e (snd (pool_delete k p))"
proof -
  note v = accept_pool_invD [OF inv]
  let ?m = "if sa_established s then manager_remove_session s (pl_manager p) else pl_manager p"
  let ?F = "(map_of (pl_sessions p))(k := None)"
  have q: "snd (pool_delete k p) = erase_session k (p\<lparr>pl_manager := ?m\<rparr>)"
    using k by (simp add: pool_delete_def session_accept_delete_def Let_def)
  have F: "map_of (pl_sessions (erase_session k (p\<lparr>pl_manager := ?m\<rparr>))) = ?F"
    by (simp add: erase_session_def delete_conv')
  have frame: "sm_msg_queued ?m = sm_msg_queued (pl_manager p)" "sm_sub_refs ?m = sm_sub_refs (pl_manager p)"
    by (auto simp: manager_remove_session_def remove_plain_session_def remove_ssl_session_def split: option.split)
  have t: "sm_plain_sessions ?m = (if sa_established s \<and> sa_ssl s = False
        then AList.delete (cx_id s) (sm_plain_sessions (pl_manager p)) else sm_plain_sessions (pl_manager p))"
      "sm_ssl_sessions ?m = (if sa_established s \<and> sa_ssl s = True
        then AList.delete (cx_id s) (sm_ssl_sessions (pl_manager p)) else sm_ssl_sessions (pl_manager p))"
    by (auto simp: manager_remove_session_def remove_plain_session_def remove_ssl_session_def delete_absent
        split: option.split)
  have m: "sm_plain_sessions (pl_manager (erase_session k (p\<lparr>pl_manager := ?m\<rparr>))) = sm_plain_sessions ?m"
      "sm_ssl_sessions (pl_manager (erase_session k (p\<lparr>pl_manager := ?m\<rparr>))) = sm_ssl_sessions ?m"
    by (simp_all add: erase_session_def)
  have "pool_inv (erase_session k (p\<lparr>pl_manager := ?m\<rparr>))"
    by (rule pool_inv_erase [OF pool_inv_manager [OF v(1) frame]])
  moreover have "\<forall>j u. ?F j = Some u \<longrightarrow> accept_inv e u" using v(2) by auto
  ultimately show ?thesis
    using listed_deleted [OF v(4) k v(3)] listed_deleted [OF v(5) k v(3)] distinct_ids_delete [OF v(3)]
    unfolding accept_pool_inv_def q F m t by blast
qed

lemma broadcast_tables:
  "sm_plain_sessions (pl_manager (manager_broadcast cid bs ids p)) = sm_plain_sessions (pl_manager p)"
  "sm_ssl_sessions (pl_manager (manager_broadcast cid bs ids p)) = sm_ssl_sessions (pl_manager p)"
  "sm_bound_funcs (pl_manager (manager_broadcast cid bs ids p)) = sm_bound_funcs (pl_manager p)"
  by (simp_all add: manager_broadcast_def Let_def)

lemma targeted_established:
  assumes "accept_pool_inv e p"
  shows "targeted ids (pl_manager p) k \<longleftrightarrow>
    (\<exists>s. map_of (pl_sessions p) k = Some s \<and> sa_established s \<and>
       (case ids of None \<Rightarrow> True | Some is \<Rightarrow> cx_id s \<in> set is))"
proof -
  note v = accept_pool_invD [OF assms]
  show ?thesis
    unfolding targeted_def using listed_find [OF v(4)] listed_find [OF v(5)] by auto
qed

lemma broadcast_live:
  assumes inv: "accept_pool_inv e p"
    and room: "sm_msg_queued (pl_manager p) < int queue_send_max" and some: "pl_sessions p \<noteq> []"
  shows "map_of (pl_sessions (manager_broadcast cid bs ids p)) k =
    map_option (\<lambda>s. if sa_established s \<and> (case ids of None \<Rightarrow> True | Some is \<Rightarrow> cx_id s \<in> set is)
        then server_session_send \<lparr>sp_msg = Some (pl_next_message p),
           sp_data = \<lparr>dp_header = io_header_new cid 0, dp_body = bs\<rparr>\<rparr> s
        else s) (map_of (pl_sessions p) k)"
proof -
  note v = accept_pool_invD [OF inv]
  have "tables_ok (pl_manager p)" using tables_ok_listed [OF v(4,5)] .
  moreover have "connections p \<noteq> 0" using connections_zero [OF v(1)] some by simp
  ultimately show ?thesis
    using broadcast_sessions [OF _ refl room, of cid bs ids k] targeted_established [OF inv, of ids k]
    by (cases "map_of (pl_sessions p) k") auto
qed

lemma pool_broadcast_inv:
  assumes inv: "accept_pool_inv e p"
  shows "accept_pool_inv e (manager_broadcast cid bs ids p)"
proof (cases "sm_msg_queued (pl_manager p) < int queue_send_max \<and> pl_sessions p \<noteq> []")
  case False
  then have "manager_broadcast cid bs ids p = p"
    using connections_zero [OF accept_pool_invD(1) [OF inv]] by (auto simp: manager_broadcast_def Let_def)
  with inv show ?thesis by simp
next
  case True
  note v = accept_pool_invD [OF inv]
  define g where "g = (\<lambda>s. if sa_established s \<and> (case ids of None \<Rightarrow> True | Some is \<Rightarrow> cx_id s \<in> set is)
        then server_session_send \<lparr>sp_msg = Some (pl_next_message p),
           sp_data = \<lparr>dp_header = io_header_new cid 0, dp_body = bs\<rparr>\<rparr> s
        else (s :: ('a, 'b) session_accept))"
  have F: "map_of (pl_sessions (manager_broadcast cid bs ids p)) = (\<lambda>k. map_option g (map_of (pl_sessions p) k))"
    using broadcast_live [OF inv] True by (auto simp: g_def)
  have g: "cx_id (g s) = cx_id s" "sa_established (g s) = sa_established s" "sa_ssl (g s) = sa_ssl s" for s
    by (simp_all add: g_def server_session_send_def)
  have "accept_inv e (g s)" if "accept_inv e s" for s
    using that by (simp add: g_def accept_inv_send)
  moreover have "listed ssl tab (\<lambda>k. map_option g (map_of (pl_sessions p) k))"
    if "listed ssl tab (map_of (pl_sessions p))" for ssl tab
    using listed_distinct [OF that] listed_find [OF that] g by (intro listedI) auto
  moreover have "distinct_ids (\<lambda>k. map_option g (map_of (pl_sessions p) k))"
    unfolding distinct_ids_def
  proof (intro allI impI)
    fix j k s t
    assume "map_option g (map_of (pl_sessions p) j) = Some s" "map_option g (map_of (pl_sessions p) k) = Some t"
      and "cx_id s = cx_id t"
    then show "j = k" using distinct_idsD [OF v(3), of j _ k] g by auto
  qed
  ultimately show ?thesis
    using v pool_inv_broadcast [OF v(1)] unfolding accept_pool_inv_def F broadcast_tables by auto
qed

definition system_inv :: "endian \<Rightarrow> ('b, 'h) accept_pool \<Rightarrow> bool" where
  "system_inv e p \<longleftrightarrow> accept_pool_inv e p \<and> keeps_ids (map_of (sm_bound_funcs (pl_manager p)))"

definition system_start :: "('b, 'h) accept_pool \<Rightarrow> bool" where
  "system_start p \<longleftrightarrow> pool_start p \<and> keeps_ids (map_of (sm_bound_funcs (pl_manager p)))"

lemma pool_exec_funcs: "sm_bound_funcs (pl_manager (pool_exec B H e ev p)) = sm_bound_funcs (pl_manager p)"
proof (cases ev)
  case (Pl_done k now ec n buf req)
  have "sm_bound_funcs m' = sm_bound_funcs m"
    if "accept_done B now k ec n buf req (s, m) = (t, m')" for s t m m'
    using that by (auto simp: accept_done_def Let_def accept_on_accept_def manager_add_session_def
        add_plain_session_def add_ssl_session_def split: list.splits accept_op.splits if_splits)
  with Pl_done show ?thesis
    by (auto simp: pool_done_def update_session_def split: option.split prod.split)
qed (auto simp: pool_construct_def insert_session_def update_session_def broadcast_tables pool_delete_def
    session_accept_delete_def erase_session_def manager_remove_session_def remove_plain_session_def
    remove_ssl_session_def Let_def split: option.split)

lemma accept_pool_inv_start: "pool_start p \<Longrightarrow> accept_pool_inv e p"
  by (auto simp: pool_start_def accept_pool_inv_def pool_inv_def pool_pre_def referenced_def
      distinct_ids_def listed_def)

lemma system_inv_exec:
  assumes inv: "system_inv e p" and en: "pool_enabled ev p"
  shows "system_inv e (pool_exec B H e ev p)"
proof -
  from inv have v: "accept_pool_inv e p" and ids: "keeps_ids (map_of (sm_bound_funcs (pl_manager p)))"
    by (simp_all add: system_inv_def)
  have "accept_pool_inv e (pool_exec B H e ev p)"
  proof (cases ev)
    case (Pl_session k sev)
    with en obtain s where "map_of (pl_sessions p) k = Some s" "sa_established s" "server_enabled sev s"
      "\<And>m. sev \<noteq> Sv_send m" by (auto split: option.splits server_event.splits)
    from pool_session_inv [OF v ids this] Pl_session show ?thesis by simp
  qed (use en v in \<open>auto intro: pool_construct_inv pool_done_inv pool_broadcast_inv pool_delete_inv
        split: option.splits\<close>)
  with ids show ?thesis by (simp add: system_inv_def pool_exec_funcs)
qed

interpretation pool_sys: invariant_system system_start "pool_step B H e" "system_inv e"
proof unfold_locales
  show "system_start p \<Longrightarrow> system_inv e p" for p :: "('a, 'b) accept_pool"
    by (simp add: system_start_def system_inv_def accept_pool_inv_start)
  show "system_inv e p \<Longrightarrow> pool_step B H e p ev q \<Longrightarrow> system_inv e q" for p q :: "('a, 'b) accept_pool" and ev
    by (auto elim!: pool_stepE intro: system_inv_exec)
qed

section \<open>Properties\<close>

text \<open>C10: in every state a server can reach, whatever its clients and users do, the tables hold exactly
  the established sessions that are alive, so \<^verbatim>\<open>get_session_ids()\<close> lists their ids, each once, and
  every broadcast message counted by the manager is still held by some session. (The handlers of
  the users do not assign the public member \<^verbatim>\<open>id\<close>.)\<close>

theorem tables_list_established:
  assumes "reachable system_start (pool_step B H e) p"
  shows "set (get_session_ids (pl_manager p)) =
       {cx_id s | k s. map_of (pl_sessions p) k = Some s \<and> sa_established s} \<and>
     distinct (get_session_ids (pl_manager p)) \<and>
     sm_msg_queued (pl_manager p) = int (length (pl_messages p)) \<and>
     (\<forall>i \<in> set (pl_messages p). \<exists>k s. map_of (pl_sessions p) k = Some s \<and> i \<in> set (session_msgs s))"
proof -
  have "accept_pool_inv e p" using pool_sys.reachable_inv [OF assms] by (simp add: system_inv_def)
  note v = accept_pool_invD [OF this]
  let ?P = "sm_plain_sessions (pl_manager p)" and ?S = "sm_ssl_sessions (pl_manager p)"
  have P: "i \<in> fst ` set ?P \<longleftrightarrow> (\<exists>k. map_of ?P i = Some k)"
    and S: "i \<in> fst ` set ?S \<longleftrightarrow> (\<exists>k. map_of ?S i = Some k)" for i
    by (metis map_of_eq_None_iff not_None_eq)+
  have ids: "set (get_session_ids (pl_manager p)) =
       {cx_id s | k s. map_of (pl_sessions p) k = Some s \<and> sa_established s}"
    unfolding get_session_ids_def set_append set_map
    by (rule set_eqI)
      (simp only: Un_iff P S listed_find [OF v(4)] listed_find [OF v(5)] mem_Collect_eq, blast)
  have "fst ` set ?P \<inter> fst ` set ?S = {}"
  proof (rule equals0I)
    fix i
    assume "i \<in> fst ` set ?P \<inter> fst ` set ?S"
    then obtain j k s t where "map_of (pl_sessions p) j = Some s" "\<not> sa_ssl s" "cx_id s = i"
      "map_of (pl_sessions p) k = Some t" "sa_ssl t" "cx_id t = i"
      using P S listed_find [OF v(4)] listed_find [OF v(5)] by auto
    then show False using distinct_idsD [OF v(3), of j s k t] by auto
  qed
  then have "distinct (get_session_ids (pl_manager p))"
    using listed_distinct [OF v(4)] listed_distinct [OF v(5)]
    by (simp add: get_session_ids_def distinct_keys_def)
  moreover have "\<exists>k s. map_of (pl_sessions p) k = Some s \<and> i \<in> set (session_msgs s)"
    if "i \<in> set (pl_messages p)" for i
    using v(1) that by (fastforce simp: pool_inv_def pool_pre_def referenced_iff distinct_keys_def)
  ultimately show ?thesis using ids v(1) by (simp add: pool_inv_def pool_pre_def)
qed

abbreviation demo_start :: "(u8 list, (string \<times> string) list) accept_pool" where
  "demo_start \<equiv> \<lparr>pl_manager = (session_manager_new server_config_default)\<lparr>sm_sub_refs := 3\<rparr>,
     pl_refs = 2, pl_sessions = [], pl_messages = [], pl_next_message = 0\<rparr>"

lemma demo_system_start: "system_start demo_start"
  by (simp add: system_start_def pool_start_def session_manager_new_def keeps_ids_def)

theorem tables_list_established_witness:
  "set (get_session_ids (pl_manager (pool_exec byte_buffer list_http Big
      (Pl_construct 0 True 8 ''h'' [] server_timeout_default session_config_default) demo_start))) = {}"
proof -
  let ?ev = "Pl_construct 0 True 8 ''h'' [] server_timeout_default session_config_default"
  let ?p = "pool_exec byte_buffer list_http Big ?ev demo_start"
  have "reachable system_start (pool_step byte_buffer list_http Big) demo_start"
    by (rule reachable.reach_init) (rule demo_system_start)
  moreover have "pool_step byte_buffer list_http Big demo_start ?ev ?p"
    by (rule pool_stepI) simp
  ultimately have "reachable system_start (pool_step byte_buffer list_http Big) ?p"
    by (rule reachable.reach_step)
  from tables_list_established [OF this] show ?thesis
    by (auto simp: pool_construct_def insert_session_def session_accept_accept_def accept_ssl_handshake_def
        split: if_splits)
qed

text \<open>C11: a broadcast hands one copy of the message to every established session whose id was asked
  for (to all of them without a list of ids), however often an id is listed and whether the
  session is plain or TLS, and leaves every other session alone. When as many broadcasts as
  allowed are queued, or there is no session, nothing happens.\<close>

theorem broadcast_reaches_established:
  assumes "reachable system_start (pool_step B H e) p"
  shows "if int queue_send_max \<le> sm_msg_queued (pl_manager p) \<or> pl_sessions p = []
     then manager_broadcast cid bs ids p = p
     else map_of (pl_sessions (manager_broadcast cid bs ids p)) k =
       map_option (\<lambda>s. if sa_established s \<and> (case ids of None \<Rightarrow> True | Some is \<Rightarrow> cx_id s \<in> set is)
           then server_session_send \<lparr>sp_msg = Some (pl_next_message p),
              sp_data = \<lparr>dp_header = io_header_new cid 0, dp_body = bs\<rparr>\<rparr> s
           else s) (map_of (pl_sessions p) k)"
proof -
  have inv: "accept_pool_inv e p" using pool_sys.reachable_inv [OF assms] by (simp add: system_inv_def)
  then have "pl_sessions p = [] \<Longrightarrow> connections p = 0"
    using connections_zero [OF accept_pool_invD(1)] by blast
  with broadcast_live [OF inv, of cid bs ids k] show ?thesis
    by (auto simp: manager_broadcast_def Let_def)
qed

fun pool_run ::
  "'b flat_buffer \<Rightarrow> 'h http_fields \<Rightarrow> endian \<Rightarrow> ('b, 'h) pool_event list \<Rightarrow> ('b, 'h) accept_pool \<Rightarrow>
   ('b, 'h) accept_pool" where
  "pool_run B H e [] p = p"
| "pool_run B H e (ev # evs) p =
     pool_run B H e evs (if pool_enabled ev p then pool_exec B H e ev p else p)"

lemma pool_run_reachable:
  "reachable system_start (pool_step B H e) p \<Longrightarrow>
   reachable system_start (pool_step B H e) (pool_run B H e evs p)"
  by (induction evs arbitrary: p) (auto intro: reachable.reach_step pool_stepI)

abbreviation demo_accept :: "(u8 list, (string \<times> string) list) pool_event list" where
  "demo_accept \<equiv>
     [Pl_construct 4 False 7 ''host'' [] server_timeout_default session_config_default,
      Pl_done 4 0 No_error 0 [] [], Pl_done 4 0 No_error 0 [] []]"

lemmas pool_eval =
  pool_construct_def insert_session_def session_accept_accept_def accept_ssl_handshake_def
  accept_on_ssl_handshake_def pool_done_def accept_done_def Let_def accept_on_read_handshake_def
  accept_configure_def accept_on_accept_def arm_timer_def server_read_def update_session_def
  release_def referenced_def session_msgs_def manager_add_session_def add_plain_session_def
  session_accept_new_def server_session_new_def server_session.extend_def session_accept.fields_def
  session_manager_new_def session_config_default_def

lemma demo_accept_run:
  "\<exists>s. pl_sessions (pool_run byte_buffer list_http Big demo_accept demo_start) = [(4, s)] \<and>
     sa_established s \<and> ss_posted s = [] \<and> cx_id s = 7"
  "sm_msg_queued (pl_manager (pool_run byte_buffer list_http Big demo_accept demo_start)) = 0"
  "pl_next_message (pool_run byte_buffer list_http Big demo_accept demo_start) = 0"
  by (simp_all add: pool_eval)

theorem broadcast_reaches_established_witness:
  "map_option ss_posted (map_of (pl_sessions (manager_broadcast 5 [1] (Some [7, 8, 7])
      (pool_run byte_buffer list_http Big demo_accept demo_start))) 4) =
   Some [\<lparr>sp_msg = Some 0, sp_data = \<lparr>dp_header = io_header_new 5 0, dp_body = [1]\<rparr>\<rparr>]"
proof -
  have "reachable system_start (pool_step byte_buffer list_http Big)
      (pool_run byte_buffer list_http Big demo_accept demo_start)"
    by (rule pool_run_reachable, rule reachable.reach_init) (rule demo_system_start)
  from broadcast_reaches_established [OF this, of 5 "[1]" "Some [7, 8, 7]" 4] demo_accept_run show ?thesis
    by (auto simp: queue_send_max_def server_session_send_def simp del: pool_run.simps)
qed

section \<open>Accepting a connection\<close>

text \<open>
  The library completing the operations of an accept sequence, each with its error code, the
  number of bytes a TLS handshake has used, and the buffer and request a read leaves.
\<close>

fun accept_drive ::
  "'b flat_buffer \<Rightarrow> time_point \<Rightarrow> nat \<Rightarrow> (error_code \<times> nat \<times> 'b \<times> 'h) list \<Rightarrow>
   ('b, 'h) session_accept \<times> 'h session_manager \<Rightarrow> ('b, 'h) session_accept \<times> 'h session_manager" where
  "accept_drive B now k [] x = x"
| "accept_drive B now k ((ec, n, buf, req) # evs) x =
     accept_drive B now k evs (accept_done B now k ec n buf req x)"

definition accept_verdict ::
  "'h session_manager \<Rightarrow> 'h session_info \<Rightarrow> bool \<times> session_config \<times> 'h" where
  "accept_verdict m info =
     (case sm_on_accept m of
        None \<Rightarrow> (True, si_config info, si_response_handshake info)
      | Some h \<Rightarrow> h info)"

lemma accept_done_nothing: "sa_ops s = [] \<Longrightarrow> accept_done B now k ec n buf req (s, m) = (s, m)"
  by (simp add: accept_done_def)

lemma accept_read_eq:
  assumes "sa_ops s = [Ac_read_handshake]"
  shows "accept_done B now k ec n buf req (s, m) =
    (let s1 = s\<lparr>sa_ops := [], sa_handshake_buffer := buf, cx_req_handshake := req\<rparr> in
     if failed ec \<or> fb_size B buf \<noteq> 0 then (s1, m)
     else case accept_verdict m (session_info_of s1) of
       (ok, cfg, res) \<Rightarrow>
         (let s2 = s1\<lparr>sa_handshake_buffer := fb_consume B buf (fb_size B buf), cx_config := cfg, cx_res_handshake := res\<rparr>
          in (if ok then accept_configure s2 else s2, m)))"
  using assms
  by (auto simp: accept_done_def accept_on_read_handshake_def accept_verdict_def session_info_of_def Let_def
      split: option.split prod.split)

lemma accept_tail:
  assumes ops: "sa_ops s = [Ac_read_handshake]" and ne: "\<not> sa_established s" and idle: "pending s = 0"
    and verdict: "accept_verdict m (session_info_of (s\<lparr>cx_req_handshake := req\<rparr>)) = (ok, cfg, res)"
    and run: "accept_drive B now k [(e2, n2, buf, req), (e3, n3, buf3, req3)] (s, m) = (t, m')"
  shows "if \<not> failed e2 \<and> fb_size B buf = 0 \<and> ok \<and> \<not> failed e3
     then sa_established t \<and> so_reads (ss_stream t) = 1 \<and> cx_config t = cfg \<and> sa_ops t = [] \<and>
       m' = manager_add_session k s m \<and> sa_decorator t = Some res \<and>
       sa_read_message_max t = Some (sg_max_transfer_bytes cfg + of_nat sizeof_io_header) \<and>
       sa_expires t = None \<and> sa_stream_timeout t = Some (st_handshake_or_close_timeout (ss_server_timeout s)) \<and>
       (tm_waits (ss_timer t) = 1 \<longleftrightarrow> sg_ping_delay cfg \<noteq> duration_zero)
     else \<not> sa_established t \<and> session_idle t \<and> m' = m"
proof -
  let ?s1 = "s\<lparr>sa_ops := [], sa_handshake_buffer := buf, cx_req_handshake := req\<rparr>"
  let ?s2 = "?s1\<lparr>sa_handshake_buffer := fb_consume B buf (fb_size B buf), cx_config := cfg, cx_res_handshake := res\<rparr>"
  have v: "accept_verdict m (session_info_of ?s1) = (ok, cfg, res)"
    using verdict by (simp add: session_info_of_def)
  have p0: "so_reads (ss_stream s) = 0" "tm_waits (ss_timer s) = 0" using idle by (simp_all add: pending_def)
  have pend: "pending u = 0" if "ss_stream u = ss_stream s" "ss_timer u = ss_timer s" "ss_posted u = ss_posted s"
    for u :: "('a, 'b) session_accept" using idle that by (simp add: pending_def)
  show ?thesis
  proof (cases "\<not> failed e2 \<and> fb_size B buf = 0 \<and> ok")
    case False
    then have "t = ?s1 \<or> t = ?s2" and "m' = m"
      using run v by (auto simp: accept_read_eq [OF ops] accept_done_nothing Let_def split: if_splits)
    with False ne pend show ?thesis by (auto simp: session_idle_def)
  next
    case True
    then have x: "accept_done B now k e3 n3 buf3 req3 (accept_configure ?s2, m) = (t, m')"
      using run v by (simp add: accept_read_eq [OF ops] Let_def)
    show ?thesis
    proof (cases "failed e3")
      case True
      with x have "t = (accept_configure ?s2)\<lparr>sa_ops := []\<rparr>" "m' = m"
        by (simp_all add: accept_done_def accept_configure_def accept_on_accept_def Let_def)
      with True ne pend show ?thesis by (auto simp: session_idle_def accept_configure_def)
    next
      case False
      with x True p0 show ?thesis
        by (auto simp: accept_done_def accept_configure_def accept_on_accept_def Let_def server_read_def
            arm_timer_def manager_add_session_def)
    qed
  qed
qed

text \<open>C18: a connection becomes a session exactly when the TLS handshake (on a TLS stream), the
  reading of the client's handshake, the user's accept handler and the websocket handshake all
  succeed and the client has sent nothing beyond its handshake. Then it is in its table with
  its first read started and the handler's decisions in force: its configuration, the fields it answers with,
  the limit for a message, the handshake timeout of the stream in place of the one for accepting, and a ping timer
  exactly when a delay is configured; otherwise nothing refers to the session object any more and the tables
  are unchanged.\<close>

theorem accept_establishes:
  assumes s: "s = session_accept_accept B (session_accept_new B H ssl i host hbuf st sg)"
    and run: "accept_drive B now k ((if ssl then [(e1, n1, b1, r1)] else []) @
         [(e2, n2, buf, req), (e3, n3, buf3, req3)]) (s, m) = (t, m')"
    and verdict: "accept_verdict m \<lparr>si_id = i, si_remote_host = host, si_request_handshake = req,
         si_response_handshake = hd_new H, si_config = sg\<rparr> = (ok, cfg, res)"
  shows "if (ssl \<longrightarrow> \<not> failed e1) \<and> \<not> failed e2 \<and> fb_size B buf = 0 \<and> ok \<and> \<not> failed e3
     then sa_established t \<and> so_reads (ss_stream t) = 1 \<and> cx_config t = cfg \<and> sa_decorator t = Some res \<and>
       sa_read_message_max t = Some (sg_max_transfer_bytes cfg + of_nat sizeof_io_header) \<and>
       sa_expires t = None \<and> sa_stream_timeout t = Some (st_handshake_or_close_timeout st) \<and>
       m' = (if ssl then add_ssl_session i k m else add_plain_session i k m) \<and>
       (tm_waits (ss_timer t) = 1 \<longleftrightarrow> sg_ping_delay cfg \<noteq> duration_zero)
     else \<not> sa_established t \<and> session_idle t \<and> m' = m"
proof -
  have pend: "pending u = 0" if "ss_stream u = stream_new" "ss_timer u = timer_new" "ss_posted u = []"
    for u :: "('a, 'b) session_accept" using that by (simp add: pending_def)
  show ?thesis
  proof (cases "ssl \<and> failed e1")
    case True
    then have "t = s\<lparr>sa_ops := []\<rparr>" "m' = m"
      using run by (simp_all add: s session_accept_accept_def accept_ssl_handshake_def accept_done_def
          accept_on_ssl_handshake_def Let_def)
    with True show ?thesis
      by (simp add: s session_accept_accept_def accept_ssl_handshake_def session_idle_def pend)
  next
    case False
    define s1 where "s1 = (if ssl then fst (accept_done B now k e1 n1 b1 r1 (s, m)) else s)"
    have s1: "sa_ops s1 = [Ac_read_handshake]" "\<not> sa_established s1" "pending s1 = 0"
      "session_info_of (s1\<lparr>cx_req_handshake := req\<rparr>) = \<lparr>si_id = i, si_remote_host = host,
         si_request_handshake = req, si_response_handshake = hd_new H, si_config = sg\<rparr>"
      "cx_id s1 = i" "sa_ssl s1 = ssl" "ss_server_timeout s1 = st"
      using False by (auto simp: s1_def s session_accept_accept_def accept_ssl_handshake_def accept_done_def
          accept_on_ssl_handshake_def Let_def session_info_of_def pend)
    have "accept_drive B now k [(e2, n2, buf, req), (e3, n3, buf3, req3)] (s1, m) = (t, m')"
    proof (cases ssl)
      case True
      then have "accept_done B now k e1 n1 b1 r1 (s, m) = (s1, m)"
        by (simp add: s1_def s session_accept_accept_def accept_ssl_handshake_def accept_done_def Let_def)
      with run True show ?thesis by simp
    next
      case False
      with run show ?thesis by (simp add: s1_def)
    qed
    from accept_tail [OF s1(1-3) _ this, unfolded s1(4), OF verdict] False s1(5-7) show ?thesis
      by (auto simp: manager_add_session_def)
  qed
qed

theorem accept_establishes_witness:
  "let t = fst (accept_drive byte_buffer 0 4 [(No_error, 0, [], []), (No_error, 0, [], [])]
     (session_accept_accept byte_buffer (session_accept_new byte_buffer list_http False 7 ''host'' []
        server_timeout_default session_config_default), session_manager_new server_config_default))
   in sa_established t \<and> sa_expires t = None \<and> sa_stream_timeout t \<noteq> None \<and> sa_read_message_max t \<noteq> None \<and> sa_decorator t \<noteq> None"
proof -
  let ?m = "session_manager_new server_config_default :: (string \<times> string) list session_manager"
  let ?s = "session_accept_accept byte_buffer (session_accept_new byte_buffer list_http False 7 ''host'' []
        server_timeout_default session_config_default)"
  let ?r = "accept_drive byte_buffer 0 4 [(No_error, 0, [], []), (No_error, 0, [], [])] (?s, ?m)"
  have "accept_verdict ?m \<lparr>si_id = 7, si_remote_host = ''host'', si_request_handshake = [],
      si_response_handshake = hd_new list_http, si_config = session_config_default\<rparr> =
    (True, session_config_default, hd_new list_http)"
    by (simp add: accept_verdict_def session_manager_new_def)
  from accept_establishes [where ssl = False and t = "fst ?r" and m' = "snd ?r", OF refl _ this]
  show ?thesis by (simp add: Let_def del: accept_drive.simps)
qed

text \<open>The limit for a message of a session is the configured number of bytes plus the size of a
  header, computed in 64 bits: it is exact up to \<open>2 ^ 64 - 17\<close> bytes and wraps around to less than
  a header above that.\<close>

theorem message_limit:
  "sa_read_message_max (accept_configure s) =
     Some (word_of_nat (unat (sg_max_transfer_bytes (cx_config s)) + 16)) \<and>
   unat (the (sa_read_message_max (accept_configure s))) =
     (if unat (sg_max_transfer_bytes (cx_config s)) + 16 < 2 ^ 64
      then unat (sg_max_transfer_bytes (cx_config s)) + 16
      else unat (sg_max_transfer_bytes (cx_config s)) + 16 - 2 ^ 64)"
proof -
  let ?w = "sg_max_transfer_bytes (cx_config s)"
  have w: "?w + of_nat sizeof_io_header = word_of_nat (unat ?w + 16)"
    by (simp add: sizeof_io_header_def)
  have "unat ?w < 2 ^ 64" using unsigned_less [of ?w] by simp
  then have "(unat ?w + 16) mod 2 ^ 64 = (if unat ?w + 16 < 2 ^ 64 then unat ?w + 16 else unat ?w + 16 - 2 ^ 64)"
    by (simp add: mod_if)
  moreover have "unat (word_of_nat (unat ?w + 16) :: u64) = (unat ?w + 16) mod 2 ^ 64"
    by (simp only: unsigned_of_nat take_bit_eq_mod len_bit0 len_num1) simp
  ultimately show ?thesis by (simp only: accept_configure_def w) simp
qed

section \<open>Ending a session\<close>

text \<open>
  After a read error a session only ends: \<open>ending\<close> is what the read handler has made of it, and
  \<open>remaining\<close> counts the operations it still waits for, one more for a close that may yet start.
\<close>

definition ending :: "('b, 'h, 'z) server_session_scheme \<Rightarrow> bool" where
  "ending s \<longleftrightarrow> ss_read_error s \<and> so_reads (ss_stream s) = 0 \<and>
     (sg_ping_delay (cx_config s) = duration_zero \<longrightarrow> ss_close s \<or> ss_close_received s) \<and>
     (sg_ping_delay (cx_config s) \<noteq> duration_zero \<longrightarrow>
        ss_ping_state s = Ping_close \<and> tm_expiry (ss_timer s) \<le> 2 ^ 63 - 1) \<and>
     (tm_waits (ss_timer s) \<noteq> 0 \<longrightarrow> sg_ping_delay (cx_config s) \<noteq> duration_zero)"

definition remaining :: "('b, 'h, 'z) server_session_scheme \<Rightarrow> nat" where
  "remaining s = pending s + of_bool (tm_waits (ss_timer s) \<noteq> 0 \<and> \<not> (ss_close s \<or> ss_close_received s))"

text \<open>The events of an ending session: completions, with a clock that does not run backwards.\<close>

fun completes :: "'b server_event \<Rightarrow> ('b, 'h, 'z) server_session_scheme \<Rightarrow> bool" where
  "completes (Sv_send m) s \<longleftrightarrow> False"
| "completes (Sv_control now kind) s \<longleftrightarrow> False"
| "completes (Sv_timer now is_open ec) s \<longleftrightarrow> tm_waits (ss_timer s) \<noteq> 0 \<and> tm_expiry (ss_timer s) \<le> sint now"
| "completes ev s \<longleftrightarrow> server_enabled ev s"

lemma sint_le_max: "sint (w :: time_point) \<le> 2 ^ 63 - 1"
  using sint_less [of w] by simp

lemma ending_starts:
  assumes "server_inv e s" and "so_reads (ss_stream s) \<noteq> 0" and "failed ec"
    and "tm_waits (ss_timer s) \<noteq> 0 \<longrightarrow> sg_ping_delay (cx_config s) \<noteq> duration_zero"
  shows "ending (server_exec B e funcs (Sv_read now ec b) s)"
  using assms sint_le_max [of now]
  by (auto simp: ending_def server_on_read_def server_close_session_def server_shutdown_def
      server_inv_def server_quiet_def)

lemma ending_step:
  assumes en: "ending s" and ev: "completes ev s"
  shows "ending (server_exec B e funcs ev s) \<and> remaining (server_exec B e funcs ev s) < remaining s"
proof (cases ev)
  case Sv_posted
  then obtain m ms where p: "ss_posted s = m # ms" using ev by (cases "ss_posted s") auto
  have "\<not> server_accepts (s\<lparr>ss_posted := ms\<rparr>)" using en by (simp add: ending_def server_accepts_def)
  with Sv_posted p en show ?thesis
    by (simp add: server_send_refused ending_def remaining_def pending_def)
next
  case (Sv_wrote now ec)
  let ?s = "s\<lparr>ss_stream := write_done (ss_stream s)\<rparr>"
  have w: "so_writes (ss_stream s) \<noteq> []" using ev Sv_wrote by simp
  have "\<not> server_goes_on ec ?s" using en by (simp add: ending_def server_goes_on_def)
  then have x: "server_exec B e funcs ev s = server_close_session now (?s\<lparr>ss_write_error := True, ss_queue := []\<rparr>)"
    using Sv_wrote by (simp add: server_wrote_failed)
  from w have l: "Suc (length (tl (so_writes (ss_stream s)))) = length (so_writes (ss_stream s))" by simp
  show ?thesis
    using en l sint_le_max [of now] unfolding x
    by (auto simp: ending_def remaining_def pending_def server_close_session_def server_shutdown_def)
next
  case (Sv_timer now is_open ec)
  with en ev show ?thesis
    by (auto simp: ending_def remaining_def pending_def on_timer_def Let_def server_shutdown_def)
qed (use en ev in \<open>auto simp: ending_def remaining_def pending_def server_on_ping_def on_shutdown_def\<close>)

lemma ending_progress:
  assumes "ending s" and "pending s \<noteq> 0"
  shows "\<exists>ev. completes ev s"
proof -
  have m: "sint (duration_max :: time_point) = 2 ^ 63 - 1" by (rule duration_max_sint)
  consider "so_writes (ss_stream s) \<noteq> []" | "so_pings (ss_stream s) \<noteq> 0" | "so_closes (ss_stream s) \<noteq> 0"
    | "tm_waits (ss_timer s) \<noteq> 0" | "ss_posted s \<noteq> []"
    using assms by (auto simp: ending_def pending_def)
  then show ?thesis
  proof cases
    case 1
    then have "completes (Sv_wrote 0 No_error) s" by simp
    then show ?thesis by blast
  next
    case 2
    then have "completes (Sv_pinged No_error) s" by simp
    then show ?thesis by blast
  next
    case 3
    then have "completes (Sv_closed No_error) s" by simp
    then show ?thesis by blast
  next
    case 4
    with assms(1) m have "completes (Sv_timer duration_max True No_error) s" by (simp add: ending_def)
    then show ?thesis by blast
  next
    case 5
    then have "completes Sv_posted s" by simp
    then show ?thesis by blast
  qed
qed

fun complete_run ::
  "'b flat_buffer \<Rightarrow> endian \<Rightarrow> 'h bound_funcs \<Rightarrow> 'b server_event list \<Rightarrow>
   ('b, 'h, 'z) server_session_scheme \<Rightarrow> bool" where
  "complete_run B e funcs [] s \<longleftrightarrow> True"
| "complete_run B e funcs (ev # evs) s \<longleftrightarrow>
     completes ev s \<and> complete_run B e funcs evs (server_exec B e funcs ev s)"

lemma completes_enabled: "completes ev s \<Longrightarrow> server_enabled ev s"
  by (cases ev) auto

lemma ending_run:
  "ending s \<Longrightarrow> complete_run B e funcs evs s \<Longrightarrow>
   ending (so.run B e funcs evs s) \<and> length evs + remaining (so.run B e funcs evs s) \<le> remaining s"
proof (induction evs arbitrary: s)
  case Nil
  then show ?case by simp
next
  case (Cons ev evs)
  then have c: "completes ev s" "complete_run B e funcs evs (server_exec B e funcs ev s)" by simp_all
  note st = ending_step [OF Cons.prems(1) c(1), of B e funcs]
  from Cons.IH [OF conjunct1 [OF st] c(2)] st completes_enabled [OF c(1)] show ?case
    by (simp del: server_exec.simps)
qed

text \<open>C19: a session whose read fails ends: from then on every completion leaves strictly less to wait
  for, as long as something is in progress some completion is possible, and after at most
  \<open>remaining\<close> completions nothing refers to the session any more, so that the object is destroyed.
  With a ping delay this goes through the timer, without one the close is started at once.\<close>

theorem session_ends_after_read_error:
  assumes inv: "server_inv e s" and reads: "so_reads (ss_stream s) \<noteq> 0" and ec: "failed ec"
    and timer: "tm_waits (ss_timer s) \<noteq> 0 \<longrightarrow> sg_ping_delay (cx_config s) \<noteq> duration_zero"
    and s1: "s1 = server_exec B e funcs (Sv_read now ec b) s"
    and evs: "complete_run B e funcs evs s1"
  shows "length evs \<le> remaining s1 \<and>
     (pending (so.run B e funcs evs s1) \<noteq> 0 \<longrightarrow> (\<exists>ev. completes ev (so.run B e funcs evs s1))) \<and>
     (length evs = remaining s1 \<longrightarrow> pending (so.run B e funcs evs s1) = 0)"
proof -
  have "ending s1" unfolding s1 by (rule ending_starts [OF inv reads ec timer])
  from ending_run [OF this evs] have "ending (so.run B e funcs evs s1)"
    "length evs + remaining (so.run B e funcs evs s1) \<le> remaining s1" by simp_all
  with ending_progress [OF this(1)] show ?thesis by (auto simp: remaining_def)
qed

theorem session_ends_after_read_error_witness:
  "length [Sv_timer 3 True Operation_aborted, Sv_closed No_error] \<le>
     remaining (server_exec byte_buffer Big (\<lambda>_. None) (Sv_read 3 Timed_out []) (demo_session 10))"
proof -
  let ?s1 = "server_exec byte_buffer Big (\<lambda>_. None) (Sv_read 3 Timed_out []) (demo_session 10)"
  have "server_inv Big (demo_session 10)"
    by (rule server_inv_established [OF demo_established])
  moreover have "complete_run byte_buffer Big (\<lambda>_. None) [Sv_timer 3 True Operation_aborted, Sv_closed No_error] ?s1"
    by (simp add: server_read_def arm_timer_def server_session_new_def duration_zero_def server_on_read_def
        server_close_session_def on_timer_def server_shutdown_def Let_def)
  moreover have "so_reads (ss_stream (demo_session 10)) \<noteq> 0" "sg_ping_delay (cx_config (demo_session 10)) \<noteq> duration_zero"
    by (simp_all add: server_read_def arm_timer_def server_session_new_def duration_zero_def)
  ultimately show ?thesis
    using session_ends_after_read_error [of Big "demo_session 10" Timed_out ?s1] by fastforce
qed

end
