(* ===== verification/Listener.thy ===== *)
theory Listener
  imports Session_Accept
begin

text \<open>
  \<^verbatim>\<open>listener\<close> of \<^verbatim>\<open>include/radrpc/impl/server/listener.hpp\<close>, which accepts connections and creates
  the sessions, and \<^verbatim>\<open>detect_session\<close> of \<^verbatim>\<open>include/radrpc/impl/server/server_session.hpp\<close>, which
  finds out whether a client speaks TLS.
\<close>

section \<open>State\<close>

text \<open>
  \<open>ln_ssl\<close> tells whether there is a TLS context, \<open>ln_open\<close> whether the acceptor is open and
  \<open>ln_listening\<close> whether all of its setup succeeded,
  \<open>ln_accepts\<close> counts the accepts in progress, \<open>ln_detects\<close> are the \<^verbatim>\<open>detect_session\<close> objects with their buffers,
  waiting for the first bytes of a client (they hold no reference to the manager), \<open>ln_closed\<close>
  counts the sockets closed by a rejection and \<open>ln_thrown\<close> tells that an exception has left a handler:
  the constructor of a session asks the socket for its remote endpoint, which throws when the
  client is gone.
\<close>

record ('b, 'h) listener =
  ln_ssl :: bool
  ln_open :: bool
  ln_listening :: bool
  ln_accepts :: nat
  ln_server_cfg :: server_config
  ln_server_timeout :: server_timeout
  ln_session_cfg :: session_config
  ln_pool :: "('b, 'h) accept_pool"
  ln_detects :: "(nat \<times> 'b) list"
  ln_next :: nat
  ln_closed :: nat
  ln_thrown :: bool

text \<open>The results of opening the acceptor, setting its option, binding it and listening.\<close>

fun acceptor_setup :: "error_code \<Rightarrow> error_code \<Rightarrow> error_code \<Rightarrow> error_code \<Rightarrow> bool \<times> bool" where
  "acceptor_setup e_open e_option e_bind e_listen =
     (if failed e_open then (False, False)
      else if failed e_option then (True, False)
      else if failed e_bind then (True, False)
      else if failed e_listen then (True, False)
      else (True, True))"

definition listener_new ::
  "bool \<Rightarrow> server_config \<Rightarrow> server_timeout \<Rightarrow> session_config \<Rightarrow> 'h session_manager \<Rightarrow>
   error_code \<Rightarrow> error_code \<Rightarrow> error_code \<Rightarrow> error_code \<Rightarrow> ('b, 'h) listener option" where
  "listener_new ssl p_server_cfg p_server_timeout p_session_cfg m e_open e_option e_bind e_listen =
     (let p = \<lparr>pl_manager = m, pl_refs = 2, pl_sessions = [], pl_messages = [], pl_next_message = 0\<rparr>
      in case set_subtract_refs (use_count p) m of
           None \<Rightarrow> None
         | Some m1 \<Rightarrow>
             Some \<lparr>ln_ssl = ssl, ln_open = fst (acceptor_setup e_open e_option e_bind e_listen),
               ln_listening = snd (acceptor_setup e_open e_option e_bind e_listen), ln_accepts = 0,
               ln_server_cfg = p_server_cfg, ln_server_timeout = p_server_timeout,
               ln_session_cfg = p_session_cfg, ln_pool = p\<lparr>pl_manager := m1\<rparr>, ln_detects = [],
               ln_next = 0, ln_closed = 0, ln_thrown = False\<rparr>)"

section \<open>Creating sessions\<close>

text \<open>
  \<open>host\<close> is the answer of the socket when the constructor of the session asks for its remote
  endpoint, and \<open>i\<close> the address of its stream.
\<close>

definition create_session ::
  "'b flat_buffer \<Rightarrow> 'h http_fields \<Rightarrow> bool \<Rightarrow> 'b \<Rightarrow> string option \<Rightarrow> u64 \<Rightarrow> ('b, 'h) listener \<Rightarrow>
   ('b, 'h) listener" where
  "create_session B H ssl buf host i l =
     (case host of
        None \<Rightarrow> l\<lparr>ln_thrown := True\<rparr>
      | Some h \<Rightarrow>
          l\<lparr>ln_pool := pool_construct B H (ln_next l) ssl i h buf (ln_server_timeout l)
                        (ln_session_cfg l) (ln_pool l),
            ln_next := Suc (ln_next l)\<rparr>)"

definition handshake_buffer :: "'b flat_buffer \<Rightarrow> ('b, 'h) listener \<Rightarrow> 'b" where
  "handshake_buffer B l =
     fb_max_size B (sc_max_handshake_bytes (sm_server_cfg (pl_manager (ln_pool l)))) (fb_new B)"

definition detect_session_run :: "'b flat_buffer \<Rightarrow> ('b, 'h) listener \<Rightarrow> ('b, 'h) listener" where
  "detect_session_run B l =
     l\<lparr>ln_detects := ln_detects l @ [(ln_next l, handshake_buffer B l)], ln_next := Suc (ln_next l)\<rparr>"

datatype tribool = Tri_true | Tri_false | Tri_indeterminate

definition on_detect ::
  "'b flat_buffer \<Rightarrow> 'h http_fields \<Rightarrow> error_code \<Rightarrow> tribool \<Rightarrow> 'b \<Rightarrow> string option \<Rightarrow> u64 \<Rightarrow>
   ('b, 'h) listener \<Rightarrow> ('b, 'h) listener" where
  "on_detect B H ec result buf host i l =
     (if failed ec then l
      else if result = Tri_true \<and> server_mode_and (sc_mode (ln_server_cfg l)) mode_ssl
      then create_session B H True buf host i l
      else if result = Tri_false \<and> server_mode_and (sc_mode (ln_server_cfg l)) mode_plain
      then create_session B H False buf host i l
      else l)"

section \<open>The listener\<close>

definition handle_accept :: "('b, 'h) listener \<Rightarrow> ('b, 'h) listener" where
  "handle_accept l = (if ln_open l then l\<lparr>ln_accepts := Suc (ln_accepts l)\<rparr> else l)"

text \<open>
  \<open>ep\<close> is the answer of the socket to the listen handler's question for the remote endpoint,
  an error code and the address: the question is only asked when the handler is bound.
\<close>

definition listener_rejects ::
  "error_code \<times> string \<Rightarrow> error_code \<Rightarrow> ('b, 'h) listener \<Rightarrow> bool" where
  "listener_rejects ep ec l =
     (case sm_on_listen (pl_manager (ln_pool l)) of
        Some f \<Rightarrow> \<not> f (snd ep) \<or> failed (fst ep) \<or> is_full (ln_pool l)
      | None \<Rightarrow> failed ec \<or> is_full (ln_pool l))"

definition listener_on_accept ::
  "'b flat_buffer \<Rightarrow> 'h http_fields \<Rightarrow> error_code \<Rightarrow> error_code \<times> string \<Rightarrow> string option \<Rightarrow> u64 \<Rightarrow>
   ('b, 'h) listener \<Rightarrow> ('b, 'h) listener" where
  "listener_on_accept B H ec ep host i l =
     (if ec = Operation_aborted then l
      else
        (let l1 = (if failed ec then l
                   else if listener_rejects ep ec l then l\<lparr>ln_closed := Suc (ln_closed l)\<rparr>
                   else if ln_ssl l then detect_session_run B l
                   else create_session B H False (handshake_buffer B l) host i l)
         in if ln_thrown l1 then l1 else handle_accept l1))"

definition listener_run :: "('b, 'h) listener \<Rightarrow> ('b, 'h) listener" where
  "listener_run l = (if ln_open l then handle_accept l else l)"

section \<open>Steps\<close>

datatype ('b, 'h) listener_event =
    Ln_accept error_code "error_code \<times> string" "string option" u64
  | Ln_detect nat error_code tribool 'b "string option" u64
  | Ln_pool "('b, 'h) pool_event"

fun listener_enabled :: "('b, 'h) listener_event \<Rightarrow> ('b, 'h) listener \<Rightarrow> bool" where
  "listener_enabled (Ln_accept ec ep host i) l \<longleftrightarrow>
     ln_accepts l \<noteq> 0 \<and> i \<notin> (\<lambda>(k, s). cx_id s) ` set (pl_sessions (ln_pool l))"
| "listener_enabled (Ln_detect d ec result buf host i) l \<longleftrightarrow>
     d \<in> fst ` set (ln_detects l) \<and> i \<notin> (\<lambda>(k, s). cx_id s) ` set (pl_sessions (ln_pool l))"
| "listener_enabled (Ln_pool ev) l \<longleftrightarrow>
     pool_enabled ev (ln_pool l) \<and> (case ev of Pl_construct k ssl i h b st sg \<Rightarrow> False | _ \<Rightarrow> True)"

fun listener_exec ::
  "'b flat_buffer \<Rightarrow> 'h http_fields \<Rightarrow> endian \<Rightarrow> ('b, 'h) listener_event \<Rightarrow> ('b, 'h) listener \<Rightarrow>
   ('b, 'h) listener" where
  "listener_exec B H e (Ln_accept ec ep host i) l =
     listener_on_accept B H ec ep host i (l\<lparr>ln_accepts := ln_accepts l - 1\<rparr>)"
| "listener_exec B H e (Ln_detect d ec result buf host i) l =
     on_detect B H ec result buf host i (l\<lparr>ln_detects := AList.delete d (ln_detects l)\<rparr>)"
| "listener_exec B H e (Ln_pool ev) l = l\<lparr>ln_pool := pool_exec B H e ev (ln_pool l)\<rparr>"

inductive listener_step ::
  "'b flat_buffer \<Rightarrow> 'h http_fields \<Rightarrow> endian \<Rightarrow> ('b, 'h) listener \<Rightarrow> ('b, 'h) listener_event \<Rightarrow>
   ('b, 'h) listener \<Rightarrow> bool"
  for B :: "'b flat_buffer" and H :: "'h http_fields" and e :: endian
where
  listener_stepI: "listener_enabled ev l \<Longrightarrow> listener_step B H e l ev (listener_exec B H e ev l)"

inductive_cases listener_stepE: "listener_step B H e l ev l'"

text \<open>A listener that has been built on a fresh manager, given its handlers, and run.\<close>

definition listener_init :: "('b, 'h) listener \<Rightarrow> bool" where
  "listener_init l \<longleftrightarrow>
     (\<exists>ssl cfg st sg m e1 e2 e3 e4 l0.
        listener_new ssl cfg st sg m e1 e2 e3 e4 = Some l0 \<and> l = listener_run l0 \<and>
        sm_server_cfg m = cfg \<and> sm_sub_refs m = 0 \<and> sm_msg_queued m = 0 \<and>
        sm_plain_sessions m = [] \<and> sm_ssl_sessions m = [] \<and> keeps_ids (map_of (sm_bound_funcs m)))"

section \<open>Invariant\<close>

definition listener_inv :: "endian \<Rightarrow> ('b, 'h) listener \<Rightarrow> bool" where
  "listener_inv e l \<longleftrightarrow> system_inv e (ln_pool l) \<and> ln_accepts l \<le> 1 \<and>
     fst ` set (pl_sessions (ln_pool l)) \<subseteq> {..< ln_next l} \<and>
     sm_server_cfg (pl_manager (ln_pool l)) = ln_server_cfg l \<and>
     (\<not> ln_ssl l \<longrightarrow> ln_detects l = [] \<and>
        length (pl_sessions (ln_pool l)) \<le> unat (sc_max_sessions (ln_server_cfg l)))"

lemma pool_exec_keys:
  assumes "\<And>k ssl i h b st sg. ev \<noteq> Pl_construct k ssl i h b st sg"
  shows "fst ` set (pl_sessions (pool_exec B H e ev p)) \<subseteq> fst ` set (pl_sessions p) \<and>
    length (pl_sessions (pool_exec B H e ev p)) \<le> length (pl_sessions p)"
proof -
  have upd: "fst ` set (pl_sessions (update_session k f q)) = fst ` set (pl_sessions q) \<and>
      length (pl_sessions (update_session k f q)) = length (pl_sessions q)" for k f and q :: "('a, 'b) accept_pool"
  proof (cases "map_of (pl_sessions q) k")
    case (Some s)
    then have k: "k \<in> fst ` set (pl_sessions q)" by (force dest: map_of_SomeD)
    then have m: "map fst (AList.update k (f s) (pl_sessions q)) = map fst (pl_sessions q)"
      by (simp add: update_keys)
    from arg_cong [OF m, of set] arg_cong [OF m, of length] Some show ?thesis
      by (simp add: update_session_def)
  qed (simp add: update_session_def)
  have send: "fst ` set (fold (send_to m) ws ss) = fst ` set ss" for m ws and ss :: "(nat \<times> ('a, 'b) session_accept) list"
    by (metis send_all_keys set_map)
  have del: "length (AList.delete k ss) \<le> length ss" for k and ss :: "(nat \<times> ('a, 'b) session_accept) list"
    by (simp add: AList.delete_eq)
  show ?thesis
  proof (cases ev)
    case (Pl_done k now ec n buf req)
    then show ?thesis using upd
      by (auto simp: pool_done_def split: option.split prod.split)
  next
    case (Pl_broadcast cid bs ids)
    then show ?thesis by (simp add: manager_broadcast_def Let_def send)
  next
    case (Pl_delete k)
    then show ?thesis using del
      by (auto simp: pool_delete_def erase_session_def AList.delete_eq split: option.split prod.split)
  qed (use assms upd in simp_all)
qed

lemma pool_exec_cfg: "sm_server_cfg (pl_manager (pool_exec B H e ev p)) = sm_server_cfg (pl_manager p)"
proof (cases ev)
  case (Pl_done k now ec n buf req)
  have "sm_server_cfg m' = sm_server_cfg m"
    if "accept_done B now k ec n buf req (s, m) = (t, m')" for s t m m'
    using that by (auto simp: accept_done_def Let_def accept_on_accept_def manager_add_session_def
        add_plain_session_def add_ssl_session_def split: list.splits accept_op.splits if_splits)
  with Pl_done show ?thesis
    by (auto simp: pool_done_def update_session_def split: option.split prod.split)
qed (auto simp: pool_construct_def insert_session_def update_session_def manager_broadcast_def pool_delete_def
    session_accept_delete_def erase_session_def manager_remove_session_def remove_plain_session_def
    remove_ssl_session_def Let_def split: option.split)

lemma listener_create_inv:
  assumes inv: "listener_inv e l" and fresh: "i \<notin> (\<lambda>(k, s). cx_id s) ` set (pl_sessions (ln_pool l))"
    and room: "ln_ssl l \<or> length (pl_sessions (ln_pool l)) < unat (sc_max_sessions (ln_server_cfg l))"
  shows "listener_inv e (create_session B H ssl buf host i l)"
proof (cases host)
  case None
  with inv show ?thesis by (simp add: create_session_def listener_inv_def)
next
  case (Some h)
  let ?p = "pool_construct B H (ln_next l) ssl i h buf (ln_server_timeout l) (ln_session_cfg l) (ln_pool l)"
  have new: "ln_next l \<notin> fst ` set (pl_sessions (ln_pool l))" using inv by (auto simp: listener_inv_def)
  have "system_inv e (pool_exec B H e (Pl_construct (ln_next l) ssl i h buf (ln_server_timeout l) (ln_session_cfg l)) (ln_pool l))"
    using inv new fresh by (intro system_inv_exec) (simp_all add: listener_inv_def)
  then have "system_inv e ?p" by simp
  moreover have "pl_sessions ?p = pl_sessions (ln_pool l) @
      [(ln_next l, session_accept_accept B (session_accept_new B H ssl i h buf (ln_server_timeout l) (ln_session_cfg l)))]"
      "pl_manager ?p = pl_manager (ln_pool l)"
    by (simp_all add: pool_construct_def insert_session_def)
  ultimately show ?thesis
    using inv Some room by (auto simp: create_session_def listener_inv_def less_Suc_eq)
qed

lemma not_full_room:
  assumes "listener_inv e l" and "\<not> is_full (ln_pool l)"
  shows "length (pl_sessions (ln_pool l)) < unat (sc_max_sessions (ln_server_cfg l))"
proof -
  have "pool_inv (ln_pool l)" using assms(1) by (simp add: listener_inv_def system_inv_def accept_pool_inv_def)
  from connections_eq [OF this] assms
  have "int (length (pl_sessions (ln_pool l))) + int (length (pl_messages (ln_pool l))) <
      uint (sc_max_sessions (ln_server_cfg l))"
    by (simp add: is_full_def manager_is_full_def connections_def listener_inv_def)
  then show ?thesis unfolding uint_nat by linarith
qed

lemma listener_inv_accepts:
  "listener_inv e l \<Longrightarrow> n \<le> 1 \<Longrightarrow> listener_inv e (l\<lparr>ln_accepts := n\<rparr>)"
  "listener_inv e l \<Longrightarrow> listener_inv e (l\<lparr>ln_closed := c\<rparr>)"
  by (simp_all add: listener_inv_def)

lemma create_session_frame [simp]:
  "ln_accepts (create_session B H ssl buf host i l) = ln_accepts l"
  "ln_open (create_session B H ssl buf host i l) = ln_open l"
  "ln_ssl (create_session B H ssl buf host i l) = ln_ssl l"
  by (simp_all add: create_session_def split: option.split)

lemma handle_accept_inv: "listener_inv e l \<Longrightarrow> ln_accepts l = 0 \<Longrightarrow> listener_inv e (handle_accept l)"
  by (simp add: handle_accept_def listener_inv_accepts)

lemma listener_on_accept_inv:
  assumes inv: "listener_inv e l" and zero: "ln_accepts l = 0"
    and fresh: "i \<notin> (\<lambda>(k, s). cx_id s) ` set (pl_sessions (ln_pool l))"
  shows "listener_inv e (listener_on_accept B H ec ep host i l)"
proof -
  let ?l1 = "if failed ec then l
     else if listener_rejects ep ec l then l\<lparr>ln_closed := Suc (ln_closed l)\<rparr>
     else if ln_ssl l then detect_session_run B l else create_session B H False (handshake_buffer B l) host i l"
  have "\<not> listener_rejects ep ec l \<Longrightarrow> \<not> is_full (ln_pool l)"
    by (auto simp: listener_rejects_def split: option.splits)
  with not_full_room [OF inv] listener_create_inv [OF inv fresh]
  have "listener_inv e ?l1"
    using inv by (auto simp: listener_inv_accepts detect_session_run_def) (auto simp: listener_inv_def less_SucI)
  moreover have "ln_accepts ?l1 = 0" using zero by (simp add: detect_session_run_def)
  ultimately have "listener_inv e ?l1" "listener_inv e (handle_accept ?l1)"
    using handle_accept_inv by blast+
  then show ?thesis using inv unfolding listener_on_accept_def Let_def by (simp split: if_split)
qed

lemma listener_inv_exec:
  assumes inv: "listener_inv e l" and en: "listener_enabled ev l"
  shows "listener_inv e (listener_exec B H e ev l)"
proof (cases ev)
  case (Ln_accept ec ep host i)
  with inv en show ?thesis
    by (auto intro!: listener_on_accept_inv listener_inv_accepts) (auto simp: listener_inv_def)
next
  case (Ln_detect d ec result buf host i)
  let ?l = "l\<lparr>ln_detects := AList.delete d (ln_detects l)\<rparr>"
  have ssl: "ln_ssl l" using inv en Ln_detect by (auto simp: listener_inv_def)
  then have "listener_inv e ?l" using inv by (simp add: listener_inv_def)
  moreover have "listener_inv e (create_session B H x buf host i ?l)" for x
    using calculation en Ln_detect ssl by (intro listener_create_inv) auto
  ultimately show ?thesis using Ln_detect by (simp add: on_detect_def)
next
  case (Ln_pool pev)
  then have "\<And>k ssl i h b st sg. pev \<noteq> Pl_construct k ssl i h b st sg" and "pool_enabled pev (ln_pool l)"
    using en by (auto split: pool_event.splits)
  note k = pool_exec_keys [OF this(1), of B H e "ln_pool l"]
  have "fst ` set (pl_sessions (pool_exec B H e pev (ln_pool l))) \<subseteq> {..< ln_next l}"
    using k inv unfolding listener_inv_def by (meson order_trans)
  with inv Ln_pool k system_inv_exec [of e "ln_pool l" pev B H] \<open>pool_enabled pev (ln_pool l)\<close>
  show ?thesis by (auto simp: listener_inv_def pool_exec_cfg simp del: image_subset_iff)
qed

interpretation listener_sys: invariant_system listener_init "listener_step B H e" "listener_inv e"
proof unfold_locales
  show "listener_init l \<Longrightarrow> listener_inv e l" for l :: "('a, 'b) listener"
    by (auto simp: listener_init_def listener_new_def set_subtract_refs_def use_count_def listener_run_def
        handle_accept_def listener_inv_def system_inv_def Let_def intro!: accept_pool_inv_start
        simp: pool_start_def split: if_splits)
  show "listener_inv e l \<Longrightarrow> listener_step B H e l ev l' \<Longrightarrow> listener_inv e l'" for l l' :: "('a, 'b) listener" and ev
    by (auto elim!: listener_stepE intro: listener_inv_exec)
qed

section \<open>Properties\<close>

text \<open>C27: without TLS the server never has more sessions than its configured maximum, established or
  not, and at most one accept is in progress.\<close>

theorem plain_sessions_bounded:
  assumes "reachable listener_init (listener_step B H e) l" and "\<not> ln_ssl l"
  shows "length (pl_sessions (ln_pool l)) \<le> unat (sc_max_sessions (ln_server_cfg l)) \<and> ln_accepts l \<le> 1"
  using listener_sys.reachable_inv [OF assms(1)] assms(2) by (simp add: listener_inv_def)

abbreviation demo_config :: server_config where
  "demo_config \<equiv> server_config_default\<lparr>sc_max_sessions := 1, sc_mode := mode_ssl\<rparr>"

abbreviation demo_listener :: "bool \<Rightarrow> (u8 list, (string \<times> string) list) listener" where
  "demo_listener ssl \<equiv> listener_run (the (listener_new ssl demo_config server_timeout_default
     session_config_default (session_manager_new demo_config) No_error No_error No_error No_error))"

lemma demo_listener_init: "listener_init (demo_listener ssl)"
  unfolding listener_init_def
  by (intro exI [of _ ssl] exI [of _ demo_config] exI [of _ server_timeout_default]
      exI [of _ session_config_default] exI [of _ "session_manager_new demo_config"]
      exI [of _ No_error] exI [of _ "the (listener_new ssl demo_config server_timeout_default
     session_config_default (session_manager_new demo_config) No_error No_error No_error No_error)"])
    (simp add: listener_new_def set_subtract_refs_def session_manager_new_def keeps_ids_def Let_def)

lemma demo_listener_reachable: "reachable listener_init (listener_step B H e) (demo_listener ssl)"
  by (rule reachable.reach_init) (rule demo_listener_init)

theorem plain_sessions_bounded_witness:
  "length (pl_sessions (ln_pool (demo_listener False))) \<le> 1"
  using plain_sessions_bounded [OF demo_listener_reachable, of False]
  by (simp add: listener_run_def handle_accept_def listener_new_def set_subtract_refs_def
      session_manager_new_def Let_def)

fun listener_run_events ::
  "'b flat_buffer \<Rightarrow> 'h http_fields \<Rightarrow> endian \<Rightarrow> ('b, 'h) listener_event list \<Rightarrow> ('b, 'h) listener \<Rightarrow>
   ('b, 'h) listener" where
  "listener_run_events B H e [] l = l"
| "listener_run_events B H e (ev # evs) l =
     listener_run_events B H e evs (if listener_enabled ev l then listener_exec B H e ev l else l)"

lemma listener_events_reachable:
  "reachable listener_init (listener_step B H e) l \<Longrightarrow>
   reachable listener_init (listener_step B H e) (listener_run_events B H e evs l)"
  by (induction evs arbitrary: l) (auto intro: reachable.reach_step listener_stepI)

lemmas listener_eval =
  listener_run_def handle_accept_def listener_new_def set_subtract_refs_def session_manager_new_def
  Let_def listener_on_accept_def listener_rejects_def is_full_def manager_is_full_def
  manager_connections_def use_count_def detect_session_run_def on_detect_def create_session_def
  pool_construct_def insert_session_def session_accept_accept_def accept_ssl_handshake_def
  server_mode_and_def mode_ssl_def server_config_default_def

text \<open>C40: with TLS the maximum can be exceeded: while the server waits for the first bytes of a client
  to find out what it speaks, the client is not counted, so clients that connect before the
  first of them has sent anything are all admitted.\<close>

theorem tls_sessions_exceed_limit:
  "\<exists>l. reachable listener_init (listener_step byte_buffer list_http e) l \<and>
     sc_max_sessions (ln_server_cfg l) = 1 \<and> length (pl_sessions (ln_pool l)) = 2"
proof -
  let ?l = "listener_run_events byte_buffer list_http e
     [Ln_accept No_error (No_error, ''a'') (Some ''a'') 1, Ln_accept No_error (No_error, ''b'') (Some ''b'') 1,
      Ln_detect 0 No_error Tri_true [] (Some ''a'') 1, Ln_detect 1 No_error Tri_true [] (Some ''b'') 2]
     (demo_listener True)"
  have "reachable listener_init (listener_step byte_buffer list_http e) ?l"
    by (rule listener_events_reachable) (rule demo_listener_reachable)
  moreover have "sc_max_sessions (ln_server_cfg ?l) = 1 \<and> length (pl_sessions (ln_pool ?l)) = 2"
    by (simp add: listener_eval)
  ultimately show ?thesis by blast
qed

text \<open>A client that was found out gets a session of its kind exactly when the configured mode allows
  that kind; otherwise, and when it cannot be told, it is dropped without a session.\<close>

theorem detect_respects_mode:
  assumes "host = Some h"
  shows "pl_sessions (ln_pool (on_detect B H No_error result buf host i l)) = pl_sessions (ln_pool l) @
     (if result = Tri_true \<and> bit (sc_mode (ln_server_cfg l)) 1
      then [(ln_next l, session_accept_accept B
              (session_accept_new B H True i h buf (ln_server_timeout l) (ln_session_cfg l)))]
      else if result = Tri_false \<and> bit (sc_mode (ln_server_cfg l)) 0
      then [(ln_next l, session_accept_accept B
              (session_accept_new B H False i h buf (ln_server_timeout l) (ln_session_cfg l)))]
      else [])"
  using assms
  by (simp add: on_detect_def create_session_def pool_construct_def insert_session_def server_mode_and_bit)

theorem detect_respects_mode_witness:
  "pl_sessions (ln_pool (on_detect byte_buffer list_http No_error Tri_false [] (Some ''a'') 1 (demo_listener True))) = []"
  using detect_respects_mode [of "Some ''a''" "''a''" byte_buffer list_http Tri_false "[]" 1 "demo_listener True"]
  by (simp add: listener_eval)

text \<open>Without a TLS context the configured mode is not looked at: a client the listener does not
  reject gets a plain session even when the mode allows TLS only.\<close>

theorem plain_listener_ignores_mode:
  assumes "\<not> ln_ssl l" and "\<not> listener_rejects ep No_error l" and "\<not> ln_thrown l"
  shows "pl_sessions (ln_pool (listener_on_accept B H No_error ep (Some h) i l)) = pl_sessions (ln_pool l) @
     [(ln_next l, session_accept_accept B
        (session_accept_new B H False i h (handshake_buffer B l) (ln_server_timeout l) (ln_session_cfg l)))]"
  using assms
  by (simp add: listener_on_accept_def create_session_def pool_construct_def insert_session_def
      handle_accept_def Let_def)

theorem plain_listener_ignores_mode_witness:
  "length (pl_sessions (ln_pool (listener_on_accept byte_buffer list_http No_error (No_error, ''a'')
     (Some ''a'') 1 (demo_listener False)))) = 1 \<and>
   \<not> server_mode_and (sc_mode (ln_server_cfg (demo_listener False))) mode_plain"
proof -
  have "\<not> ln_ssl (demo_listener False)" "\<not> listener_rejects (No_error, ''a'') No_error (demo_listener False)"
    "\<not> ln_thrown (demo_listener False)" "pl_sessions (ln_pool (demo_listener False)) = []"
    "\<not> server_mode_and (sc_mode (ln_server_cfg (demo_listener False))) mode_plain"
    by (simp_all add: listener_eval mode_plain_def)
  with plain_listener_ignores_mode [of "demo_listener False" "(No_error, ''a'')" byte_buffer list_http "''a''" 1]
  show ?thesis by simp
qed

text \<open>A listener whose port cannot be bound keeps accepting: the constructor only logs the error,
  the acceptor stays open, so \<^verbatim>\<open>run()\<close> starts an accept, and every accept that fails (other than
  by being aborted) starts the next one, without end and without a session.\<close>

theorem failed_bind_keeps_accepting:
  assumes "failed e_bind" and new: "listener_new ssl cfg st sg m No_error No_error e_bind e_listen = Some l"
    and ecs: "\<forall>ec \<in> set ecs. failed ec \<and> ec \<noteq> Operation_aborted"
  shows "\<not> ln_listening l \<and>
     (let l' = foldl (\<lambda>l ec. listener_exec B H e (Ln_accept ec ep host i) l) (listener_run l) ecs
      in ln_accepts l' = 1 \<and> pl_sessions (ln_pool l') = [])"
proof -
  have l: "ln_open l" "\<not> ln_listening l" "\<not> ln_thrown l" "ln_accepts l = 0" "pl_sessions (ln_pool l) = []"
    using assms(1) new by (auto simp: listener_new_def Let_def split: option.splits)
  have "ln_accepts (foldl (\<lambda>l ec. listener_exec B H e (Ln_accept ec ep host i) l) u ecs) = 1 \<and>
      pl_sessions (ln_pool (foldl (\<lambda>l ec. listener_exec B H e (Ln_accept ec ep host i) l) u ecs)) = []"
    if "ln_open u" "\<not> ln_thrown u" "ln_accepts u = 1" "pl_sessions (ln_pool u) = []" for u
    using ecs that
    by (induction ecs arbitrary: u) (simp_all add: listener_on_accept_def handle_accept_def)
  with l show ?thesis by (simp add: listener_run_def handle_accept_def Let_def)
qed

theorem failed_bind_keeps_accepting_witness:
  "ln_accepts (foldl (\<lambda>l ec. listener_exec byte_buffer list_http Big (Ln_accept ec (No_error, ''a'') None 1) l)
     (listener_run (the (listener_new False demo_config server_timeout_default session_config_default
        (session_manager_new demo_config) No_error No_error (Other_error 98) No_error)))
     [Other_error 22, Other_error 22]) = 1"
proof -
  let ?l = "listener_new False demo_config server_timeout_default session_config_default
        (session_manager_new demo_config) No_error No_error (Other_error 98) No_error"
  have "?l = Some (the ?l)" by (simp add: listener_new_def set_subtract_refs_def session_manager_new_def Let_def)
  from failed_bind_keeps_accepting [OF _ this, of "[Other_error 22, Other_error 22]"
      byte_buffer list_http Big "(No_error, ''a'')" None 1]
  show ?thesis by (simp only: Let_def list.simps failed_simps ball_simps error_code.distinct simp_thms)
qed

end
