(* ===== verification/Server.thy ===== *)
theory Server
  imports Listener
begin

text \<open>
  \<^verbatim>\<open>server\<close> of \<^verbatim>\<open>include/radrpc/server.hpp\<close>: starting and stopping the threads that run the io
  context, and the interface of a user: binding handlers and broadcasting.
\<close>

section \<open>State\<close>

text \<open>
  A worker thread is inside \<^verbatim>\<open>io_context::run()\<close> until the context is stopped; it can be
  joined until it has been.
\<close>

record worker =
  wk_index :: nat
  wk_running :: bool
  wk_joinable :: bool

text \<open>
  \<open>sv_blocking\<close> counts the threads that are inside \<^verbatim>\<open>run()\<close> through \<^verbatim>\<open>start()\<close>,
  \<open>sv_target\<close> is the number of workers the worker lambdas have captured, \<open>sv_handler\<close> whether they have a stop
  handler and \<open>sv_handler_calls\<close> how often it was called. \<open>sv_terminated\<close> tells that a thread object
  was destroyed while joinable, which terminates the program, and \<open>sv_restarted_early\<close> that the
  io context was restarted while some thread was still inside \<^verbatim>\<open>run()\<close>, which the library
  forbids.
\<close>

record ('b, 'h) server =
  sv_running :: bool
  sv_async_start :: bool
  sv_workers_done :: u32
  sv_server_cfg :: server_config
  sv_io_stopped :: bool
  sv_listener :: "('b, 'h) listener"
  sv_signal_waits :: nat
  sv_workers :: "worker list"
  sv_target :: u32
  sv_handler :: bool
  sv_handler_calls :: nat
  sv_blocking :: nat
  sv_terminated :: bool
  sv_restarted_early :: bool

datatype server_error = Already_bound u32 | Bad_address string | Assertion_failed

text \<open>
  The constructors: with and without a TLS context. \<open>parses\<close> is the library's parser of addresses,
  which throws; the four error codes are those of the acceptor.
\<close>

definition server_new ::
  "(string \<Rightarrow> bool) \<Rightarrow> bool \<Rightarrow> server_config \<Rightarrow> server_timeout \<Rightarrow> session_config \<Rightarrow>
   error_code \<Rightarrow> error_code \<Rightarrow> error_code \<Rightarrow> error_code \<Rightarrow> server_error + ('b, 'h) server" where
  "server_new parses ssl p_server_cfg p_server_timeout p_session_cfg e1 e2 e3 e4 =
     (if \<not> parses (sc_host_address p_server_cfg) then Inl (Bad_address (sc_host_address p_server_cfg))
      else case listener_new ssl p_server_cfg p_server_timeout p_session_cfg
                  (session_manager_new p_server_cfg) e1 e2 e3 e4 of
        None \<Rightarrow> Inl Assertion_failed
      | Some l \<Rightarrow>
          Inr \<lparr>sv_running = False, sv_async_start = False, sv_workers_done = 0,
               sv_server_cfg = p_server_cfg, sv_io_stopped = False, sv_listener = listener_run l,
               sv_signal_waits = 1, sv_workers = [], sv_target = 0, sv_handler = False,
               sv_handler_calls = 0, sv_blocking = 0, sv_terminated = False,
               sv_restarted_early = False\<rparr>)"

section \<open>Starting and stopping\<close>

fun spawn_workers :: "nat \<Rightarrow> worker list" where
  "spawn_workers 0 = []"
| "spawn_workers (Suc i) =
     \<lparr>wk_index = Suc i, wk_running = True, wk_joinable = True\<rparr> # spawn_workers i"

definition worker_count :: "('b, 'h) server \<Rightarrow> u32" where
  "worker_count s =
     (if sv_async_start s then sc_workers (sv_server_cfg s) else sc_workers (sv_server_cfg s) - 1)"

definition io_busy :: "('b, 'h) server \<Rightarrow> bool" where
  "io_busy s \<longleftrightarrow> sv_blocking s \<noteq> 0 \<or> (\<exists>w \<in> set (sv_workers s). wk_running w)"

definition run_async_workers :: "bool \<Rightarrow> ('b, 'h) server \<Rightarrow> ('b, 'h) server" where
  "run_async_workers handler s =
     (let s1 = (if sv_io_stopped s
                then s\<lparr>sv_io_stopped := False, sv_restarted_early := sv_restarted_early s \<or> io_busy s\<rparr>
                else s);
          s2 = s1\<lparr>sv_terminated := sv_terminated s1 \<or> list_ex wk_joinable (sv_workers s1),
                  sv_workers := [], sv_workers_done := 0\<rparr>;
          n = worker_count s2
      in s2\<lparr>sv_workers := spawn_workers (unat n), sv_target := n, sv_handler := handler\<rparr>)"

text \<open>What a worker does when its \<^verbatim>\<open>run()\<close> has returned.\<close>

definition worker_done :: "nat \<Rightarrow> ('b, 'h) server \<Rightarrow> ('b, 'h) server" where
  "worker_done j s =
     (let s1 = s\<lparr>sv_workers := (sv_workers s)[j := (sv_workers s ! j)\<lparr>wk_running := False\<rparr>],
                 sv_workers_done := sv_workers_done s + 1\<rparr>
      in if sv_workers_done s1 = sv_target s1 \<and> sv_handler s1
         then s1\<lparr>sv_handler_calls := Suc (sv_handler_calls s1)\<rparr> else s1)"

definition server_on_signal :: "('b, 'h) server \<Rightarrow> ('b, 'h) server" where
  "server_on_signal s = s\<lparr>sv_io_stopped := True\<rparr>"

definition server_start :: "('b, 'h) server \<Rightarrow> ('b, 'h) server" where
  "server_start s =
     (if sv_running s then s
      else let s1 = run_async_workers False (s\<lparr>sv_running := True, sv_async_start := False\<rparr>)
           in s1\<lparr>sv_blocking := Suc (sv_blocking s1)\<rparr>)"

definition server_async_start :: "bool \<Rightarrow> ('b, 'h) server \<Rightarrow> ('b, 'h) server" where
  "server_async_start handler s =
     (if sv_running s then s
      else run_async_workers handler (s\<lparr>sv_running := True, sv_async_start := True\<rparr>))"

text \<open>
  \<^verbatim>\<open>stop()\<close>: on a thread of the io context it only stops the context. Elsewhere it also waits
  until the workers are done, joins them and marks the server as not running; \<open>stop_begin\<close> is the
  part before the wait and \<open>stop_end\<close> the part after it.
\<close>

definition stop_begin :: "('b, 'h) server \<Rightarrow> ('b, 'h) server" where
  "stop_begin s = s\<lparr>sv_io_stopped := True\<rparr>"

definition stop_ready :: "('b, 'h) server \<Rightarrow> bool" where
  "stop_ready s \<longleftrightarrow> worker_count s = sv_workers_done s"

definition stop_end :: "('b, 'h) server \<Rightarrow> ('b, 'h) server" where
  "stop_end s =
     s\<lparr>sv_workers := map (\<lambda>w. w\<lparr>wk_joinable := False\<rparr>) (sv_workers s), sv_running := False\<rparr>"

text \<open>
  The whole function: \<open>io\<close> is what the other threads do while it waits; without the
  condition becoming true it does not return.
\<close>

definition server_stop ::
  "bool \<Rightarrow> (('b, 'h) server \<Rightarrow> ('b, 'h) server) \<Rightarrow> ('b, 'h) server \<Rightarrow> ('b, 'h) server option" where
  "server_stop in_io_thread io s =
     (if in_io_thread then Some (stop_begin s)
      else
        (let s1 = stop_begin s
         in if \<not> sv_running s1 then Some s1
            else let s2 = io s1 in if stop_ready s2 then Some (stop_end s2) else None))"

text \<open>The destructor.\<close>

definition server_delete ::
  "bool \<Rightarrow> (('b, 'h) server \<Rightarrow> ('b, 'h) server) \<Rightarrow> ('b, 'h) server \<Rightarrow> ('b, 'h) server option" where
  "server_delete in_io_thread io s = server_stop in_io_thread io s"

section \<open>The interface of a user\<close>

definition server_pool :: "('b, 'h) server \<Rightarrow> ('b, 'h) accept_pool" where
  "server_pool s = ln_pool (sv_listener s)"

definition set_pool :: "('b, 'h) accept_pool \<Rightarrow> ('b, 'h) server \<Rightarrow> ('b, 'h) server" where
  "set_pool p s = s\<lparr>sv_listener := (sv_listener s)\<lparr>ln_pool := p\<rparr>\<rparr>"

definition set_manager :: "'h session_manager \<Rightarrow> ('b, 'h) server \<Rightarrow> ('b, 'h) server" where
  "set_manager m s = set_pool ((server_pool s)\<lparr>pl_manager := m\<rparr>) s"

definition server_broadcast :: "u32 \<Rightarrow> u8 list \<Rightarrow> ('b, 'h) server \<Rightarrow> ('b, 'h) server" where
  "server_broadcast cid send_bytes s = set_pool (manager_broadcast cid send_bytes None (server_pool s)) s"

definition server_broadcast_to :: "u32 \<Rightarrow> u8 list \<Rightarrow> u64 list \<Rightarrow> ('b, 'h) server \<Rightarrow> ('b, 'h) server" where
  "server_broadcast_to cid send_bytes session_ids s =
     set_pool (manager_broadcast cid send_bytes (Some session_ids) (server_pool s)) s"

definition server_connections :: "('b, 'h) server \<Rightarrow> int" where
  "server_connections s = connections (server_pool s)"

definition server_get_session_ids :: "('b, 'h) server \<Rightarrow> u64 list" where
  "server_get_session_ids s = get_session_ids (pl_manager (server_pool s))"

definition bind_refused :: "('b, 'h) server \<Rightarrow> bool" where
  "bind_refused s \<longleftrightarrow> sv_running s \<or> server_connections s \<noteq> 0"

definition server_bind ::
  "u32 \<Rightarrow> 'h bound_handler option \<Rightarrow> ('b, 'h) server \<Rightarrow> server_error + bool \<times> ('b, 'h) server" where
  "server_bind bind_id handler s =
     (let m = pl_manager (server_pool s)
      in if bind_refused s then Inr (False, s)
         else case map_of (sm_bound_funcs m) bind_id of
           Some _ \<Rightarrow> Inl (Already_bound bind_id)
         | None \<Rightarrow>
             Inr (True, set_manager
               (m\<lparr>sm_bound_funcs := AList.update bind_id handler (sm_bound_funcs m)\<rparr>) s))"

definition server_bind_listen ::
  "(string \<Rightarrow> bool) option \<Rightarrow> ('b, 'h) server \<Rightarrow> bool \<times> ('b, 'h) server" where
  "server_bind_listen handler s =
     (if bind_refused s then (False, s)
      else (True, set_manager ((pl_manager (server_pool s))\<lparr>sm_on_listen := handler\<rparr>) s))"

definition server_bind_accept ::
  "('h session_info \<Rightarrow> bool \<times> session_config \<times> 'h) option \<Rightarrow> ('b, 'h) server \<Rightarrow>
   bool \<times> ('b, 'h) server" where
  "server_bind_accept handler s =
     (if bind_refused s then (False, s)
      else (True, set_manager ((pl_manager (server_pool s))\<lparr>sm_on_accept := handler\<rparr>) s))"

text \<open>Of the disconnect handler the model keeps whether there is one; it cannot change the server's state.\<close>

definition server_bind_disconnect :: "bool \<Rightarrow> ('b, 'h) server \<Rightarrow> bool \<times> ('b, 'h) server" where
  "server_bind_disconnect handler s =
     (if bind_refused s then (False, s)
      else (True, set_manager ((pl_manager (server_pool s))\<lparr>sm_on_disconnect := handler\<rparr>) s))"

section \<open>Steps\<close>

text \<open>
  The threads: a worker or a blocked \<^verbatim>\<open>start()\<close> leaves \<^verbatim>\<open>run()\<close> once the context is stopped; the
  handlers of the io context run while some thread is inside \<^verbatim>\<open>run()\<close> (a thread may still finish a
  handler after the context was stopped). \<open>Srv_stop_end\<close> is the end of a \<^verbatim>\<open>stop()\<close> that has waited.
\<close>

datatype ('b, 'h) srv_event =
    Srv_start
  | Srv_async_start bool
  | Srv_stop_begin
  | Srv_stop_end
  | Srv_signal
  | Srv_worker_done nat
  | Srv_blocking_done
  | Srv_listener "('b, 'h) listener_event"
  | Srv_bind u32 "'h bound_handler option"
  | Srv_broadcast u32 "u8 list" "u64 list option"

fun srv_enabled :: "('b, 'h) srv_event \<Rightarrow> ('b, 'h) server \<Rightarrow> bool" where
  "srv_enabled Srv_stop_end s \<longleftrightarrow> sv_running s \<and> stop_ready s"
| "srv_enabled Srv_signal s \<longleftrightarrow> sv_signal_waits s \<noteq> 0 \<and> io_busy s"
| "srv_enabled (Srv_worker_done j) s \<longleftrightarrow>
     sv_io_stopped s \<and> j < length (sv_workers s) \<and> wk_running (sv_workers s ! j)"
| "srv_enabled Srv_blocking_done s \<longleftrightarrow> sv_io_stopped s \<and> sv_blocking s \<noteq> 0"
| "srv_enabled (Srv_listener ev) s \<longleftrightarrow> io_busy s \<and> listener_enabled ev (sv_listener s)"
| "srv_enabled _ s \<longleftrightarrow> True"

fun srv_exec ::
  "'b flat_buffer \<Rightarrow> 'h http_fields \<Rightarrow> endian \<Rightarrow> ('b, 'h) srv_event \<Rightarrow> ('b, 'h) server \<Rightarrow>
   ('b, 'h) server" where
  "srv_exec B H e Srv_start s = server_start s"
| "srv_exec B H e (Srv_async_start h) s = server_async_start h s"
| "srv_exec B H e Srv_stop_begin s = stop_begin s"
| "srv_exec B H e Srv_stop_end s = stop_end s"
| "srv_exec B H e Srv_signal s = server_on_signal (s\<lparr>sv_signal_waits := sv_signal_waits s - 1\<rparr>)"
| "srv_exec B H e (Srv_worker_done j) s = worker_done j s"
| "srv_exec B H e Srv_blocking_done s = s\<lparr>sv_blocking := sv_blocking s - 1\<rparr>"
| "srv_exec B H e (Srv_listener ev) s = s\<lparr>sv_listener := listener_exec B H e ev (sv_listener s)\<rparr>"
| "srv_exec B H e (Srv_bind c h) s = (case server_bind c h s of Inl _ \<Rightarrow> s | Inr (ok, t) \<Rightarrow> t)"
| "srv_exec B H e (Srv_broadcast c bs ids) s =
     (case ids of None \<Rightarrow> server_broadcast c bs s | Some is \<Rightarrow> server_broadcast_to c bs is s)"

inductive srv_step ::
  "'b flat_buffer \<Rightarrow> 'h http_fields \<Rightarrow> endian \<Rightarrow> ('b, 'h) server \<Rightarrow> ('b, 'h) srv_event \<Rightarrow>
   ('b, 'h) server \<Rightarrow> bool"
  for B :: "'b flat_buffer" and H :: "'h http_fields" and e :: endian
where
  srv_stepI: "srv_enabled ev s \<Longrightarrow> srv_step B H e s ev (srv_exec B H e ev s)"

inductive_cases srv_stepE: "srv_step B H e s ev t"

definition server_init :: "('b, 'h) server \<Rightarrow> bool" where
  "server_init s \<longleftrightarrow> (\<exists>parses ssl cfg st sg e1 e2 e3 e4. server_new parses ssl cfg st sg e1 e2 e3 e4 = Inr s)"

section \<open>Invariant\<close>

text \<open>
  The threads of a server: the count of finished workers is the number of workers that left
  \<^verbatim>\<open>run()\<close>, and while the server is not marked as running every worker has been joined.
\<close>

definition threads_inv :: "('b, 'h) server \<Rightarrow> bool" where
  "threads_inv s \<longleftrightarrow>
     length (sv_workers s) = unat (sv_target s) \<and>
     unat (sv_workers_done s) = length (filter (\<lambda>w. \<not> wk_running w) (sv_workers s)) \<and>
     (sv_running s \<longrightarrow> sv_target s = worker_count s) \<and>
     (\<not> sv_running s \<longrightarrow> (\<forall>w \<in> set (sv_workers s). \<not> wk_running w \<and> \<not> wk_joinable w)) \<and>
     \<not> sv_terminated s"

lemma length_spawn [simp]: "length (spawn_workers n) = n"
  by (induction n) simp_all

lemma spawn_running: "w \<in> set (spawn_workers n) \<Longrightarrow> wk_running w"
  by (induction n) auto

lemma filter_done_update:
  "j < length ws \<Longrightarrow> wk_running (ws ! j) \<Longrightarrow>
   length (filter (\<lambda>w. \<not> wk_running w) (ws[j := (ws ! j)\<lparr>wk_running := False\<rparr>])) =
     Suc (length (filter (\<lambda>w. \<not> wk_running w) ws))"
proof (induction ws arbitrary: j)
  case (Cons w ws)
  then show ?case by (cases j) auto
qed simp

lemma filter_all_false: "length (filter P xs) = length xs \<Longrightarrow> x \<in> set xs \<Longrightarrow> P x"
  by (metis filter_id_conv length_filter_less nat_neq_iff)

lemma run_async_workers_inv:
  assumes "\<forall>w \<in> set (sv_workers s). \<not> wk_joinable w" and "\<not> sv_terminated s" and "sv_running s"
  shows "threads_inv (run_async_workers h s)"
proof -
  have "\<not> list_ex wk_joinable (sv_workers s)" using assms(1) by (auto simp: list_ex_iff)
  moreover have "filter (\<lambda>w. \<not> wk_running w) (spawn_workers n) = []" for n
    by (auto simp: filter_empty_conv dest: spawn_running)
  ultimately show ?thesis
    using assms(2,3) by (simp add: run_async_workers_def Let_def threads_inv_def worker_count_def)
qed

lemma restart_inv:
  assumes "threads_inv s" and "\<not> sv_running s"
  shows "threads_inv (run_async_workers h (s\<lparr>sv_running := True, sv_async_start := a\<rparr>))"
  by (rule run_async_workers_inv) (use assms in \<open>simp_all add: threads_inv_def\<close>)

lemma worker_done_inv:
  assumes inv: "threads_inv s" and j: "j < length (sv_workers s)" "wk_running (sv_workers s ! j)"
  shows "threads_inv (worker_done j s)"
proof -
  let ?ws = "(sv_workers s)[j := (sv_workers s ! j)\<lparr>wk_running := False\<rparr>]"
  have run: "sv_running s" using inv j by (auto simp: threads_inv_def)
  have "length (filter (\<lambda>w. \<not> wk_running w) ?ws) = Suc (unat (sv_workers_done s))"
    using filter_done_update [OF j] inv by (simp add: threads_inv_def)
  moreover have "length (filter (\<lambda>w. \<not> wk_running w) ?ws) \<le> unat (sv_target s)"
    using inv length_filter_le [of _ ?ws] by (simp add: threads_inv_def)
  moreover have "unat (sv_target s) < 2 ^ 32" using unsigned_less [of "sv_target s"] by simp
  ultimately have "unat (sv_workers_done s + 1) = length (filter (\<lambda>w. \<not> wk_running w) ?ws)"
    by (simp add: unat_word_ariths)
  moreover have "sv_workers (worker_done j s) = ?ws" and "sv_workers_done (worker_done j s) = sv_workers_done s + 1"
    and "sv_target (worker_done j s) = sv_target s" and "sv_running (worker_done j s) = sv_running s"
    and "worker_count (worker_done j s) = worker_count s" and "sv_terminated (worker_done j s) = sv_terminated s"
    by (simp_all add: worker_done_def Let_def worker_count_def)
  ultimately show ?thesis
    using inv run by (simp only: threads_inv_def length_list_update simp_thms)
qed

lemma stop_ready_all_done:
  assumes "threads_inv s" and "sv_running s" and "stop_ready s" and "w \<in> set (sv_workers s)"
  shows "\<not> wk_running w"
proof -
  have "length (filter (\<lambda>w. \<not> wk_running w) (sv_workers s)) = length (sv_workers s)"
    using assms(1-3) by (auto simp: threads_inv_def stop_ready_def)
  then show ?thesis using filter_all_false [OF _ assms(4)] by blast
qed

lemma threads_inv_frame [simp]:
  "threads_inv (s\<lparr>sv_blocking := n\<rparr>) = threads_inv s"
  "threads_inv (s\<lparr>sv_io_stopped := b\<rparr>) = threads_inv s"
  "threads_inv (s\<lparr>sv_signal_waits := n\<rparr>) = threads_inv s"
  "threads_inv (s\<lparr>sv_listener := l\<rparr>) = threads_inv s"
  by (simp_all add: threads_inv_def worker_count_def)

lemma threads_inv_exec:
  assumes inv: "threads_inv s" and en: "srv_enabled ev s"
  shows "threads_inv (srv_exec B H e ev s)"
proof (cases ev)
  case Srv_start
  then show ?thesis
    using inv restart_inv [OF inv] by (simp add: server_start_def Let_def)
next
  case (Srv_async_start h)
  then show ?thesis using inv restart_inv [OF inv] by (simp add: server_async_start_def)
next
  case Srv_stop_end
  have "filter (\<lambda>w. \<not> wk_running w) (map (\<lambda>w. w\<lparr>wk_joinable := False\<rparr>) ws) =
      map (\<lambda>w. w\<lparr>wk_joinable := False\<rparr>) (filter (\<lambda>w. \<not> wk_running w) ws)" for ws
    by (induction ws) simp_all
  with Srv_stop_end en inv stop_ready_all_done [OF inv] show ?thesis
    by (auto simp: stop_end_def threads_inv_def)
next
  case (Srv_worker_done j)
  with inv en show ?thesis by (simp add: worker_done_inv)
qed (use inv in \<open>auto simp: stop_begin_def server_on_signal_def server_bind_def set_manager_def set_pool_def
      server_broadcast_def server_broadcast_to_def Let_def split: option.split\<close>)

lemma threads_inv_new: "server_new parses ssl cfg st sg e1 e2 e3 e4 = Inr s \<Longrightarrow> threads_inv s"
  by (auto simp: server_new_def threads_inv_def split: if_splits option.splits)

interpretation threads_sys: invariant_system server_init "srv_step B H e" threads_inv
proof unfold_locales
  show "server_init s \<Longrightarrow> threads_inv s" for s :: "('a, 'b) server"
    by (auto simp: server_init_def threads_inv_new)
  show "threads_inv s \<Longrightarrow> srv_step B H e s ev t \<Longrightarrow> threads_inv t" for s t :: "('a, 'b) server" and ev
    by (auto elim!: srv_stepE intro: threads_inv_exec)
qed

section \<open>Stopping\<close>

definition running_workers :: "('b, 'h) server \<Rightarrow> nat set" where
  "running_workers s = {j. j < length (sv_workers s) \<and> wk_running (sv_workers s ! j)}"

lemma worker_done_frame [simp]:
  "length (sv_workers (worker_done j s)) = length (sv_workers s)"
  "sv_running (worker_done j s) = sv_running s" "sv_io_stopped (worker_done j s) = sv_io_stopped s"
  "sv_handler (worker_done j s) = sv_handler s" "worker_count (worker_done j s) = worker_count s"
  "sv_target (worker_done j s) = sv_target s" "sv_listener (worker_done j s) = sv_listener s"
  "sv_blocking (worker_done j s) = sv_blocking s"
  by (simp_all add: worker_done_def Let_def worker_count_def)

lemma running_workers_done: "running_workers (worker_done j s) = running_workers s - {j}"
proof -
  have "sv_workers (worker_done j s) = (sv_workers s)[j := (sv_workers s ! j)\<lparr>wk_running := False\<rparr>]"
    by (simp add: worker_done_def Let_def)
  then show ?thesis
    by (cases "j < length (sv_workers s)") (auto simp: running_workers_def nth_list_update list_update_beyond)
qed

lemma running_workers_empty: "running_workers s = {} \<longleftrightarrow> (\<forall>w \<in> set (sv_workers s). \<not> wk_running w)"
  by (auto simp: running_workers_def set_conv_nth)

lemma ready_iff:
  assumes "threads_inv s"
  shows "sv_workers_done s = sv_target s \<longleftrightarrow> running_workers s = {}"
proof -
  have "sv_workers_done s = sv_target s \<longleftrightarrow>
      length (filter (\<lambda>w. \<not> wk_running w) (sv_workers s)) = length (sv_workers s)"
    using assms by (simp add: threads_inv_def word_unat_eq_iff)
  also have "\<dots> \<longleftrightarrow> (\<forall>w \<in> set (sv_workers s). \<not> wk_running w)"
    by (auto dest: filter_all_false simp: filter_id_conv [THEN iffD2])
  finally show ?thesis by (simp add: running_workers_empty)
qed

text \<open>The workers leave \<^verbatim>\<open>run()\<close> one after the other: the last one calls the handler.\<close>

lemma workers_leave:
  assumes "threads_inv s" and "distinct js" and "set js = running_workers s" and "js \<noteq> []"
  shows "threads_inv (fold worker_done js s) \<and> running_workers (fold worker_done js s) = {} \<and>
    sv_handler_calls (fold worker_done js s) = sv_handler_calls s + of_bool (sv_handler s)"
  using assms
proof (induction js arbitrary: s)
  case (Cons j js)
  let ?t = "worker_done j s"
  from Cons.prems(3) have j: "j < length (sv_workers s)" "wk_running (sv_workers s ! j)"
    by (auto simp: running_workers_def set_eq_iff)
  have inv: "threads_inv ?t" using Cons.prems(1) j by (rule worker_done_inv)
  have run: "set js = running_workers ?t" using Cons.prems(2,3) by (auto simp: running_workers_done)
  have calls: "sv_handler_calls ?t =
      sv_handler_calls s + of_bool (sv_handler s \<and> sv_workers_done ?t = sv_target ?t)"
    by (auto simp: worker_done_def Let_def)
  show ?case
  proof (cases "js = []")
    case True
    with run inv calls ready_iff [OF inv] show ?thesis by simp
  next
    case False
    with run have "running_workers ?t \<noteq> {}" by (metis set_empty)
    with calls ready_iff [OF inv] have "sv_handler_calls ?t = sv_handler_calls s" by simp
    with Cons.IH [OF inv _ run False] Cons.prems(2) show ?thesis by simp
  qed
qed simp

lemma fold_worker_done_frame:
  "sv_running (fold worker_done js s) = sv_running s"
  "worker_count (fold worker_done js s) = worker_count s"
  "length (sv_workers (fold worker_done js s)) = length (sv_workers s)"
  by (induction js arbitrary: s) simp_all

text \<open>C22: no thread of the server outlives it joinable: in every state reached by starts, stops, signals,
  binds, broadcasts and the work of the threads themselves, the finished-counter is the number of workers
  that have left \<^verbatim>\<open>run()\<close>, a server that is not marked as running has joined every worker, and no
  joinable thread object was ever destroyed.\<close>

theorem server_threads_joined:
  assumes "reachable server_init (srv_step B H e) s"
  shows "\<not> sv_terminated s \<and> unat (sv_workers_done s) + card (running_workers s) = length (sv_workers s) \<and>
    (sv_running s \<or> (\<forall>w \<in> set (sv_workers s). \<not> wk_running w \<and> \<not> wk_joinable w))"
proof -
  have inv: "threads_inv s" using assms by (rule threads_sys.reachable_inv)
  have "card (running_workers s) = length (filter wk_running (sv_workers s))"
    by (simp add: running_workers_def length_filter_conv_card)
  then have "length (filter (\<lambda>w. \<not> wk_running w) (sv_workers s)) + card (running_workers s) =
      length (sv_workers s)"
    using sum_length_filter_compl [of wk_running "sv_workers s"] by simp
  with inv show ?thesis by (auto simp: threads_inv_def)
qed

abbreviation demo_server :: "u32 \<Rightarrow> (u8 list, (string \<times> string) list) server" where
  "demo_server n \<equiv> projr (server_new (\<lambda>_. True) False (server_config_default\<lparr>sc_workers := n\<rparr>)
     server_timeout_default session_config_default No_error No_error No_error No_error)"

lemmas server_eval =
  server_new_def listener_new_def listener_run_def handle_accept_def set_subtract_refs_def
  session_manager_new_def Let_def server_start_def server_async_start_def run_async_workers_def
  worker_count_def stop_begin_def stop_end_def stop_ready_def worker_done_def

lemma demo_server_init: "server_init (demo_server n)"
  unfolding server_init_def
  by (intro exI [of _ "\<lambda>_. True"] exI [of _ False] exI [of _ "server_config_default\<lparr>sc_workers := n\<rparr>"]
      exI [of _ server_timeout_default] exI [of _ session_config_default] exI [of _ No_error])
    (simp add: server_eval)

lemma demo_server_sel:
  "\<not> sv_running (demo_server n)" "\<not> sv_io_stopped (demo_server n)" "sv_workers (demo_server n) = []"
  "sc_workers (sv_server_cfg (demo_server n)) = n" "sv_blocking (demo_server n) = 0"
  "sv_handler_calls (demo_server n) = 0"
  by (simp_all add: server_eval)

fun srv_run ::
  "'b flat_buffer \<Rightarrow> 'h http_fields \<Rightarrow> endian \<Rightarrow> ('b, 'h) srv_event list \<Rightarrow> ('b, 'h) server \<Rightarrow>
   ('b, 'h) server" where
  "srv_run B H e [] s = s"
| "srv_run B H e (ev # evs) s = srv_run B H e evs (if srv_enabled ev s then srv_exec B H e ev s else s)"

lemma srv_run_reachable:
  "reachable server_init (srv_step B H e) s \<Longrightarrow> reachable server_init (srv_step B H e) (srv_run B H e evs s)"
  by (induction evs arbitrary: s) (auto intro: reachable.reach_step srv_stepI)

lemma demo_run_reachable: "reachable server_init (srv_step B H e) (srv_run B H e evs (demo_server n))"
  by (intro srv_run_reachable reachable.reach_init demo_server_init)

theorem server_threads_joined_witness:
  "\<not> sv_terminated (srv_run byte_buffer list_http Big [Srv_async_start True] (demo_server 2))"
  using server_threads_joined [OF demo_run_reachable] by blast

lemma stop_returns:
  assumes inv: "threads_inv s" and run: "sv_running s"
    and js: "distinct js" "set js = running_workers s" "js \<noteq> []"
  shows "\<exists>s'. server_stop False (fold worker_done js) s = Some s' \<and> \<not> sv_running s' \<and>
    (\<forall>w \<in> set (sv_workers s'). \<not> wk_running w \<and> \<not> wk_joinable w) \<and>
    sv_handler_calls s' = sv_handler_calls s + of_bool (sv_handler s)"
proof -
  let ?s = "stop_begin s" and ?t = "fold worker_done js (stop_begin s)"
  have s: "threads_inv ?s" "running_workers ?s = running_workers s" "sv_running ?s"
      "sv_handler ?s = sv_handler s" "sv_handler_calls ?s = sv_handler_calls s"
    using inv run by (simp_all add: stop_begin_def running_workers_def threads_inv_def worker_count_def)
  then have t: "threads_inv ?t" "running_workers ?t = {}" "sv_running ?t"
      "sv_handler_calls ?t = sv_handler_calls s + of_bool (sv_handler s)"
    using workers_leave [of ?s js] js by (simp_all add: fold_worker_done_frame)
  then have "stop_ready ?t"
    using ready_iff [OF t(1)] by (simp add: stop_ready_def threads_inv_def)
  moreover have "\<forall>w \<in> set (sv_workers ?t). \<not> wk_running w"
    using t(2) by (simp add: running_workers_empty)
  ultimately show ?thesis
    using s(3) t(4) by (auto simp: server_stop_def Let_def stop_end_def)
qed

text \<open>C23: \<^verbatim>\<open>stop()\<close> of a running server returns once its workers have left \<^verbatim>\<open>run()\<close>, in
  whatever order they do: the server is then not running, every worker has been joined, and a stop
  handler was called exactly once.\<close>

theorem stop_completes:
  assumes reach: "reachable server_init (srv_step B H e) s" and run: "sv_running s"
    and js: "distinct js" "set js = running_workers s" "js \<noteq> []"
  shows "\<exists>s'. server_stop False (fold worker_done js) s = Some s' \<and> \<not> sv_running s' \<and>
    (\<forall>w \<in> set (sv_workers s'). \<not> wk_running w \<and> \<not> wk_joinable w) \<and>
    sv_handler_calls s' = sv_handler_calls s + of_bool (sv_handler s)"
  using threads_sys.reachable_inv [OF reach] run js by (rule stop_returns)

theorem stop_completes_witness:
  "\<exists>s'. server_stop False (fold worker_done [1, 0])
     (srv_run byte_buffer list_http Big [Srv_async_start True] (demo_server 2)) = Some s' \<and>
     sv_handler_calls s' = 1"
proof -
  let ?s = "srv_run byte_buffer list_http Big [Srv_async_start True] (demo_server 2)"
  have "sv_running ?s" "sv_handler ?s" "sv_handler_calls ?s = 0"
    and ws: "sv_workers ?s = spawn_workers 2"
    by (simp_all add: demo_server_sel server_async_start_def run_async_workers_def Let_def worker_count_def)
  moreover have "set [1, 0] = running_workers ?s"
    unfolding running_workers_def ws by (auto simp: numeral_2_eq_2 less_Suc_eq)
  ultimately show ?thesis
    using stop_completes [OF demo_run_reachable, of byte_buffer list_http Big "[Srv_async_start True]" 2 "[1, 0]"]
    by auto
qed

text \<open>\<^verbatim>\<open>stop()\<close> does not wait for the thread that is blocked in \<^verbatim>\<open>start()\<close>: it can return, with the
  server marked as not running, while that thread is still inside \<^verbatim>\<open>run()\<close>; a start that
  follows restarts the io context under it.\<close>

theorem stop_leaves_blocked_start:
  "\<exists>s. reachable server_init (srv_step byte_buffer list_http e) s \<and> \<not> sv_running s \<and> sv_blocking s = 1 \<and>
     sv_restarted_early (server_start s)"
proof -
  let ?s = "srv_run byte_buffer list_http e [Srv_start, Srv_stop_begin, Srv_stop_end] (demo_server 1)"
  have "\<not> sv_running ?s \<and> sv_blocking ?s = 1 \<and> sv_restarted_early (server_start ?s)"
    by (simp add: demo_server_sel server_start_def run_async_workers_def Let_def worker_count_def
        stop_begin_def stop_ready_def stop_end_def io_busy_def)
  then show ?thesis using demo_run_reachable by blast
qed

text \<open>A server configured with no workers: \<^verbatim>\<open>start()\<close> computes one worker less than none in unsigned
  arithmetic and asks for the largest count of threads instead of none, while \<^verbatim>\<open>async_start()\<close>
  starts no thread at all.\<close>

theorem zero_workers_wrap:
  assumes "sc_workers (sv_server_cfg s) = 0" and "\<not> sv_running s"
  shows "length (sv_workers (server_start s)) = 2 ^ 32 - 1 \<and> sv_workers (server_async_start h s) = []"
proof -
  have "unat (- 1 :: u32) = 2 ^ 32 - 1" by (simp add: unsigned_minus_1_eq_mask mask_eq_exp_minus_1)
  with assms show ?thesis
    by (simp add: server_start_def server_async_start_def run_async_workers_def Let_def worker_count_def)
qed

theorem zero_workers_wrap_witness: "length (sv_workers (server_start (demo_server 0))) = 2 ^ 32 - 1"
  using zero_workers_wrap [of "demo_server 0" False] by (simp only: demo_server_sel simp_thms)

section \<open>Binding\<close>

definition server_funcs :: "('b, 'h) server \<Rightarrow> 'h bound_funcs" where
  "server_funcs s = map_of (sm_bound_funcs (pl_manager (server_pool s)))"

lemma set_funcs_frame [simp]:
  "pl_manager (server_pool (set_manager m s)) = m"
  "bind_refused (set_manager ((pl_manager (server_pool s))\<lparr>sm_bound_funcs := f\<rparr>) s) = bind_refused s"
  "sv_running (set_manager m s) = sv_running s"
  by (simp_all add: set_manager_def set_pool_def server_pool_def bind_refused_def
      server_connections_def connections_def use_count_def manager_connections_def)

text \<open>\<^verbatim>\<open>bind\<close> does nothing and answers false while the server runs or has connections; otherwise it
  throws when the id has a handler and makes exactly the new id known when it has none, so
  that the next bind of the same id throws.\<close>

theorem server_bind_result:
  "(bind_refused s \<longrightarrow> server_bind c h s = Inr (False, s)) \<and>
   (\<not> bind_refused s \<longrightarrow> c \<in> dom (server_funcs s) \<longrightarrow> server_bind c h s = Inl (Already_bound c)) \<and>
   (\<not> bind_refused s \<longrightarrow> c \<notin> dom (server_funcs s) \<longrightarrow>
     (\<exists>t. server_bind c h s = Inr (True, t) \<and> server_funcs t = (server_funcs s)(c \<mapsto> h) \<and>
        server_bind c h' t = Inl (Already_bound c)))"
  by (auto simp: server_bind_def server_funcs_def Let_def domIff update_conv')

theorem server_bind_result_witness:
  "\<exists>t. server_bind 7 h (demo_server 1) = Inr (True, t) \<and> server_bind 7 h t = Inl (Already_bound 7)"
proof -
  have "\<not> bind_refused (demo_server 1)" "7 \<notin> dom (server_funcs (demo_server 1))"
    by (simp_all add: server_eval bind_refused_def server_connections_def connections_def
        manager_connections_def use_count_def server_funcs_def server_pool_def)
  then show ?thesis using server_bind_result [of "demo_server 1" 7 h h] by blast
qed

lemma listener_exec_funcs:
  "sm_bound_funcs (pl_manager (ln_pool (listener_exec B H e ev l))) = sm_bound_funcs (pl_manager (ln_pool l))"
  by (cases ev) (auto simp: pool_exec_funcs listener_on_accept_def on_detect_def create_session_def
      handle_accept_def detect_session_run_def Let_def pool_construct_def insert_session_def
      split: option.split tribool.split)

lemma broadcast_funcs [simp]:
  "sm_bound_funcs (pl_manager (manager_broadcast c bs ids p)) = sm_bound_funcs (pl_manager p)"
  by (simp add: manager_broadcast_def Let_def)

lemma start_funcs [simp]: "server_pool (run_async_workers h s) = server_pool s"
  by (simp add: run_async_workers_def Let_def server_pool_def)

text \<open>C30: the handlers are fixed while a worker may call them: a step of the server that is taken while
  some worker is inside \<^verbatim>\<open>run()\<close> does not change which ids are bound nor to what.\<close>

theorem handlers_fixed_while_running:
  assumes reach: "reachable server_init (srv_step B H e) s" and w: "running_workers s \<noteq> {}"
    and step: "srv_step B H e s ev t"
  shows "server_funcs t = server_funcs s"
proof -
  have "sv_running s"
    using threads_sys.reachable_inv [OF reach] w by (auto simp: threads_inv_def running_workers_empty)
  with step show ?thesis
    by (cases ev)
      (auto elim!: srv_stepE simp: server_start_def server_async_start_def stop_begin_def stop_end_def
        server_on_signal_def server_bind_def bind_refused_def server_broadcast_def server_broadcast_to_def
        server_funcs_def server_pool_def set_pool_def listener_exec_funcs Let_def split: option.split)
qed

theorem handlers_fixed_while_running_witness:
  "server_funcs (srv_exec byte_buffer list_http Big (Srv_bind 7 None)
      (srv_run byte_buffer list_http Big [Srv_async_start True] (demo_server 2))) =
   server_funcs (srv_run byte_buffer list_http Big [Srv_async_start True] (demo_server 2))"
proof -
  let ?s = "srv_run byte_buffer list_http Big [Srv_async_start True] (demo_server 2)"
  have "sv_workers ?s = spawn_workers 2"
    by (simp add: demo_server_sel server_async_start_def run_async_workers_def Let_def worker_count_def)
  then have "running_workers ?s \<noteq> {}" by (simp add: running_workers_empty numeral_2_eq_2)
  then show ?thesis
    by (rule handlers_fixed_while_running [OF demo_run_reachable, of _ _ _ _ _ "Srv_bind 7 None"])
      (rule srv_stepI, simp)
qed

end
