(* ===== verification/Read_Order.thy ===== *)
theory Read_Order
  imports Client_Session Server_Session
begin

text \<open>
  What a session does with the frames it receives over a run of events, proved once for both kinds of
  session: the frames are handled one at a time, in the order in which they arrive, and none after
  the session has stopped reading.
\<close>

section \<open>The interface\<close>

text \<open>
  \<open>frame ev\<close> is the buffer event \<open>ev\<close> delivers, \<open>log\<close> is what the session has handed to the bound
  functions, \<open>calls\<close> what one frame adds to it, and a session is \<open>stopped\<close> when it will not
  handle a frame any more. \<open>legal\<close> restricts the events of a run.
\<close>

locale frame_reader = ordered_events started outgoing wire dead enabled exec taken inv
  for started :: "'s \<Rightarrow> 'w list" and outgoing :: "'s \<Rightarrow> 'w list" and wire :: "'m \<Rightarrow> 'w" and dead :: "'s \<Rightarrow> bool"
    and enabled :: "'e \<Rightarrow> 's \<Rightarrow> bool" and exec :: "'e \<Rightarrow> 's \<Rightarrow> 's" and taken :: "'e \<Rightarrow> 's \<Rightarrow> 'm list"
    and inv :: "'s \<Rightarrow> bool" +
  fixes legal :: "'e \<Rightarrow> bool"
    and frame :: "'e \<Rightarrow> 'b option"
    and stopped :: "'s \<Rightarrow> bool"
    and log :: "'s \<Rightarrow> 'f list"
    and calls :: "'b \<Rightarrow> 'f list"
  assumes not_reading: "frame ev = Some b \<Longrightarrow> \<not> enabled ev s \<Longrightarrow> stopped s"
    and stopped_exec: "inv s \<Longrightarrow> enabled ev s \<Longrightarrow> stopped s \<Longrightarrow> stopped (exec ev s) \<and> log (exec ev s) = log s"
    and frame_exec: "legal ev \<Longrightarrow> inv s \<Longrightarrow> enabled ev s \<Longrightarrow> \<not> stopped s \<Longrightarrow> frame ev = Some b \<Longrightarrow>
      log (exec ev s) = log s @ calls b"
    and other_exec: "inv s \<Longrightarrow> enabled ev s \<Longrightarrow> frame ev = None \<Longrightarrow> log (exec ev s) = log s"
begin

definition delivered :: "'e list \<Rightarrow> 'b list" where
  "delivered evs = List.map_filter frame evs"

lemma stopped_run: "inv s \<Longrightarrow> stopped s \<Longrightarrow> stopped (run evs s) \<and> log (run evs s) = log s"
  by (induction evs arbitrary: s) (auto simp: inv_exec stopped_exec)

lemma log_run:
  assumes "inv s" and "\<forall>ev \<in> set evs. legal ev"
  shows "\<exists>k \<le> length (delivered evs). log (run evs s) = log s @ concat (map calls (take k (delivered evs))) \<and>
    (\<not> stopped (run evs s) \<longrightarrow> k = length (delivered evs))"
  using assms
proof (induction evs arbitrary: s)
  case Nil
  then show ?case by (simp add: delivered_def)
next
  case (Cons ev evs)
  let ?s = "if enabled ev s then exec ev s else s"
  have inv: "inv ?s" using Cons.prems(1) by (simp add: inv_exec)
  show ?case
  proof (cases "stopped s")
    case True
    with stopped_run [OF Cons.prems(1) True, of "ev # evs"] show ?thesis by (intro exI [of _ 0]) simp
  next
    case False
    obtain k where k: "k \<le> length (delivered evs)"
      "log (run evs ?s) = log ?s @ concat (map calls (take k (delivered evs)))"
      "\<not> stopped (run evs ?s) \<longrightarrow> k = length (delivered evs)"
      using Cons.IH [OF inv] Cons.prems(2) by auto
    show ?thesis
    proof (cases "frame ev")
      case None
      then have "log ?s = log s" using Cons.prems(1) by (simp add: other_exec)
      with None k show ?thesis by (intro exI [of _ k]) (simp add: delivered_def)
    next
      case (Some b)
      with False have "enabled ev s" using not_reading by blast
      with Some False have "log ?s = log s @ calls b" using Cons.prems by (simp add: frame_exec)
      with Some k \<open>enabled ev s\<close> show ?thesis by (intro exI [of _ "Suc k"]) (simp add: delivered_def)
    qed
  qed
qed

end

section \<open>A server session\<close>

text \<open>The calls one frame leads to: the bound function of its call id, with the bytes after the header.\<close>

definition frame_calls :: "'b flat_buffer \<Rightarrow> endian \<Rightarrow> (u32 \<Rightarrow> bool) \<Rightarrow> 'b \<Rightarrow> (u32 \<times> u8 list) list" where
  "frame_calls B e bound b =
     (let front = fb_bytes B b; cid = call_id (io_header_of_bytes e front)
      in if sizeof_io_header \<le> length front \<and> bound cid then [(cid, fb_bytes B (fb_consume B b sizeof_io_header))]
         else [])"

definition is_bound :: "('k \<Rightarrow> 'f option option) \<Rightarrow> 'k \<Rightarrow> bool" where
  "is_bound funcs k \<longleftrightarrow> (case funcs k of Some (Some f) \<Rightarrow> True | _ \<Rightarrow> False)"

fun server_frame :: "'b server_event \<Rightarrow> 'b option" where
  "server_frame (Sv_read now ec b) = (if failed ec then None else Some b)"
| "server_frame _ = None"

definition server_stopped :: "('b, 'h, 'z) server_session_scheme \<Rightarrow> bool" where
  "server_stopped s \<longleftrightarrow> so_reads (ss_stream s) = 0 \<or> ss_close s \<or> ss_close_received s \<or> ss_write_error s"

lemma call_function_log:
  "ss_calls (call_function B e funcs now s) = ss_calls s @ frame_calls B e (is_bound funcs) (cx_receive_buffer s)"
  by (cases "sizeof_io_header \<le> length (fb_bytes B (cx_receive_buffer s))")
    (auto simp: call_function_frame call_function_short frame_calls_def is_bound_def frame_header_def Let_def
      call_context_def split: option.split)

lemma server_flags_close [simp]:
  "ss_close s \<Longrightarrow> ss_close (server_close_session now s)"
  "ss_close_received (server_close_session now s) = ss_close_received s"
  by (simp_all add: server_close_session_def server_shutdown_def)

lemma server_stopped_exec:
  assumes "server_inv e s" and "server_enabled ev s" and "server_stopped s"
  shows "server_stopped (server_exec B e funcs ev s) \<and> ss_calls (server_exec B e funcs ev s) = ss_calls s"
proof (cases ev)
  case (Sv_read now ec b)
  with assms show ?thesis
    by (auto simp: server_stopped_def server_on_read_def server_read_def Let_def)
next
  case Sv_posted
  with assms show ?thesis
    by (cases "ss_posted s") (auto simp: server_stopped_def server_handle_send_def server_write_def Let_def split: list.split)
next
  case (Sv_wrote now ec)
  with assms show ?thesis
    by (auto simp: server_stopped_def server_on_write_def server_write_def Let_def split: list.split)
qed (use assms in \<open>auto simp: server_stopped_def server_session_send_def server_on_control_callback_def on_timer_def
      server_shutdown_def server_on_ping_def on_shutdown_def Let_def\<close>)

interpretation sr: frame_reader "\<lambda>s. so_started (ss_stream s)" "sw.outgoing e" "server_wire_of e"
  ss_write_error server_enabled "server_exec B e funcs" "server_taken B e funcs" "server_inv e"
  "\<lambda>_. True" server_frame server_stopped ss_calls "frame_calls B e (is_bound funcs)"
  for B :: "'b flat_buffer" and e :: endian and funcs :: "'h bound_funcs"
proof (unfold_locales, goal_cases)
  case (1 ev b s)
  then show ?case by (cases ev) (auto simp: server_stopped_def split: if_splits)
next
  case (2 s ev)
  then show ?case by (rule server_stopped_exec)
next
  case (3 ev s b)
  then obtain now ec where "ev = Sv_read now ec b" "\<not> failed ec" by (cases ev) (auto split: if_splits)
  with 3 show ?case by (auto simp: server_stopped_def server_on_read_def server_read_def Let_def call_function_log)
next
  case (4 s ev)
  then show ?case
    by (cases ev) (auto simp: server_session_send_def server_on_control_callback_def on_timer_def
        server_shutdown_def server_on_ping_def on_shutdown_def server_on_write_def server_write_def
        server_on_read_def Let_def split: if_splits list.split)
qed

section \<open>A client session\<close>

fun client_frame_of :: "'b client_event \<Rightarrow> 'b option" where
  "client_frame_of (Ev_read funcs now ec b) = (if failed ec then None else Some b)"
| "client_frame_of _ = None"

text \<open>The broadcast handlers do not change while a session exists.\<close>

fun reads_with :: "'b broadcast_handlers \<Rightarrow> 'b client_event \<Rightarrow> bool" where
  "reads_with funcs (Ev_read f now ec b) \<longleftrightarrow> f = funcs"
| "reads_with funcs _ \<longleftrightarrow> True"

definition client_stopped :: "'b client_session \<Rightarrow> bool" where
  "client_stopped s \<longleftrightarrow> so_reads (cs_stream s) = 0 \<or> cs_close_received s"

lemma client_dispatch_log:
  "cs_broadcasts (client_dispatch B e funcs s) = cs_broadcasts s @ frame_calls B e (is_bound funcs) (cs_read_buffer s)"
  by (auto simp: client_dispatch_def frame_calls_def is_bound_def Let_def split: option.split prod.split)

lemma reading_frame [simp]:
  "cs_broadcasts (close_session s) = cs_broadcasts s" "cs_close_received (close_session s) = cs_close_received s"
  "so_reads (cs_stream (close_session s)) = so_reads (cs_stream s)"
  "cs_broadcasts (handle_send e c r p d n s) = cs_broadcasts s"
  "cs_close_received (handle_send e c r p d n s) = cs_close_received s"
  "so_reads (cs_stream (handle_send e c r p d n s)) = so_reads (cs_stream s)"
  "cs_broadcasts (client_on_write e ec s) = cs_broadcasts s"
  "cs_close_received (client_on_write e ec s) = cs_close_received s"
  "so_reads (cs_stream (client_on_write e ec s)) = so_reads (cs_stream s)"
  by (simp_all add: close_session_def handle_send_def client_on_write_def client_write_def Let_def data_queue_defs
      split: list.split option.split prod.split)

lemma posted_reading [simp]:
  "cs_broadcasts (run_posted e h s) = cs_broadcasts s" "cs_close_received (run_posted e h s) = cs_close_received s"
  "so_reads (cs_stream (run_posted e h s)) = so_reads (cs_stream s)"
  by (cases h; simp add: weak_post_def handle_ping_def)+

lemma client_other_exec:
  assumes "\<And>f now ec b. ev \<noteq> Ev_read f now ec b"
  shows "cs_broadcasts (client_exec B e ev s) = cs_broadcasts s \<and>
    so_reads (cs_stream (client_exec B e ev s)) = so_reads (cs_stream s) \<and>
    (cs_close_received s \<longrightarrow> cs_close_received (client_exec B e ev s))"
  using assms by (cases ev) (auto simp: on_control_callback_def on_ping_def post_send_def drop_promise_def Let_def
      split: list.split)

interpretation cr: frame_reader "\<lambda>s. so_started (cs_stream s)" "cw.outgoing e" "client_wire_of e"
  cs_write_error client_enabled "client_exec B e" accepted_at "client_inv e"
  "reads_with funcs" client_frame_of client_stopped cs_broadcasts "frame_calls B e (is_bound funcs)"
  for B :: "'b flat_buffer" and e :: endian and funcs :: "'b broadcast_handlers"
proof (unfold_locales, goal_cases)
  case (1 ev b s)
  then show ?case by (cases ev) (auto simp: client_stopped_def split: if_splits)
next
  case (2 s ev)
  show ?case
  proof (cases ev)
    case (Ev_read f now ec b)
    with 2 show ?thesis by (auto simp: client_stopped_def client_on_read_def)
  qed (use 2 client_other_exec [of ev B e s] in \<open>auto simp: client_stopped_def simp del: client_exec.simps\<close>)
next
  case (3 ev s b)
  then obtain now ec where "ev = Ev_read funcs now ec b" "\<not> failed ec" by (cases ev) (auto split: if_splits)
  with 3 show ?case
    by (auto simp: client_stopped_def client_on_read_def client_read_def Let_def client_dispatch_log)
next
  case (4 s ev)
  show ?case
  proof (cases ev)
    case (Ev_read f now ec b)
    with 4 show ?thesis by (auto simp: client_on_read_def split: if_splits)
  qed (use client_other_exec [of ev B e s] in \<open>simp_all del: client_exec.simps\<close>)
qed

end
