(* ===== verification/Rpc_Exchange.thy ===== *)
theory Rpc_Exchange
  imports Client Server Read_Order
begin

text \<open>
  A call over both peers: what a client session writes, what a server session answers to it and
  what the waiting caller gets. The network carries the bytes of a write to the other peer's buffer.
\<close>

section \<open>The request\<close>

text \<open>
  The bytes of a client's write: the header and the caller's bytes, \<open>mem\<close> being the memory the
  pointer and the size refer to.
\<close>

fun client_frame :: "(u64 \<Rightarrow> u64 \<Rightarrow> u8 list) \<Rightarrow> client_wire \<Rightarrow> u8 list" where
  "client_frame mem (header, ptr, n) = header @ mem ptr n"

definition client_idle :: "endian \<Rightarrow> 'b client_session \<Rightarrow> bool" where
  "client_idle e s \<longleftrightarrow> client_inv e s \<and> dq_entries (cs_queue s) = [] \<and> cs_posted s = [] \<and> \<not> client_blocked s"

lemma request_written:
  assumes idle: "client_idle e s" and ps: "post_send k rid d n s = (p, s1)"
  shows "client_run B e [Ev_posted, Ev_wrote No_error] s1 =
    s\<lparr>cs_next_promise := Suc p, cs_promises := (cs_promises s)(p \<mapsto> Some True),
      cs_stream := write_done (async_write (client_wire_of e (data_send_new k rid p d n)) (cs_stream s))\<rparr>"
    and "so_writes (cs_stream s) = []"
proof -
  let ?m = "data_send_new k rid p d n"
  have acc: "client_accepts s" "dq_entries (cs_queue s) = []" "\<not> client_blocked s" "cs_posted s = []"
    using idle by (simp_all add: client_idle_def client_accepts_def client_inv_def queue_send_max_def)
  show w: "so_writes (cs_stream s) = []" using idle by (simp add: client_idle_def client_inv_def)
  have s1: "s1 = s\<lparr>cs_next_promise := Suc p, cs_promises := (cs_promises s)(p \<mapsto> None),
      cs_posted := [Post_handle_send k rid p d n]\<rparr>" and p: "p = cs_next_promise s"
    using ps acc by (auto simp: post_send_def Let_def)
  let ?s2 = "s\<lparr>cs_next_promise := Suc p, cs_promises := (cs_promises s)(p \<mapsto> None),
      cs_queue := (cs_queue s)\<lparr>dq_entries := [?m]\<rparr>, cs_stream := async_write (client_wire_of e ?m) (cs_stream s)\<rparr>"
  have "client_run B e [Ev_posted] s1 = ?s2"
    using acc s1 by (simp add: weak_post_def handle_send_accepted client_accepts_def client_blocked_def Let_def)
  moreover have "client_run B e [Ev_wrote No_error] ?s2 = ?s2\<lparr>cs_stream := write_done (cs_stream ?s2),
      cs_promises := (cs_promises s)(p \<mapsto> Some True), cs_queue := (cs_queue s)\<lparr>dq_entries := []\<rparr>\<rparr>"
    using acc by (simp add: on_write_next [of No_error _ ?m "[]"] client_goes_on_def client_blocked_def Let_def
        promise_set_value_def data_send_new_def)
  moreover have "(cs_queue s)\<lparr>dq_entries := []\<rparr> = cs_queue s" using acc(2) by simp
  ultimately show "client_run B e [Ev_posted, Ev_wrote No_error] s1 =
    s\<lparr>cs_next_promise := Suc p, cs_promises := (cs_promises s)(p \<mapsto> Some True),
      cs_stream := write_done (async_write (client_wire_of e ?m) (cs_stream s))\<rparr>"
    by simp
qed

section \<open>The answer\<close>

text \<open>
  A server session that can answer at once, and what the handler sees of a request with the
  given bytes.
\<close>

definition server_ready :: "('b, 'h, 'z) server_session_scheme \<Rightarrow> bool" where
  "server_ready s \<longleftrightarrow> server_accepts s \<and> ss_queue s = [] \<and> cx_response s = [] \<and> \<not> cx_bound_close s"

definition handler_view :: "u8 list \<Rightarrow> ('b, 'h, 'z) server_session_scheme \<Rightarrow> 'h context_view" where
  "handler_view body s = \<lparr>cv_id = cx_id s, cv_remote_host = cx_remote_host s, cv_data = body,
     cv_size = length body, cv_config = cx_config s, cv_request_handshake = cx_req_handshake s\<rparr>"

lemma answer_written:
  assumes laws: "flat_buffer_laws B" and ready: "server_ready s"
    and req: "fb_bytes B req = io_header_bytes e h @ body"
    and bound: "funcs (call_id h) = Some (Some f)"
    and resp: "Ctx_close \<notin> set (f (handler_view body s))" "handler_response (f (handler_view body s)) [] \<noteq> []"
  shows "so_started (ss_stream (server_exec B e funcs (Sv_read now No_error req) s)) =
    so_started (ss_stream s) @ [io_header_bytes e h @ handler_response (f (handler_view body s)) []]"
proof -
  let ?s = "s\<lparr>cx_receive_buffer := req, ss_stream := read_done (ss_stream s)\<rparr>"
  have frame: "fb_bytes B (cx_receive_buffer ?s) = io_header_bytes e h @ body" using req by simp
  have st: "\<not> ss_close ?s" "\<not> ss_write_error ?s" "\<not> ss_close_received ?s" "server_accepts ?s"
    using ready by (simp_all add: server_ready_def server_accepts_def)
  have "response_of B e funcs ?s =
      [\<lparr>sp_msg = None, sp_data = \<lparr>dp_header = h, dp_body = handler_response (f (handler_view body s)) []\<rparr>\<rparr>]"
    using frame_bytes [OF laws frame] bound resp ready
    by (simp add: response_of_def Let_def handler_view_def server_ready_def)
  then show ?thesis
    using on_read_next(3) [OF laws st(3,1,2)] call_function_queue(2) [of B e funcs now ?s] st(4) ready
    by (simp add: server_read_def server_wire_of_def server_ready_def)
qed

section \<open>The waiting caller\<close>

lemma read_delivers:
  assumes laws: "flat_buffer_laws B" and rep: "fb_bytes B rep = io_header_bytes e h @ body"
    and unbound: "funcs (call_id h) = None" and s: "\<not> cs_close_received s" "so_reads (cs_stream s) \<noteq> 0"
  shows "\<exists>rest. fb_bytes B rest = body \<and>
    cs_cache (client_run B e [Ev_read funcs now No_error rep] s) =
      cache_run B [Op_swap_notify (result_id h) rest, Op_remove_obsolete now] (cs_cache s)"
proof (intro exI conjI)
  show "fb_bytes B (fb_consume B rep sizeof_io_header) = body"
    using laws rep by (simp add: flat_buffer_consume)
  show "cs_cache (client_run B e [Ev_read funcs now No_error rep] s) =
      cache_run B [Op_swap_notify (result_id h) (fb_consume B rep sizeof_io_header), Op_remove_obsolete now] (cs_cache s)"
    using rep unbound s
    by (simp add: client_on_read_def client_dispatch_def client_read_def Let_def io_header_of_bytes_append
        split: prod.split)
qed

lemma wait_gets_answer:
  assumes laws: "flat_buffer_laws B" and rep: "fb_bytes B rep = io_header_bytes e h @ body"
    and unbound: "funcs (call_id h) = None" and s: "\<not> cs_close_received s" "so_reads (cs_stream s) \<noteq> 0"
    and cache: "cache_inv (cs_cache s)" "ids_bounded (cs_cache s)"
      "cache_view (cs_cache s) (result_id h) = Some (Queued, x)"
  shows "\<exists>b s'. session_wait (client_run B e [Ev_read funcs now No_error rep]) (result_id h) recv s = (True, b, s') \<and>
    fb_bytes B b = body"
proof -
  let ?i = "result_id h"
  obtain r c where beg: "data_cache_wait_begin ?i (cs_cache s) = (Wait_blocked r, c)" and w: "waits_on ?i r c"
    using wait_begin_blocks [OF cache(1,2,3)] by (metis data_state.distinct(3) snd_conv)
  obtain rest where rest: "fb_bytes B rest = body"
    "cs_cache (client_run B e [Ev_read funcs now No_error rep] (s\<lparr>cs_cache := c\<rparr>)) =
      cache_run B [Op_swap_notify ?i rest, Op_remove_obsolete now] c"
    using read_delivers [OF laws rep, of funcs "s\<lparr>cs_cache := c\<rparr>" now] unbound s by auto
  from swap_notify_waiting [OF w, of B rest] detached_run [of r _ "[Op_remove_obsolete now]" B]
  have "dc_rows (cache_run B [Op_swap_notify ?i rest, Op_remove_obsolete now] c) ! r =
      (dc_rows c ! r)\<lparr>dr_read_buffer := rest, dr_state := Swapped, dr_notified := True\<rparr>" by simp
  then show ?thesis
    using rest by (simp add: session_wait_def beg Let_def data_cache_take_def data_cache_swapped_def
        del: client_run.simps)
qed

section \<open>The exchange\<close>

lemma send_recv_eq:
  assumes q: "data_cache_queue B now (ct_response_timeout (cs_client_timeout s) * 2) (cs_cache s) = (rid, c)"
    and rid: "rid \<noteq> 0" and ps: "post_send k rid d n (s\<lparr>cs_cache := c\<rparr>) = (p, s1)"
    and ready: "promise_ready (cs_promises (run1 s1)) p"
    and wait: "session_wait run2 rid recv (run1 s1) = (ok, b, s3)"
  shows "fst (client_session_send_recv B now (\<lambda>_. run1) (\<lambda>_. run2) k d n recv t s) =
      (if ok then No_error else Timed_out) \<and>
    fst (snd (client_session_send_recv B now (\<lambda>_. run1) (\<lambda>_. run2) k d n recv t s)) = b"
  using assms by (simp add: client_session_send_recv_def Let_def wait_written_def split_def)

text \<open>What a caller has done when its request is written: the session it leaves and the frame.\<close>

lemma call_request:
  fixes B :: "'b flat_buffer"
  assumes client: "client_idle e cs" "so_reads (cs_stream cs) \<noteq> 0"
    and cache: "ids_bounded (cs_cache cs)" "unat (dc_id_counter (cs_cache cs)) < 2 ^ 64 - 1"
      "length (dc_entries (cs_cache cs)) < dc_max_entries (cs_cache cs)"
    and posted: "post_send k rid d n (cs\<lparr>cs_cache := c\<rparr>) = (p, posted)"
    and rid: "data_cache_queue B now (ct_response_timeout (cs_client_timeout cs) * 2) (cs_cache cs) = (rid, c)"
  defines "c1 \<equiv> client_run B e [Ev_posted, Ev_wrote No_error] posted"
  shows "rid \<noteq> 0" "cache_inv c" "ids_bounded c" "cache_view c rid = Some (Queued, fb_new B)"
    "\<not> cs_close_received c1" "so_reads (cs_stream c1) \<noteq> 0" "cs_cache c1 = c" "promise_ready (cs_promises c1) p"
    "client_frame mem (last (so_started (cs_stream c1))) = io_header_bytes e (io_header_new k rid) @ mem d n"
proof -
  have inv: "cache_inv (cs_cache cs)" "\<not> cs_close_received cs"
    using client(1) by (auto simp: client_idle_def client_inv_def client_blocked_def)
  have i: "rid = dc_id_counter (cs_cache cs) + 1" using rid cache(3) by (auto simp: data_cache_queue_def Let_def)
  show "rid \<noteq> 0" using counter_step(1) [OF cache(2)] i by simp
  show c: "cache_inv c" "ids_bounded c" "cache_view c rid = Some (Queued, fb_new B)"
    using cache_inv_queue [OF inv(1)] ids_bounded_queue [OF cache(1,2)] cache_view_queue [OF inv(1) cache(3)] rid
    by (metis fst_conv fun_upd_same snd_conv)+
  have idle: "client_idle e (cs\<lparr>cs_cache := c\<rparr>)"
    using client(1) c(1) by (auto simp: client_idle_def client_inv_def client_blocked_def)
  note c1 = request_written(1) [OF idle posted, of B, folded c1_def]
  show "\<not> cs_close_received c1" "so_reads (cs_stream c1) \<noteq> 0" "cs_cache c1 = c" "promise_ready (cs_promises c1) p"
    "client_frame mem (last (so_started (cs_stream c1))) = io_header_bytes e (io_header_new k rid) @ mem d n"
    unfolding c1 using inv(2) client(2) by (simp_all add: promise_ready_code client_wire_of_def data_send_new_def)
qed

text \<open>
  A call on a session: the request is written, received by a server session that answers it, and the
  answer is received while the caller waits.
\<close>

lemma session_call_answered:
  fixes B :: "'b flat_buffer"
  assumes laws: "flat_buffer_laws B"
    and client: "client_idle e cs" "so_reads (cs_stream cs) \<noteq> 0" "bfuncs k = None"
    and cache: "ids_bounded (cs_cache cs)" "unat (dc_id_counter (cs_cache cs)) < 2 ^ 64 - 1"
      "length (dc_entries (cs_cache cs)) < dc_max_entries (cs_cache cs)"
    and server: "server_ready ss" "sfuncs k = Some (Some f)" "Ctx_close \<notin> set (f (handler_view (mem d n) ss))"
      "handler_response (f (handler_view (mem d n) ss)) [] \<noteq> []"
    and posted: "post_send k rid d n (cs\<lparr>cs_cache := c\<rparr>) = (p, posted)"
    and rid: "data_cache_queue B now (ct_response_timeout (cs_client_timeout cs) * 2) (cs_cache cs) = (rid, c)"
    and request: "fb_bytes B req = client_frame mem
      (last (so_started (cs_stream (client_run B e [Ev_posted, Ev_wrote No_error] posted))))"
    and answer: "fb_bytes B rep =
      last (so_started (ss_stream (server_exec B e sfuncs (Sv_read now1 No_error req) ss)))"
  shows "\<exists>b t' cs'. client_session_send_recv B now (\<lambda>_. client_run B e [Ev_posted, Ev_wrote No_error])
      (\<lambda>_. client_run B e [Ev_read bfuncs now2 No_error rep]) k d n recv t cs = (No_error, b, t', cs') \<and>
    fb_bytes B b = handler_response (f (handler_view (mem d n) ss)) []"
proof -
  let ?h = "io_header_new k rid" and ?resp = "handler_response (f (handler_view (mem d n) ss)) []"
  let ?c1 = "client_run B e [Ev_posted, Ev_wrote No_error] posted"
  note r = call_request [OF client(1,2) cache posted rid]
  from answer_written [OF laws server(1) request [unfolded r(9)], of sfuncs f now1] server(2-4)
  have rep: "fb_bytes B rep = io_header_bytes e ?h @ ?resp" using answer by (simp add: io_header_new_def)
  have "\<exists>b s'. session_wait (client_run B e [Ev_read bfuncs now2 No_error rep]) rid recv ?c1 = (True, b, s') \<and>
      fb_bytes B b = ?resp"
    using wait_gets_answer [OF laws rep, of bfuncs ?c1 "fb_new B" now2 recv] client(3) r(2-7)
    by (simp add: io_header_new_def)
  then obtain b s' where w: "session_wait (client_run B e [Ev_read bfuncs now2 No_error rep]) rid recv ?c1 = (True, b, s')"
    "fb_bytes B b = ?resp" by blast
  from send_recv_eq [OF rid r(1) posted,
      of "client_run B e [Ev_posted, Ev_wrote No_error]", OF r(8) w(1), of t] w(2) show ?thesis
    by (simp add: prod_eq_iff del: client_run.simps)
qed

text \<open>A handler that leaves the response empty, and a caller who waits for nothing.\<close>

lemma answer_omitted:
  assumes laws: "flat_buffer_laws B" and ready: "server_ready s"
    and req: "fb_bytes B req = io_header_bytes e h @ body" and bound: "funcs (call_id h) = Some (Some f)"
    and resp: "handler_response (f (handler_view body s)) [] = []"
  shows "so_started (ss_stream (server_exec B e funcs (Sv_read now No_error req) s)) = so_started (ss_stream s) \<and>
    ss_queue (server_exec B e funcs (Sv_read now No_error req) s) = []"
proof -
  let ?s = "s\<lparr>cx_receive_buffer := req, ss_stream := read_done (ss_stream s)\<rparr>"
  have frame: "fb_bytes B (cx_receive_buffer ?s) = io_header_bytes e h @ body" using req by simp
  have st: "\<not> ss_close ?s" "\<not> ss_write_error ?s" "\<not> ss_close_received ?s"
    using ready by (simp_all add: server_ready_def server_accepts_def)
  have "response_of B e funcs ?s = []"
    using frame_bytes [OF laws frame] bound resp ready
    by (simp add: response_of_def Let_def handler_view_def server_ready_def)
  then show ?thesis
    using on_read_next(3) [OF laws st(3,1,2)] call_function_queue(1,2) [of B e funcs now ?s] ready
    by (simp add: server_read_def server_ready_def)
qed

lemma wait_unanswered:
  assumes "cache_inv (cs_cache s)" "ids_bounded (cs_cache s)" "cache_view (cs_cache s) i = Some (Queued, x)"
  shows "\<exists>s'. session_wait (\<lambda>s. s) i recv s = (False, x, s')"
proof -
  obtain r where "data_cache_wait_begin i (cs_cache s) = (Wait_blocked r, (cs_cache s)\<lparr>dc_rows :=
      (dc_rows (cs_cache s))[r := (dc_rows (cs_cache s) ! r)\<lparr>dr_state := Waiting\<rparr>]\<rparr>)"
    "map_of (dc_entries (cs_cache s)) i = Some r" "dr_read_buffer (dc_rows (cs_cache s) ! r) = x"
    using wait_begin_blocks [OF assms] by (metis data_state.distinct(3))
  with cache_invD(1) [OF assms(1)] show ?thesis
    by (simp add: session_wait_def data_cache_take_def data_cache_swapped_def)
qed

text \<open>The same call made on the client object: the first attempt finds the session and succeeds.\<close>

lemma first_attempt_answers:
  assumes "unat (cc_send_attempts (ci_client_cfg c)) = Suc m" and "\<not> ci_exit (ce_before (E 0) c)"
    and "ci_session (ce_before (E 0) c) = Some sn"
    and "client_session_send_recv B (ce_now (E 0)) (ce_io (E 0)) (ce_response (E 0)) k d n (fb_new B) t (sn_session sn) =
      (No_error, b, t', s')"
  shows "\<exists>c'. client_send_recv B E k d n t c = Returned (b, t') c'"
  using attempt_loop_some [of E 0 c sn "recv_op B k d n" "fb_new B" t No_error b t' s' B m] assms
  by (simp add: client_send_recv_def recv_op_def Let_def del: attempt_loop.simps)

text \<open>What a session of the pool does when a frame arrives.\<close>

lemma pool_session_exec:
  "map_of (pl_sessions p) j = Some s \<Longrightarrow>
   map_of (pl_sessions (pool_exec B H e (Pl_session j ev) p)) j =
     Some (server_exec B e (map_of (sm_bound_funcs (pl_manager p))) ev s)"
  by (simp add: update_session_def update_conv' del: server_exec.simps)

section \<open>Messages in order\<close>

lemma concat_take_corresponds:
  assumes "map f xs = map g ys" and "\<And>x y. f x = g y \<Longrightarrow> c x = d y"
  shows "concat (map c (take k xs)) = concat (map d (take k ys))"
  using assms(1)
proof (induction xs arbitrary: ys k)
  case (Cons x xs)
  then obtain y ys' where "ys = y # ys'" "f x = g y" "map f xs = map g ys'" by (cases ys) auto
  with Cons.IH [of ys'] assms(2) [of x y] show ?case by (cases k) simp_all
qed simp

text \<open>The frames \<open>bs\<close> that have arrived are the first ones of the messages \<open>ms\<close>.\<close>

lemma prefix_calls:
  assumes arrived: "map f bs = take m (map w (take q ms))" and k: "k \<le> length bs"
    and same: "\<And>b d. f b = w d \<Longrightarrow> c b = g d"
  shows "concat (map c (take k bs)) = concat (map g (take k ms))"
proof -
  have frames: "map f bs = map w (take m (take q ms))" using arrived by (simp add: take_map)
  have "length bs = length (take m (take q ms))" using arg_cong [OF frames, of length] by simp
  then have "take k (take m (take q ms)) = take k ms" using k by (simp add: min.absorb1)
  with concat_take_corresponds [OF frames, where c = c and d = g and k = k] same show ?thesis by simp
qed

text \<open>
  A message is a header and bytes. Those of a client are in the memory of its caller while they are
  written: \<open>mem i\<close> is the memory during the \<open>i\<close>-th write, so a caller may use a buffer again.
\<close>

definition requests_of :: "(nat \<Rightarrow> u64 \<Rightarrow> u64 \<Rightarrow> u8 list) \<Rightarrow> data_send list \<Rightarrow> (io_header \<times> u8 list) list" where
  "requests_of mem ms = map (\<lambda>(i, m). (ds_header m, mem i (ds_body_ptr m) (ds_body_size m))) (enumerate 0 ms)"

definition client_frames :: "(nat \<Rightarrow> u64 \<Rightarrow> u64 \<Rightarrow> u8 list) \<Rightarrow> client_wire list \<Rightarrow> u8 list list" where
  "client_frames mem ws = map (\<lambda>(i, w). client_frame (mem i) w) (enumerate 0 ws)"

definition pushed :: "shared_push \<Rightarrow> io_header \<times> u8 list" where
  "pushed m = (dp_header (sp_data m), dp_body (sp_data m))"

definition message_frame :: "endian \<Rightarrow> io_header \<times> u8 list \<Rightarrow> u8 list" where
  "message_frame e m = io_header_bytes e (fst m) @ snd m"

lemma enumerate_map: "enumerate n (map f xs) = map (\<lambda>(i, x). (i, f x)) (enumerate n xs)"
  by (induction xs arbitrary: n) simp_all

lemma enumerate_take: "enumerate n (take k xs) = take k (enumerate n xs)"
  by (induction xs arbitrary: n k) (simp_all add: take_Cons' split: nat.split)

lemma enumerate_append: "enumerate n (xs @ ys) = enumerate n xs @ enumerate (n + length xs) ys"
  by (induction xs arbitrary: n) simp_all

lemma requests_of_take [simp]: "requests_of mem (take k ms) = take k (requests_of mem ms)"
  by (simp add: requests_of_def enumerate_take take_map)

lemma client_frames_append: "\<exists>fs. client_frames mem (ws @ vs) = client_frames mem ws @ fs"
  by (simp add: client_frames_def enumerate_append)

lemma length_client_frames [simp]: "length (client_frames mem ws) = length ws"
  by (simp add: client_frames_def)

lemma client_frames_wire:
  "client_frames mem (map (client_wire_of e) ms) = map (message_frame e) (requests_of mem ms)"
  by (simp add: client_frames_def requests_of_def enumerate_map message_frame_def client_wire_of_def split_def)

lemma server_wire_frame: "server_wire_of e m = message_frame e (pushed m)"
  by (simp add: server_wire_of_def message_frame_def pushed_def)

text \<open>The call a message leads to when it arrives.\<close>

definition message_call :: "(u32 \<Rightarrow> bool) \<Rightarrow> io_header \<times> u8 list \<Rightarrow> (u32 \<times> u8 list) list" where
  "message_call bound m = (if bound (call_id (fst m)) then [(call_id (fst m), snd m)] else [])"

lemma frame_calls_bytes:
  "flat_buffer_laws B \<Longrightarrow> fb_bytes B b = io_header_bytes e h @ body \<Longrightarrow>
   frame_calls B e bound b = (if bound (call_id h) then [(call_id h, body)] else [])"
  by (simp add: frame_calls_def Let_def io_header_of_bytes_append flat_buffer_consume)

lemma frame_calls_message:
  "flat_buffer_laws B \<Longrightarrow> fb_bytes B b = message_frame e m \<Longrightarrow> frame_calls B e bound b = message_call bound m"
  by (simp add: message_frame_def message_call_def frame_calls_bytes)

section \<open>A broadcast\<close>

lemma posted_written:
  assumes "server_accepts s" and "ss_queue s = []" and "ss_posted s = []"
  shows "so_started (ss_stream (server_exec B e funcs Sv_posted (server_session_send m s))) =
    so_started (ss_stream s) @ [server_wire_of e m]"
proof -
  have "server_accepts (s\<lparr>ss_posted := []\<rparr>)" using assms(1) by (simp add: server_accepts_def)
  with assms(2,3) show ?thesis by (simp add: server_session_send_def server_send_accepted)
qed

lemma read_calls_handler:
  assumes laws: "flat_buffer_laws B" and "fb_bytes B b = io_header_bytes e h @ body"
    and "is_bound funcs (call_id h)" and s: "\<not> cs_close_received s" "so_reads (cs_stream s) \<noteq> 0"
  shows "cs_broadcasts (client_run B e [Ev_read funcs now No_error b] s) = cs_broadcasts s @ [(call_id h, body)]"
  using s frame_calls_bytes [OF assms(1,2), of "is_bound funcs"] assms(3)
  by (simp add: client_on_read_def client_read_def Let_def client_dispatch_log)

end
