(* ===== verification/Example_Programs.thy ===== *)
theory Example_Programs
  imports Rpc_Exchange
begin

text \<open>
  The programs of \<^verbatim>\<open>src/examples\<close>: a basic pair that echoes a message, plain and with TLS, and an
  advanced pair with its own handshake fields, several handlers and broadcasts. They are the library's
  documented use. What they print is left out, and so is what they wait for at the terminal.
\<close>

section \<open>Call ids and settings\<close>

datatype my_rpc_commands =
    MY_RPC_SEND
  | MY_RPC_ECHO_MSG
  | MY_RPC_BROADCAST_ALL
  | MY_RPC_BROADCAST_SINGLE
  | MY_RPC_LISTEN_BROADCAST
  | MY_RPC_SERVER_SHUTDOWN

fun command_id :: "my_rpc_commands \<Rightarrow> u32" where
  "command_id MY_RPC_SEND = 0"
| "command_id MY_RPC_ECHO_MSG = 1"
| "command_id MY_RPC_BROADCAST_ALL = 2"
| "command_id MY_RPC_BROADCAST_SINGLE = 3"
| "command_id MY_RPC_LISTEN_BROADCAST = 4"
| "command_id MY_RPC_SERVER_SHUTDOWN = 5"

text \<open>The basic programs have an enumeration of their own, with one value.\<close>

definition basic_echo_id :: u32 where
  "basic_echo_id = 0"

definition seconds :: "nat \<Rightarrow> duration" where
  "seconds n = of_nat (n * 1000000000)"

definition basic_server_config :: server_config where
  "basic_server_config = \<lparr>sc_host_address = ''0.0.0.0'', sc_port = 3377, sc_workers = 2, sc_max_sessions = 1000,
     sc_max_handshake_bytes = 0xFFFF, sc_mode = mode_plain\<rparr>"

definition advanced_server_config :: server_config where
  "advanced_server_config = basic_server_config\<lparr>sc_workers := 3\<rparr>"

definition ssl_server_config :: server_config where
  "ssl_server_config = basic_server_config\<lparr>sc_mode := server_mode_or mode_plain mode_ssl\<rparr>"

definition example_server_timeout :: server_timeout where
  "example_server_timeout = \<lparr>st_handshake_or_close_timeout = seconds 5\<rparr>"

definition example_session_config :: session_config where
  "example_session_config = \<lparr>sg_max_transfer_bytes = 0xFFFFFFFF, sg_ping_delay = seconds 30\<rparr>"

definition example_client_config :: client_config where
  "example_client_config = \<lparr>cc_host_address = ''127.0.0.1'', cc_port = 3377, cc_max_read_bytes = 0xFFFFFFFF,
     cc_send_attempts = 0, cc_send_attempt_delay = duration_zero\<rparr>"

definition example_client_timeout :: client_timeout where
  "example_client_timeout = \<lparr>ct_handshake_timeout = seconds 5, ct_send_timeout = seconds 1,
     ct_response_timeout = seconds 1\<rparr>"

section \<open>The handlers\<close>

definition echo_handler :: "'h bound_handler" where
  "echo_handler v = [Ctx_response (cv_data v)]"

definition send_handler :: "'h bound_handler" where
  "send_handler v = []"

text \<open>
  The two broadcasting handlers append a zero byte to the response, which is empty when a handler is
  called; what they do to the server is in \<open>advanced_effects\<close>.
\<close>

definition acknowledge_handler :: "'h bound_handler" where
  "acknowledge_handler v = [Ctx_response [0]]"

definition shutdown_handler :: "'h bound_handler" where
  "shutdown_handler v = []"

text \<open>\<^verbatim>\<open>std::to_string\<close> of a session id.\<close>

fun to_string :: "nat \<Rightarrow> string" where
  "to_string n = (if n < 10 then [char_of (48 + n)] else to_string (n div 10) @ [char_of (48 + n mod 10)])"

declare to_string.simps [simp del]

definition text_bytes :: "string \<Rightarrow> u8 list" where
  "text_bytes s = map of_char s"

definition broadcast_all_message :: "'h context_view \<Rightarrow> u8 list" where
  "broadcast_all_message v =
     text_bytes (''client '' @ to_string (unat (cv_id v)) @ '' writes: '') @ cv_data v"

definition broadcast_single_message :: "'h context_view \<Rightarrow> u8 list" where
  "broadcast_single_message v =
     text_bytes (''client '' @ to_string (unat (cv_id v)) @ '' write:'' @ [CHR 0x0A]) @ cv_data v"

datatype example_effect = Ex_broadcast u32 "u8 list" "u64 list option" | Ex_stop

definition advanced_effects :: "u32 \<Rightarrow> 'h context_view \<Rightarrow> example_effect list" where
  "advanced_effects cid v =
     (if cid = command_id MY_RPC_BROADCAST_ALL
      then [Ex_broadcast (command_id MY_RPC_LISTEN_BROADCAST) (broadcast_all_message v) None]
      else if cid = command_id MY_RPC_BROADCAST_SINGLE
      then [Ex_broadcast (command_id MY_RPC_LISTEN_BROADCAST) (broadcast_single_message v) (Some [cv_id v])]
      else if cid = command_id MY_RPC_SERVER_SHUTDOWN then [Ex_stop]
      else [])"

text \<open>\<^verbatim>\<open>stop()\<close> is called on a thread of the io context here, where it only stops the context.\<close>

fun apply_effect :: "example_effect \<Rightarrow> ('b, 'h) server \<Rightarrow> ('b, 'h) server" where
  "apply_effect (Ex_broadcast cid bs None) s = server_broadcast cid bs s"
| "apply_effect (Ex_broadcast cid bs (Some is)) s = server_broadcast_to cid bs is s"
| "apply_effect Ex_stop s = stop_begin s"

section \<open>Accepting\<close>

definition advanced_on_listen :: "string \<Rightarrow> bool" where
  "advanced_on_listen remote_host = True"

text \<open>
  \<^verbatim>\<open>find\<close> of the library looks for a name without regard to case and returns the first field of
  that name. \<open>ua\<close> is the library's text of \<^verbatim>\<open>field::user_agent\<close>.
\<close>

definition lower_char :: "char \<Rightarrow> char" where
  "lower_char c = (let n = (of_char c :: nat) in if 65 \<le> n \<and> n \<le> 90 then char_of (n + 32) else c)"

definition find_name :: "'h http_fields \<Rightarrow> string \<Rightarrow> 'h \<Rightarrow> http_field option" where
  "find_name H name h = List.find (\<lambda>f. map lower_char (fld_name_string f) = map lower_char name) (hd_fields H h)"

definition find_field :: "'h http_fields \<Rightarrow> nat \<Rightarrow> 'h \<Rightarrow> http_field option" where
  "find_field H n h = List.find (\<lambda>f. fld_name f = n) (hd_fields H h)"

definition expected_key :: string where
  "expected_key = ''xxxxxxxxxx''"

definition advanced_on_accept ::
  "'h http_fields \<Rightarrow> string \<Rightarrow> 'h session_info \<Rightarrow> bool \<times> session_config \<times> 'h" where
  "advanced_on_accept H ua info =
     (let rejected = (False, si_config info, si_response_handshake info)
      in case find_field H (hd_field_of H ua) (si_request_handshake info) of
           None \<Rightarrow> rejected
         | Some agent \<Rightarrow>
             (case find_name H ''key'' (si_request_handshake info) of
                None \<Rightarrow> rejected
              | Some key \<Rightarrow>
                  if fld_value key \<noteq> expected_key then rejected
                  else (True, (si_config info)\<lparr>sg_ping_delay := seconds 30, sg_max_transfer_bytes := 0xFFFF\<rparr>,
                        hd_insert H ''user-level'' ''1''
                          (hd_insert H ua ''radrpc-server'' (si_response_handshake info)))))"

section \<open>The servers\<close>

text \<open>A sequence of calls of \<^verbatim>\<open>bind\<close> whose results are not looked at; an exception ends the program.\<close>

fun bind_all :: "(u32 \<times> 'h bound_handler) list \<Rightarrow> ('b, 'h) server \<Rightarrow> server_error + ('b, 'h) server" where
  "bind_all [] s = Inr s"
| "bind_all ((k, h) # bs) s =
     (case server_bind k (Some h) s of Inl er \<Rightarrow> Inl er | Inr (ok, t) \<Rightarrow> bind_all bs t)"

text \<open>The program up to \<^verbatim>\<open>start()\<close>; \<open>ec1\<close> to \<open>ec4\<close> are the results of opening the acceptor.\<close>

definition basic_server ::
  "(string \<Rightarrow> bool) \<Rightarrow> error_code \<Rightarrow> error_code \<Rightarrow> error_code \<Rightarrow> error_code \<Rightarrow> server_error + ('b, 'h) server" where
  "basic_server parses ec1 ec2 ec3 ec4 =
     (case server_new parses False basic_server_config example_server_timeout example_session_config ec1 ec2 ec3 ec4 of
        Inl er \<Rightarrow> Inl er
      | Inr s \<Rightarrow> bind_all [(basic_echo_id, echo_handler)] s)"

text \<open>
  The whole program: \<open>io\<close> is what happens until \<^verbatim>\<open>start()\<close> returns, \<open>io'\<close> while \<^verbatim>\<open>stop()\<close> waits.
\<close>

definition basic_server_main ::
  "(('b, 'h) server \<Rightarrow> ('b, 'h) server) \<Rightarrow> (('b, 'h) server \<Rightarrow> ('b, 'h) server) \<Rightarrow> ('b, 'h) server \<Rightarrow>
   ('b, 'h) server option" where
  "basic_server_main io io' s = server_stop False io' (io (server_start s))"

text \<open>The TLS server gives up when the library refuses one of the four parts of its context.\<close>

definition ssl_server ::
  "error_code list \<Rightarrow> (string \<Rightarrow> bool) \<Rightarrow> error_code \<Rightarrow> error_code \<Rightarrow> error_code \<Rightarrow> error_code \<Rightarrow>
   (server_error + ('b, 'h) server) option" where
  "ssl_server context_ecs parses ec1 ec2 ec3 ec4 =
     (if list_ex failed (take 4 context_ecs) then None
      else Some (case server_new parses True ssl_server_config example_server_timeout example_session_config
                        ec1 ec2 ec3 ec4 of
                   Inl er \<Rightarrow> Inl er
                 | Inr s \<Rightarrow> bind_all [(basic_echo_id, echo_handler)] s))"

definition advanced_bindings :: "(u32 \<times> 'h bound_handler) list" where
  "advanced_bindings =
     [(command_id MY_RPC_SEND, send_handler), (command_id MY_RPC_ECHO_MSG, echo_handler),
      (command_id MY_RPC_BROADCAST_ALL, acknowledge_handler),
      (command_id MY_RPC_BROADCAST_SINGLE, acknowledge_handler),
      (command_id MY_RPC_SERVER_SHUTDOWN, shutdown_handler)]"

definition advanced_server ::
  "'h http_fields \<Rightarrow> string \<Rightarrow> (string \<Rightarrow> bool) \<Rightarrow> error_code \<Rightarrow> error_code \<Rightarrow> error_code \<Rightarrow> error_code \<Rightarrow>
   server_error + ('b, 'h) server" where
  "advanced_server H ua parses ec1 ec2 ec3 ec4 =
     (case server_new parses False advanced_server_config example_server_timeout example_session_config ec1 ec2 ec3 ec4 of
        Inl er \<Rightarrow> Inl er
      | Inr s0 \<Rightarrow>
          (let s1 = snd (server_bind_listen (Some advanced_on_listen) s0);
               s2 = snd (server_bind_accept (Some (advanced_on_accept H ua)) s1);
               s3 = snd (server_bind_disconnect True s2)
           in case bind_all advanced_bindings s3 of
                Inl er \<Rightarrow> Inl er
              | Inr s4 \<Rightarrow> Inr (server_async_start True s4)))"

text \<open>One round of the thread \<^verbatim>\<open>broadcast_worker\<close>.\<close>

definition advanced_broadcast_round :: "('b, 'h) server \<Rightarrow> ('b, 'h) server" where
  "advanced_broadcast_round s =
     server_broadcast (command_id MY_RPC_LISTEN_BROADCAST) (text_bytes ''radrpc got a broadcast function'') s"

text \<open>
  A frame that arrives at session \<open>k\<close> of the advanced server. A handler calls \<^verbatim>\<open>broadcast\<close> and \<^verbatim>\<open>stop\<close>
  while it runs; both only post to sessions or to the io context, and the rest of the handler of the
  frame reads nothing of that, so they are done first.
\<close>

definition advanced_receive ::
  "'b flat_buffer \<Rightarrow> 'h http_fields \<Rightarrow> endian \<Rightarrow> nat \<Rightarrow> time_point \<Rightarrow> 'b \<Rightarrow> ('b, 'h) server \<Rightarrow> ('b, 'h) server" where
  "advanced_receive B H e k now b s =
     (case map_of (pl_sessions (server_pool s)) k of
        None \<Rightarrow> s
      | Some ss \<Rightarrow>
          (let funcs = map_of (sm_bound_funcs (pl_manager (server_pool s)));
               calls = (if server_stopped ss then [] else frame_calls B e (is_bound funcs) b);
               s1 = fold apply_effect (concat (map (\<lambda>(cid, body). advanced_effects cid (handler_view body ss)) calls)) s
           in set_pool (pool_exec B H e (Pl_session k (Sv_read now No_error b)) (server_pool s1)) s1))"

section \<open>The clients\<close>

definition basic_client :: "'h http_fields \<Rightarrow> ('b, 'h) client" where
  "basic_client H = client_new H False example_client_config example_client_timeout"

definition ssl_client :: "error_code \<Rightarrow> 'h http_fields \<Rightarrow> ('b, 'h) client option" where
  "ssl_client ec H =
     (if failed ec then None else Some (client_new H True example_client_config example_client_timeout))"

definition ssl_on_verify_certificate :: "bool \<Rightarrow> bool" where
  "ssl_on_verify_certificate preverified = preverified"

text \<open>
  The basic client and the TLS client: connect, send the message and print the response when it is not
  empty, disconnect. \<open>E0\<close>, \<open>E\<close> and \<open>E1\<close> are the environments of the three calls.
\<close>

definition echo_client_call ::
  "'b flat_buffer \<Rightarrow> ('b, 'h) client_env \<Rightarrow> (nat \<Rightarrow> ('b, 'h) client_env) \<Rightarrow> u64 \<Rightarrow> u64 \<Rightarrow> tls \<Rightarrow> ('b, 'h) client \<Rightarrow>
   (('b, 'h) client, u8 list option) outcome" where
  "echo_client_call B E0 E ptr n t c =
     bind_outcome (client_connect B E0 c) (\<lambda>_ c1.
     bind_outcome (client_send_recv B E basic_echo_id ptr n t c1) (\<lambda>(b, t1) c2.
       Returned (if receive_buffer_empty B b then None else Some (receive_buffer_data B b)) c2))"

definition echo_client_main ::
  "'b flat_buffer \<Rightarrow> ('b, 'h) client_env \<Rightarrow> (nat \<Rightarrow> ('b, 'h) client_env) \<Rightarrow> ('b, 'h) client_env \<Rightarrow> u64 \<Rightarrow> u64 \<Rightarrow> tls \<Rightarrow>
   ('b, 'h) client \<Rightarrow> (('b, 'h) client, u8 list option) outcome" where
  "echo_client_main B E0 E E1 ptr n t c =
     bind_outcome (echo_client_call B E0 E ptr n t c) (\<lambda>printed c1.
     bind_outcome (client_disconnect E1 c1) (\<lambda>_ c2. Returned printed c2))"

definition advanced_request :: "'h http_fields \<Rightarrow> string \<Rightarrow> 'h" where
  "advanced_request H ua =
     hd_insert H ''key'' expected_key (hd_insert H ua ''radrpc-client'' (hd_new H))"

text \<open>The client up to \<^verbatim>\<open>connect()\<close>; its broadcast handler only prints.\<close>

definition advanced_client :: "'h http_fields \<Rightarrow> string \<Rightarrow> (('b, 'h) client, unit) outcome" where
  "advanced_client H ua =
     bind_outcome (listen_broadcast (command_id MY_RPC_LISTEN_BROADCAST) (Some (\<lambda>b. b))
        (client_new H False example_client_config example_client_timeout))
       (\<lambda>_ c. Returned () (set_handshake_request (advanced_request H ua) c))"

text \<open>
  The calls the advanced client makes, in order: \<open>Ex_send\<close> is \<^verbatim>\<open>send\<close> and \<open>Ex_call\<close> is \<^verbatim>\<open>send_recv\<close>. The
  fourth is announced as a broadcast to a single client.
\<close>

datatype example_call = Ex_send u32 | Ex_call u32

definition advanced_client_calls :: "example_call list" where
  "advanced_client_calls =
     [Ex_send (command_id MY_RPC_SEND), Ex_call (command_id MY_RPC_ECHO_MSG),
      Ex_call (command_id MY_RPC_BROADCAST_ALL), Ex_call (command_id MY_RPC_BROADCAST_ALL),
      Ex_send (command_id MY_RPC_SERVER_SHUTDOWN)]"

text \<open>
  The results the program tests: whether \<^verbatim>\<open>send\<close> succeeded, whether a response is not empty. Each call has
  an environment and the memory of a message of its own.
\<close>

fun run_calls ::
  "'b flat_buffer \<Rightarrow> (nat \<Rightarrow> nat \<Rightarrow> ('b, 'h) client_env) \<Rightarrow> nat \<Rightarrow> example_call list \<Rightarrow> (u64 \<times> u64) list \<Rightarrow> tls \<Rightarrow>
   ('b, 'h) client \<Rightarrow> (('b, 'h) client, bool list) outcome" where
  "run_calls B E i (Ex_send k # cs) ((ptr, n) # ms) t c =
     bind_outcome (client_send B (E i) k ptr n t c) (\<lambda>(ok, t1) c1.
     bind_outcome (run_calls B E (Suc i) cs ms t1 c1) (\<lambda>oks c2. Returned (ok # oks) c2))"
| "run_calls B E i (Ex_call k # cs) ((ptr, n) # ms) t c =
     bind_outcome (client_send_recv B (E i) k ptr n t c) (\<lambda>(b, t1) c1.
     bind_outcome (run_calls B E (Suc i) cs ms t1 c1) (\<lambda>oks c2. Returned (receive_buffer_bool B b # oks) c2))"
| "run_calls B E i _ _ t c = Returned [] c"

definition advanced_client_main ::
  "'b flat_buffer \<Rightarrow> ('b, 'h) client_env \<Rightarrow> (nat \<Rightarrow> nat \<Rightarrow> ('b, 'h) client_env) \<Rightarrow> (u64 \<times> u64) list \<Rightarrow> tls \<Rightarrow>
   ('b, 'h) client \<Rightarrow> (('b, 'h) client, bool list) outcome" where
  "advanced_client_main B E0 E ms t c =
     bind_outcome (client_connect B E0 c) (\<lambda>_ c1.
       run_calls B E 0 advanced_client_calls ms
         (set_response_timeout (seconds 2) (set_send_timeout (seconds 1) t)) c1)"

section \<open>Setting up\<close>

lemma fresh_server:
  assumes "parses (sc_host_address cfg)"
  shows "\<exists>s. server_new parses ssl cfg st sg ec1 ec2 ec3 ec4 = Inr s \<and> \<not> bind_refused s \<and> server_funcs s = Map.empty \<and>
    \<not> sv_running s \<and> sv_server_cfg s = cfg"
  using assms
  by (simp add: server_new_def listener_new_def set_subtract_refs_def session_manager_new_def use_count_def listener_run_def
      handle_accept_def bind_refused_def server_connections_def connections_def manager_connections_def server_pool_def
      server_funcs_def Let_def)

text \<open>What calls on the manager leave alone.\<close>

definition same_setup :: "('b, 'h) server \<Rightarrow> ('b, 'h) server \<Rightarrow> bool" where
  "same_setup s t \<longleftrightarrow> sv_running t = sv_running s \<and> sv_server_cfg t = sv_server_cfg s \<and> bind_refused t = bind_refused s \<and>
     sm_on_accept (pl_manager (server_pool t)) = sm_on_accept (pl_manager (server_pool s)) \<and>
     sm_on_listen (pl_manager (server_pool t)) = sm_on_listen (pl_manager (server_pool s))"

lemma bind_all_result:
  assumes "\<not> bind_refused s" and "distinct (map fst bs)" and "\<forall>k \<in> fst ` set bs. server_funcs s k = None"
  shows "\<exists>t. bind_all bs s = Inr t \<and> same_setup s t \<and>
    server_funcs t = server_funcs s ++ map_of (map (\<lambda>(k, h). (k, Some h)) bs)"
  using assms
proof (induction bs arbitrary: s)
  case Nil
  then show ?case by (simp add: same_setup_def)
next
  case (Cons b bs)
  obtain k h where b: "b = (k, h)" by (cases b)
  let ?t = "set_manager ((pl_manager (server_pool s))\<lparr>sm_bound_funcs :=
      AList.update k (Some h) (sm_bound_funcs (pl_manager (server_pool s)))\<rparr>) s"
  have bind: "server_bind k (Some h) s = Inr (True, ?t)"
    using Cons.prems(1,3) by (simp add: b server_bind_def server_funcs_def Let_def)
  have funcs: "server_funcs ?t = (server_funcs s)(k \<mapsto> Some h)" by (simp add: server_funcs_def update_conv')
  have same: "same_setup s ?t" by (simp add: same_setup_def) (simp add: set_manager_def set_pool_def)
  have "\<forall>k' \<in> fst ` set bs. server_funcs ?t k' = None"
    using Cons.prems(2,3) unfolding funcs by (force simp: b)
  moreover have "\<not> bind_refused ?t" "distinct (map fst bs)" using Cons.prems(1,2) by (simp_all add: b)
  ultimately obtain t where t: "bind_all bs ?t = Inr t" "same_setup ?t t"
    "server_funcs t = server_funcs ?t ++ map_of (map (\<lambda>(k, h). (k, Some h)) bs)"
    using Cons.IH [of ?t] by (elim exE conjE meta_impE) 
  have "k \<notin> dom (map_of (map (\<lambda>(k, h). (k, Some h)) bs))"
    using Cons.prems(2) by (simp add: b dom_map_of_conv_image_fst image_comp comp_def split_def)
  with t(3) funcs have "server_funcs t = server_funcs s ++ map_of (map (\<lambda>(k, h). (k, Some h)) (b # bs))"
    by (simp add: b map_add_upd_left)
  moreover have "bind_all (b # bs) s = Inr t" using t(1) bind by (simp add: b)
  moreover have "same_setup s t" using t(2) same unfolding same_setup_def by metis
  ultimately show ?case by blast
qed

lemma bind_hooks:
  assumes "\<not> bind_refused s"
  shows "\<not> bind_refused (snd (server_bind_listen f s))" "\<not> bind_refused (snd (server_bind_accept g s))"
    "\<not> bind_refused (snd (server_bind_disconnect d s))"
    "server_funcs (snd (server_bind_listen f s)) = server_funcs s" "server_funcs (snd (server_bind_accept g s)) = server_funcs s"
    "server_funcs (snd (server_bind_disconnect d s)) = server_funcs s"
    "sv_server_cfg (snd (server_bind_listen f s)) = sv_server_cfg s" "sv_server_cfg (snd (server_bind_accept g s)) = sv_server_cfg s"
    "sv_server_cfg (snd (server_bind_disconnect d s)) = sv_server_cfg s"
    "sm_on_listen (pl_manager (server_pool (snd (server_bind_listen f s)))) = f"
    "sm_on_listen (pl_manager (server_pool (snd (server_bind_accept g s)))) = sm_on_listen (pl_manager (server_pool s))"
    "sm_on_listen (pl_manager (server_pool (snd (server_bind_disconnect d s)))) = sm_on_listen (pl_manager (server_pool s))"
    "sm_on_accept (pl_manager (server_pool (snd (server_bind_accept g s)))) = g"
    "sm_on_accept (pl_manager (server_pool (snd (server_bind_disconnect d s)))) = sm_on_accept (pl_manager (server_pool s))"
  using assms
  by (simp_all add: server_bind_listen_def server_bind_accept_def server_bind_disconnect_def set_manager_def set_pool_def
      server_pool_def server_funcs_def bind_refused_def server_connections_def connections_def use_count_def
      manager_connections_def)

text \<open>The advanced server sets itself up completely: every \<^verbatim>\<open>bind\<close> succeeds, so that exactly the five
  ids have handlers and the handlers for connections are its own, and it starts its three
  workers; after that no \<^verbatim>\<open>bind\<close> succeeds any more.\<close>

theorem advanced_server_setup:
  fixes H :: "'h http_fields"
  assumes "parses ''0.0.0.0''"
  shows "\<exists>s :: ('b, 'h) server. advanced_server H ua parses ec1 ec2 ec3 ec4 = Inr s \<and>
    server_funcs s = map_of (map (\<lambda>(k, h). (k, Some h)) advanced_bindings) \<and>
    sm_on_accept (pl_manager (server_pool s)) = Some (advanced_on_accept H ua) \<and>
    sm_on_listen (pl_manager (server_pool s)) = Some advanced_on_listen \<and>
    length (sv_workers s) = 3 \<and> sv_running s \<and> server_bind k h s = Inr (False, s)"
proof -
  have "sc_host_address advanced_server_config = ''0.0.0.0''"
    by (simp add: advanced_server_config_def basic_server_config_def)
  then have "\<exists>s0 :: ('b, 'h) server. server_new parses False advanced_server_config example_server_timeout
      example_session_config ec1 ec2 ec3 ec4 = Inr s0 \<and> \<not> bind_refused s0 \<and> server_funcs s0 = Map.empty \<and>
      \<not> sv_running s0 \<and> sv_server_cfg s0 = advanced_server_config"
    using assms by (intro fresh_server) simp
  then obtain s0 :: "('b, 'h) server" where s0: "server_new parses False advanced_server_config example_server_timeout
      example_session_config ec1 ec2 ec3 ec4 = Inr s0" "\<not> bind_refused s0" "server_funcs s0 = Map.empty"
      "sv_server_cfg s0 = advanced_server_config" by blast
  let ?s1 = "snd (server_bind_listen (Some advanced_on_listen) s0)"
  let ?s2 = "snd (server_bind_accept (Some (advanced_on_accept H ua)) ?s1)"
  let ?s3 = "snd (server_bind_disconnect True ?s2)"
  note h1 = bind_hooks [OF s0(2)]
  note h2 = bind_hooks [OF h1(1)]
  note h3 = bind_hooks [OF h2(2)]
  have s3: "\<not> bind_refused ?s3" "server_funcs ?s3 = Map.empty" by (rule h3(3)) (simp only: h3(6) h2(5) h1(4) s0(3))
  have "distinct (map fst (advanced_bindings :: (u32 \<times> 'h bound_handler) list))" by (simp add: advanced_bindings_def)
  from bind_all_result [OF s3(1) this] obtain s4 where s4: "bind_all advanced_bindings ?s3 = Inr s4" "same_setup ?s3 s4"
    "server_funcs s4 = map_of (map (\<lambda>(k, h). (k, Some h)) advanced_bindings)"
    by (auto simp: s3(2))
  have "server_funcs (server_async_start True s4) = server_funcs s4"
    "pl_manager (server_pool (server_async_start True s4)) = pl_manager (server_pool s4)"
    by (simp_all add: server_async_start_def server_funcs_def) (simp_all add: server_pool_def)
  moreover have "\<not> sv_running s4" using s4(2) h3(3) by (simp add: same_setup_def bind_refused_def)
  then have "length (sv_workers (server_async_start True s4)) = 3" "sv_running (server_async_start True s4)"
    using s4(2) h3(9) h2(8) h1(7) s0(4)
    by (simp_all add: server_async_start_def run_async_workers_def worker_count_def same_setup_def
        advanced_server_config_def Let_def)
  ultimately show ?thesis
    using s4 h3 h2 h1
    by (simp add: advanced_server_def s0(1) Let_def same_setup_def server_bind_def bind_refused_def [of "server_async_start True s4"])
qed

theorem advanced_server_setup_witness:
  "\<exists>s :: (u8 list, (string \<times> string) list) server.
     advanced_server list_http ''xx'' (\<lambda>_. True) No_error No_error No_error No_error = Inr s \<and> sv_running s"
  using advanced_server_setup [of "\<lambda>_. True" list_http "''xx''" No_error No_error No_error No_error] by blast

section \<open>The handshake\<close>

text \<open>
  What the library documents of \<^verbatim>\<open>insert\<close> for a standard name, and that new fields are empty.
\<close>

definition field_insert_laws :: "'h http_fields \<Rightarrow> bool" where
  "field_insert_laws H \<longleftrightarrow> hd_fields H (hd_new H) = [] \<and>
     (\<forall>s v h. hd_field_of H s \<noteq> 0 \<longrightarrow>
        known_values H (hd_field_of H s) (hd_insert H s v h) = known_values H (hd_field_of H s) h @ [v] \<and>
        (\<forall>name. custom_values H name (hd_insert H s v h) = custom_values H name h))"

lemma advanced_request_values:
  assumes laws: "http_fields_laws H" "field_insert_laws H" and ua: "hd_field_of H ua \<noteq> 0" and key: "hd_field_of H ''key'' = 0"
  shows "known_values H (hd_field_of H ua) (advanced_request H ua) = [''radrpc-client'']"
    "custom_values H name (advanced_request H ua) = (if name = ''key'' then [expected_key] else [])"
proof -
  have new: "known_values H m (hd_new H) = []" "custom_values H name (hd_new H) = []" for m name
    using laws(2) by (simp_all add: field_insert_laws_def known_values_def custom_values_def)
  have agent: "known_values H (hd_field_of H ua) (hd_insert H ua ''radrpc-client'' (hd_new H)) = [''radrpc-client'']"
    "custom_values H name (hd_insert H ua ''radrpc-client'' (hd_new H)) = []" for name
    using laws(2) ua new unfolding field_insert_laws_def by simp_all
  from laws(1) have
    "\<forall>s v h m. hd_field_of H s = 0 \<longrightarrow> m \<noteq> 0 \<longrightarrow> known_values H m (hd_insert H s v h) = known_values H m h"
    "\<forall>s v h name. hd_field_of H s = 0 \<longrightarrow> custom_values H name (hd_insert H s v h) =
        (if name = s then custom_values H name h @ [v] else custom_values H name h)"
    unfolding http_fields_laws_def by blast+
  with agent ua key show "known_values H (hd_field_of H ua) (advanced_request H ua) = [''radrpc-client'']"
    "custom_values H name (advanced_request H ua) = (if name = ''key'' then [expected_key] else [])"
    by (simp_all add: advanced_request_def)
qed

lemma find_exists: "x \<in> set xs \<Longrightarrow> P x \<Longrightarrow> \<exists>y. List.find P xs = Some y \<and> y \<in> set xs \<and> P y"
  by (induction xs) auto

lemma find_field_known:
  assumes "known_values H n h \<noteq> []"
  shows "\<exists>f. find_field H n h = Some f"
proof -
  from assms obtain f where "f \<in> set (hd_fields H h)" "fld_name f = n"
    by (auto simp: known_values_def filter_empty_conv)
  with find_exists [of f "hd_fields H h" "\<lambda>f. fld_name f = n"] show ?thesis by (auto simp: find_field_def)
qed

lemma find_name_custom:
  assumes laws: "http_fields_laws H" and std: "\<And>s. map lower_char s = map lower_char name \<Longrightarrow> hd_field_of H s = 0"
    and one: "\<And>s. map lower_char s = map lower_char name \<Longrightarrow> custom_values H s h = (if s = name then [v] else [])"
  shows "\<exists>f. find_name H name h = Some f \<and> fld_value f = v"
proof -
  have only: "fld_value f = v"
    if "f \<in> set (hd_fields H h)" "map lower_char (fld_name_string f) = map lower_char name" for f
  proof -
    have "fld_name f = 0" using laws that std by (simp add: http_fields_laws_def)
    then have "fld_value f \<in> set (custom_values H (fld_name_string f) h)"
      using that(1) by (auto simp: custom_values_def)
    with one [OF that(2)] show ?thesis by (auto split: if_splits)
  qed
  have "custom_values H name h \<noteq> []" using one [of name] by simp
  then obtain f where "f \<in> set (hd_fields H h)" "fld_name_string f = name"
    by (auto simp: custom_values_def filter_empty_conv)
  with find_exists [of f "hd_fields H h" "\<lambda>f. map lower_char (fld_name_string f) = map lower_char name"] only
  show ?thesis by (auto simp: find_name_def)
qed

lemma custom_values_missing:
  "(\<And>f. f \<in> set (hd_fields H h) \<Longrightarrow> fld_name_string f \<noteq> name) \<Longrightarrow> custom_values H name h = []"
  by (auto simp: custom_values_def filter_empty_conv)

lemma find_name_missing:
  "\<forall>f \<in> set (hd_fields H h). map lower_char (fld_name_string f) \<noteq> map lower_char name \<Longrightarrow> find_name H name h = None"
  by (simp add: find_name_def find_None_iff)

text \<open>
  The text \<open>key\<close> is no standard name, however it is written, \<open>ua\<close> is one, and the handshake of the library
  itself (\<open>msg\<close>) has no field of the name \<open>key\<close>.
\<close>

definition advanced_names :: "'h http_fields \<Rightarrow> string \<Rightarrow> 'h \<Rightarrow> bool" where
  "advanced_names H ua msg \<longleftrightarrow> http_fields_laws H \<and> field_insert_laws H \<and> hd_field_of H ua \<noteq> 0 \<and>
     (\<forall>s. map lower_char s = map lower_char ''key'' \<longrightarrow> hd_field_of H s = 0) \<and>
     (\<forall>f \<in> set (hd_fields H msg). map lower_char (fld_name_string f) \<noteq> map lower_char ''key'')"

lemma advanced_accepts:
  assumes names: "advanced_names H ua msg"
    and req: "si_request_handshake info = request_decorator H (advanced_request H ua) msg"
  shows "advanced_on_accept H ua info =
    (True, (si_config info)\<lparr>sg_ping_delay := seconds 30, sg_max_transfer_bytes := 0xFFFF\<rparr>,
     hd_insert H ''user-level'' ''1'' (hd_insert H ua ''radrpc-server'' (si_response_handshake info)))"
proof -
  from names have laws: "http_fields_laws H" "field_insert_laws H" and ua: "hd_field_of H ua \<noteq> 0"
    and std: "\<And>s. map lower_char s = map lower_char ''key'' \<Longrightarrow> hd_field_of H s = 0"
    and msg: "\<And>f. f \<in> set (hd_fields H msg) \<Longrightarrow> map lower_char (fld_name_string f) \<noteq> map lower_char ''key''"
    by (auto simp: advanced_names_def)
  note vals = advanced_request_values [OF laws ua std [OF refl]]
  note fields = decorate_fold_values [OF laws(1) order_refl [of "set (hd_fields H (advanced_request H ua))"]]
  have "known_values H (hd_field_of H ua) (si_request_handshake info) = [''radrpc-client'']"
    using fields(1) [OF ua, of msg] vals(1) by (auto simp: req request_decorator_def known_values_def Let_def)
  then obtain agent where agent: "find_field H (hd_field_of H ua) (si_request_handshake info) = Some agent"
    using find_field_known by (metis list.distinct(1))
  have "custom_values H name msg = []" if "map lower_char name = map lower_char ''key''" for name
    using msg that by (intro custom_values_missing) metis
  then have "custom_values H name (si_request_handshake info) = (if name = ''key'' then [expected_key] else [])"
    if "map lower_char name = map lower_char ''key''" for name
    using fields(2) [of name msg] vals(2) [of name] that by (simp add: req request_decorator_def custom_values_def)
  from find_name_custom [OF laws(1) std this] obtain key where
    "find_name H ''key'' (si_request_handshake info) = Some key" "fld_value key = expected_key" by blast
  with agent show ?thesis by (simp add: advanced_on_accept_def)
qed

text \<open>C34: the advanced client gets into the advanced server and other clients do not. When the server has read the
  handshake the advanced client sends, with the fields of the library and its own, the session is accepted with
  the limits the server sets for it (messages of up to 65535 bytes after the header, a ping every
  30 seconds); when it has read the handshake of a client that sets no fields, like the basic one, it
  starts no further operation, so that the session ends.\<close>

theorem advanced_handshake_accepted:
  fixes B :: "'b flat_buffer" and s :: "('b, 'h) session_accept"
  assumes names: "advanced_names H ua msg" and server: "sm_on_accept m = Some (advanced_on_accept H ua)"
    and read: "fb_size B (sa_handshake_buffer s) = 0"
  defines "s1 \<equiv> accept_on_read_handshake B m No_error
      (s\<lparr>cx_req_handshake := request_decorator H (advanced_request H ua) msg\<rparr>)"
    and "s2 \<equiv> accept_on_read_handshake B m No_error (s\<lparr>cx_req_handshake := request_decorator H (hd_new H) msg\<rparr>)"
  shows "sa_ops s1 = sa_ops s @ [Ac_accept] \<and> sa_read_message_max s1 = Some (0xFFFF + of_nat sizeof_io_header) \<and>
    sg_ping_delay (cx_config s1) = seconds 30 \<and> sa_ops s2 = sa_ops s"
proof -
  have "find_name H ''key'' (request_decorator H (hd_new H) msg) = None"
    using names by (intro find_name_missing) (simp add: advanced_names_def field_insert_laws_def request_decorator_def)
  then have "advanced_on_accept H ua info = (False, si_config info, si_response_handshake info)"
    if "si_request_handshake info = request_decorator H (hd_new H) msg" for info
    using that by (simp add: advanced_on_accept_def Let_def split: option.split)
  then have "sa_ops s2 = sa_ops s"
    using server read by (simp add: s2_def accept_on_read_handshake_def session_info_of_def Let_def)
  then show ?thesis
    using server read advanced_accepts [OF names]
    by (simp add: s1_def accept_on_read_handshake_def accept_configure_def session_info_of_def Let_def)
qed

lemma list_http_names: "advanced_names list_http ''xx'' [(''host'', ''127.0.0.1'')]"
proof -
  have "field_insert_laws list_http"
    by (auto simp: field_insert_laws_def list_http_def known_values_def custom_values_def)
  moreover have "lower_char CHR ''x'' \<noteq> lower_char CHR ''k''" by (simp add: lower_char_def)
  then have "list_field_of s = 0" if "map lower_char s = map lower_char ''key''" for s
    using that by (auto simp: list_field_of_def map_eq_Cons_conv)
  moreover have "list_field_of ''xx'' \<noteq> 0" by (simp add: list_field_of_def)
  ultimately show ?thesis
    by (simp add: advanced_names_def http_fields_laws_list_http) (simp add: list_http_def)
qed

theorem advanced_handshake_accepted_witness:
  "sa_ops (accept_on_read_handshake byte_buffer
      ((session_manager_new server_config_default)\<lparr>sm_on_accept := Some (advanced_on_accept list_http ''xx'')\<rparr>) No_error
      ((session_accept_new byte_buffer list_http False 7 ''host'' [] server_timeout_default session_config_default)
        \<lparr>cx_req_handshake := request_decorator list_http (advanced_request list_http ''xx'') [(''host'', ''127.0.0.1'')]\<rparr>)) =
    [Ac_accept]"
proof -
  let ?s = "session_accept_new byte_buffer list_http False 7 ''host'' [] server_timeout_default session_config_default"
  let ?m = "(session_manager_new server_config_default)\<lparr>sm_on_accept := Some (advanced_on_accept list_http ''xx'')\<rparr>"
  have "sm_on_accept ?m = Some (advanced_on_accept list_http ''xx'')" "fb_size byte_buffer (sa_handshake_buffer ?s) = 0"
    "sa_ops ?s = []"
    by (simp_all add: session_accept_new_def server_session_new_def server_session.extend_def session_accept.fields_def)
  with advanced_handshake_accepted [OF list_http_names, of ?m byte_buffer ?s] show ?thesis by simp
qed

section \<open>The echo\<close>

lemma connect_succeeds:
  assumes "ci_expired c" "\<not> ci_exit c" "\<not> ci_io_worker c" "ce_run E = drive [No_error, No_error, No_error, No_error]"
  shows "\<exists>c' sn. client_connect B E c = Returned True c' \<and> ci_session c' = Some sn \<and>
    sn_session sn = client_read (client_session_new B (ci_client_timeout c)) \<and> \<not> ci_exit c' \<and>
    ci_client_cfg c' = ci_client_cfg c \<and> ci_bound_funcs c' = ci_bound_funcs c"
  using assms
  by (cases "ci_ssl c") (simp_all add: client_connect_def construct_session_def Let_def session_connect_new_def
      connect_run_def run_refused_def run_start_def connect_done_def connect_defs put_session_def session_held_def client_read_def)

lemma fresh_session:
  fixes B :: "'b flat_buffer" and ct :: client_timeout
  defines "s \<equiv> client_read (client_session_new B ct)"
  shows "client_idle e s" "so_reads (cs_stream s) \<noteq> 0" "ids_bounded (cs_cache s)"
    "unat (dc_id_counter (cs_cache s)) < 2 ^ 64 - 1" "length (dc_entries (cs_cache s)) < dc_max_entries (cs_cache s)"
  using client_inv_new [of e B ct]
  by (simp_all add: s_def client_idle_def client_eval client_inv_def cache_inv_new ids_bounded_def data_cache_new_def
      queue_recv_max_def)

lemma echo_server_funcs:
  fixes s :: "('b, 'h) server"
  assumes host: "parses (sc_host_address cfg)"
    and s: "(case server_new parses ssl cfg example_server_timeout example_session_config ec1 ec2 ec3 ec4 of
      Inl er \<Rightarrow> Inl er | Inr s \<Rightarrow> bind_all [(basic_echo_id, echo_handler)] s) = Inr s"
  shows "map_of (sm_bound_funcs (pl_manager (server_pool s))) basic_echo_id = Some (Some echo_handler)"
proof -
  have "\<exists>s0 :: ('b, 'h) server. server_new parses ssl cfg example_server_timeout example_session_config
      ec1 ec2 ec3 ec4 = Inr s0 \<and> \<not> bind_refused s0 \<and> server_funcs s0 = Map.empty \<and> \<not> sv_running s0 \<and> sv_server_cfg s0 = cfg"
    by (rule fresh_server) (rule host)
  then obtain s0 :: "('b, 'h) server" where s0: "server_new parses ssl cfg example_server_timeout
      example_session_config ec1 ec2 ec3 ec4 = Inr s0" "\<not> bind_refused s0" "server_funcs s0 = Map.empty" by blast
  then show ?thesis
    using s bind_all_result [OF s0(2), of "[(basic_echo_id, echo_handler)]"] by (auto simp: server_funcs_def)
qed

lemma basic_server_funcs:
  assumes "basic_server parses ec1 ec2 ec3 ec4 = Inr s"
  shows "map_of (sm_bound_funcs (pl_manager (server_pool s))) basic_echo_id = Some (Some echo_handler)"
proof -
  have "parses (sc_host_address basic_server_config)"
    using assms by (auto simp: basic_server_def server_new_def split: if_splits)
  then show ?thesis by (rule echo_server_funcs) (use assms in \<open>simp add: basic_server_def\<close>)
qed

lemma ssl_server_funcs:
  assumes "ssl_server ecs parses ec1 ec2 ec3 ec4 = Some (Inr s)"
  shows "map_of (sm_bound_funcs (pl_manager (server_pool s))) basic_echo_id = Some (Some echo_handler)"
proof -
  have "parses (sc_host_address ssl_server_config)"
    using assms by (auto simp: ssl_server_def server_new_def split: if_splits)
  then show ?thesis by (rule echo_server_funcs) (use assms in \<open>simp add: ssl_server_def split: if_splits\<close>)
qed

text \<open>
  The programs that belong together: a plain client and a plain server, and a TLS client and the server that also
  accepts TLS. A session of the server has the stream of its client.
\<close>

definition echo_pair ::
  "'h http_fields \<Rightarrow> ('b, 'h) client \<Rightarrow> ('b, 'g) server \<Rightarrow> bool \<Rightarrow> bool" where
  "echo_pair H c s0 ssl \<longleftrightarrow>
     (\<exists>parses ec1 ec2 ec3 ec4. \<not> ssl \<and> c = basic_client H \<and> basic_server parses ec1 ec2 ec3 ec4 = Inr s0) \<or>
     (\<exists>ecs parses ec1 ec2 ec3 ec4. ssl \<and> ssl_client No_error H = Some c \<and> ssl_server ecs parses ec1 ec2 ec3 ec4 = Some (Inr s0))"

lemma echo_pair_funcs:
  "echo_pair H c s0 ssl \<Longrightarrow> map_of (sm_bound_funcs (pl_manager (server_pool s0))) basic_echo_id = Some (Some echo_handler)"
  by (auto simp: echo_pair_def intro: basic_server_funcs ssl_server_funcs)

text \<open>C33: the documented pairs of programs work, the basic client with the basic server and the TLS client with the
  TLS server (the contexts of both having been built). The client, started afresh, connects with its first attempt; the message it
  sends, if it is not empty, is received by a session that the server, set up as its program does, has with it and that is idle;
  when the client receives what the session wrote, it prints exactly the message.\<close>

theorem echo_example_prints_message:
  fixes B :: "'b flat_buffer" and p :: "('b, 'g) accept_pool" and c :: "('b, 'h) client"
  assumes laws: "flat_buffer_laws B" and c: "echo_pair H c (s0 :: ('b, 'g) server) (sa_ssl ss)"
    and connecting: "ce_run E0 = drive [No_error, No_error, No_error, No_error]"
    and message: "mem ptr n \<noteq> []"
    and server: "sm_bound_funcs (pl_manager p) = sm_bound_funcs (pl_manager (server_pool s0))"
      "map_of (pl_sessions p) j = Some ss" "server_ready ss"
    and queued: "data_cache_queue B (ce_now (E 0)) (seconds 1 * 2) (data_cache_new queue_recv_max) = (rid, cache)"
      "post_send basic_echo_id rid ptr n ((client_read (client_session_new B example_client_timeout))\<lparr>cs_cache := cache\<rparr>) =
         (promise, posted)"
    and request: "\<And>c. ce_before (E 0) c = c" "ce_io (E 0) = (\<lambda>_. client_run B e [Ev_posted, Ev_wrote No_error])"
      "fb_bytes B req = client_frame mem
         (last (so_started (cs_stream (client_run B e [Ev_posted, Ev_wrote No_error] posted))))"
    and answer: "map_of (pl_sessions (pool_exec B K e (Pl_session j (Sv_read now1 No_error req)) p)) j = Some ss'"
      "fb_bytes B rep = last (so_started (ss_stream ss'))"
      "ce_response (E 0) = (\<lambda>_. client_run B e [Ev_read (map_of (ci_bound_funcs c)) now2 No_error rep])"
  shows "\<exists>c'. echo_client_call B E0 E ptr n t c = Returned (Some (mem ptr n)) c'"
proof -
  have echo: "map_of (sm_bound_funcs (pl_manager p)) basic_echo_id = Some (Some echo_handler)"
    using echo_pair_funcs [OF c] server(1) by simp
  have c: "ci_expired c" "\<not> ci_exit c" "ci_client_timeout c = example_client_timeout" "ci_bound_funcs c = []"
    "unat (cc_send_attempts (ci_client_cfg c)) = Suc 0" "\<not> ci_io_worker c"
    using c by (auto simp: echo_pair_def basic_client_def ssl_client_def client_new_def example_client_config_def)
  let ?s = "client_read (client_session_new B example_client_timeout)"
  from connect_succeeds [OF c(1,2,6) connecting, of B] c(3) obtain c1 sn where
    c1: "client_connect B E0 c = Returned True c1" "ci_session c1 = Some sn" "sn_session sn = ?s" "\<not> ci_exit c1"
      "ci_client_cfg c1 = ci_client_cfg c" by auto
  have s: "cs_cache ?s = data_cache_new queue_recv_max" "cs_client_timeout ?s = example_client_timeout"
    by (simp_all add: client_read_def client_session_new_def)
  have q: "data_cache_queue B (ce_now (E 0)) (ct_response_timeout (cs_client_timeout ?s) * 2) (cs_cache ?s) = (rid, cache)"
    using queued(1) unfolding s by (simp add: example_client_timeout_def)
  let ?funcs = "map_of (sm_bound_funcs (pl_manager p))"
  have v: "Ctx_close \<notin> set (echo_handler (handler_view (mem ptr n) ss))"
      "handler_response (echo_handler (handler_view (mem ptr n) ss)) [] = mem ptr n"
    by (simp_all add: echo_handler_def handler_view_def)
  have "ss' = server_exec B e ?funcs (Sv_read now1 No_error req) ss"
    using answer(1) pool_session_exec [OF server(2), of B K e "Sv_read now1 No_error req"] by simp
  with answer(2) have rep: "fb_bytes B rep = last (so_started (ss_stream (server_exec B e ?funcs (Sv_read now1 No_error req) ss)))"
    by (simp only:)
  have unbound: "map_of (ci_bound_funcs c) basic_echo_id = None" by (simp add: c(4))
  have resp: "handler_response (echo_handler (handler_view (mem ptr n) ss)) [] \<noteq> []" using message v(2) by simp
  from session_call_answered [where cs = ?s and recv = "fb_new B" and t = t and now = "ce_now (E 0)" and ?now2.0 = now2
      and bfuncs = "map_of (ci_bound_funcs c)" and sfuncs = ?funcs and ss = ss and f = echo_handler and mem = mem and d = ptr and n = n,
      OF laws fresh_session(1,2) unbound fresh_session(3-5) server(3) echo v(1) resp queued(2) q request(3) rep]
  obtain b t' s' where "client_session_send_recv B (ce_now (E 0)) (ce_io (E 0)) (ce_response (E 0)) basic_echo_id ptr n (fb_new B) t
      (sn_session sn) = (No_error, b, t', s')" "fb_bytes B b = mem ptr n"
    unfolding request(2) answer(3) c1(3) v(2) by blast
  with first_attempt_answers [of c1 0 E sn B basic_echo_id ptr n t b t' s'] c(5) c1(2,4,5) request(1)
  show ?thesis using message by (auto simp: echo_client_call_def c1(1) receive_buffer_empty_def receive_buffer_data_def)
qed

lemma echo_pairs_exist:
  "\<exists>s :: (u8 list, (string \<times> string) list) server. echo_pair list_http
     (client_new list_http ssl example_client_config example_client_timeout :: (u8 list, (string \<times> string) list) client) s ssl"
proof -
  let ?cfg = "if ssl then ssl_server_config else basic_server_config"
  have "\<exists>s0 :: (u8 list, (string \<times> string) list) server. server_new (\<lambda>_. True) ssl ?cfg example_server_timeout
      example_session_config No_error No_error No_error No_error = Inr s0 \<and> \<not> bind_refused s0 \<and>
      server_funcs s0 = Map.empty \<and> \<not> sv_running s0 \<and> sv_server_cfg s0 = ?cfg"
    by (rule fresh_server) simp
  then obtain s0 :: "(u8 list, (string \<times> string) list) server" where s0: "server_new (\<lambda>_. True) ssl ?cfg
      example_server_timeout example_session_config No_error No_error No_error No_error = Inr s0" "\<not> bind_refused s0"
      "server_funcs s0 = Map.empty" by blast
  obtain s where s: "bind_all [(basic_echo_id, echo_handler)] s0 = Inr s"
    using bind_all_result [OF s0(2), of "[(basic_echo_id, echo_handler)]"] s0(3) by auto
  show ?thesis
  proof (cases ssl)
    case True
    then have "ssl_server (replicate 4 No_error) (\<lambda>_. True) No_error No_error No_error No_error = Some (Inr s)"
      using s0(1) s by (simp add: ssl_server_def list_ex_iff)
    moreover have "ssl_client No_error list_http =
        Some (client_new list_http ssl example_client_config example_client_timeout :: (u8 list, (string \<times> string) list) client)"
      using True by (simp add: ssl_client_def)
    ultimately show ?thesis unfolding echo_pair_def using True by blast
  next
    case False
    then have "basic_server (\<lambda>_. True) No_error No_error No_error No_error = Inr s"
      using s0(1) s by (simp add: basic_server_def)
    moreover have "(client_new list_http ssl example_client_config example_client_timeout :: (u8 list, (string \<times> string) list) client) =
        basic_client list_http"
      using False by (simp add: basic_client_def)
    ultimately show ?thesis unfolding echo_pair_def using False by blast
  qed
qed

text \<open>Both pairs, with a message of two bytes.\<close>

theorem echo_example_prints_message_witness:
  "let prints = \<lambda>c :: (u8 list, (string \<times> string) list) client.
     \<exists>c'. echo_client_call byte_buffer (drive_env [No_error, No_error, No_error, No_error])
      (\<lambda>_. idle_env\<lparr>ce_io := \<lambda>_. client_run byte_buffer Little [Ev_posted, Ev_wrote No_error],
         ce_response := \<lambda>_. client_run byte_buffer Little
           [Ev_read (map_of (ci_bound_funcs c)) 0 No_error (io_header_bytes Little (io_header_new 0 1) @ [104, 105])]\<rparr>)
      64 2 tls_new c = Returned (Some [104, 105]) c'
   in prints (basic_client list_http) \<and> prints (the (ssl_client No_error list_http))"
proof -
  let ?rep = "io_header_bytes Little (io_header_new basic_echo_id 1) @ [104, 105]"
  let ?E = "\<lambda>(c :: (u8 list, (string \<times> string) list) client) (_ :: nat). (idle_env :: (u8 list, (string \<times> string) list) client_env)
      \<lparr>ce_io := \<lambda>_. client_run byte_buffer Little [Ev_posted, Ev_wrote No_error],
      ce_response := \<lambda>_. client_run byte_buffer Little [Ev_read (map_of (ci_bound_funcs c)) 0 No_error ?rep]\<rparr>"
  let ?cs = "client_read (client_session_new byte_buffer example_client_timeout)" and ?mem = "\<lambda>_ _. [104, 105] :: u8 list"
  let ?c = "snd (data_cache_queue byte_buffer 0 (seconds 1 * 2) (data_cache_new queue_recv_max))"
  let ?p = "snd (post_send basic_echo_id 1 64 2 (?cs\<lparr>cs_cache := ?c\<rparr>))"
  have "\<exists>ss. pl_sessions (pool_run byte_buffer list_http Big demo_accept demo_start) = [(4, ss)] \<and> server_ready ss"
    by (simp add: pool_eval server_ready_def server_accepts_def duration_zero_def queue_send_max_def)
  then obtain ss0 :: "(u8 list, (string \<times> string) list) session_accept" where ss0: "server_ready ss0" by blast
  have prints: "\<exists>c'. echo_client_call byte_buffer (drive_env [No_error, No_error, No_error, No_error]) (?E c) 64 2 tls_new c =
      Returned (Some [104, 105]) c'"
    if pair: "echo_pair list_http c (s0 :: (u8 list, (string \<times> string) list) server) ssl"
    for c :: "(u8 list, (string \<times> string) list) client" and s0 ssl
  proof -
    let ?ss = "ss0\<lparr>sa_ssl := ssl\<rparr>"
    have ss: "server_ready ?ss" "sa_ssl ?ss = ssl" using ss0 by (simp_all add: server_ready_def server_accepts_def)
    let ?pool = "(server_pool s0)\<lparr>pl_sessions := [(4, ?ss)]\<rparr>"
    let ?ss' = "server_exec byte_buffer Little (map_of (sm_bound_funcs (pl_manager ?pool))) (Sv_read 0 No_error ?rep) ?ss"
    have "data_cache_queue byte_buffer 0 (seconds 1 * 2) (data_cache_new queue_recv_max) = (1, ?c)"
      by (simp add: data_cache_queue_def data_cache_new_def queue_recv_max_def Let_def)
    moreover have "post_send basic_echo_id 1 64 2 (?cs\<lparr>cs_cache := ?c\<rparr>) = (0, ?p)"
      by (simp add: post_send_def client_read_def client_session_new_def Let_def)
    moreover have "fb_bytes byte_buffer ?rep = client_frame ?mem
        (last (so_started (cs_stream (client_run byte_buffer Little [Ev_posted, Ev_wrote No_error] ?p))))"
      by (simp add: client_eval client_wire_of_def)
    moreover have "map_of (pl_sessions (pool_exec byte_buffer list_http Little (Pl_session 4 (Sv_read 0 No_error ?rep)) ?pool)) 4 = Some ?ss'"
      using pool_session_exec [of ?pool 4 ?ss byte_buffer list_http Little "Sv_read 0 No_error ?rep"] by simp
    moreover have "fb_bytes byte_buffer ?rep = last (so_started (ss_stream ?ss'))"
      using answer_written [OF flat_buffer_laws_byte_buffer ss(1), of ?rep Little "io_header_new basic_echo_id 1" "[104, 105]"
          "map_of (sm_bound_funcs (pl_manager ?pool))" echo_handler 0] echo_pair_funcs [OF pair]
      by (simp add: echo_handler_def handler_view_def io_header_new_def del: server_exec.simps)
    ultimately show ?thesis
      using echo_example_prints_message [where c = c and H = list_http and E = "?E c" and mem = ?mem and ptr = 64 and n = 2
          and p = ?pool and j = 4 and ss = ?ss and rep = ?rep and req = ?rep and e = Little and B = byte_buffer and K = list_http
          and t = tls_new and ?now1.0 = 0 and ?now2.0 = 0 and ss' = ?ss' and posted = ?p and cache = ?c and rid = 1 and promise = 0
          and ?E0.0 = "drive_env [No_error, No_error, No_error, No_error]", OF flat_buffer_laws_byte_buffer] ss pair
      by (simp add: idle_env_def del: server_exec.simps client_run.simps pool_exec.simps)
  qed
  obtain s1 s2 :: "(u8 list, (string \<times> string) list) server" where
    "echo_pair list_http (client_new list_http False example_client_config example_client_timeout ::
       (u8 list, (string \<times> string) list) client) s1 False"
    "echo_pair list_http (client_new list_http True example_client_config example_client_timeout ::
       (u8 list, (string \<times> string) list) client) s2 True"
    using echo_pairs_exist by metis
  from this [THEN prints] show ?thesis
    by (simp add: Let_def basic_client_def ssl_client_def basic_echo_id_def del: client_run.simps)
qed

section \<open>Broadcasts of the advanced server\<close>

lemma read_keeps_posted: "ss_posted (server_exec B e funcs (Sv_read now ec b) s) = ss_posted s"
  by (simp add: server_on_read_def server_read_def Let_def call_function_posted)

lemma server_pool_set [simp]: "server_pool (set_pool p s) = p"
  by (simp add: server_pool_def set_pool_def)

lemma ready_after_send: "server_ready s \<Longrightarrow> server_ready (server_session_send m s)"
  by (simp add: server_ready_def server_accepts_def server_session_send_def)

text \<open>The message a broadcasting handler sends, and whom it names.\<close>

definition example_message :: "u32 \<Rightarrow> 'h context_view \<Rightarrow> u8 list" where
  "example_message cid v =
     (if cid = command_id MY_RPC_BROADCAST_ALL then broadcast_all_message v else broadcast_single_message v)"

definition example_targets :: "u32 \<Rightarrow> 'h context_view \<Rightarrow> u64 list option" where
  "example_targets cid v = (if cid = command_id MY_RPC_BROADCAST_ALL then None else Some [cv_id v])"

lemma broadcast_command_receive:
  assumes laws: "flat_buffer_laws B" and cid: "cid \<in> {command_id MY_RPC_BROADCAST_ALL, command_id MY_RPC_BROADCAST_SINGLE}"
    and funcs: "server_funcs s = map_of (map (\<lambda>(k, h). (k, Some h)) advanced_bindings)"
    and session: "map_of (pl_sessions (server_pool s)) k = Some ss" "\<not> server_stopped ss"
    and frame: "fb_bytes B b = io_header_bytes e (io_header_new cid rid) @ body"
  shows "server_pool (advanced_receive B H e k now b s) = pool_exec B H e (Pl_session k (Sv_read now No_error b))
    (manager_broadcast (command_id MY_RPC_LISTEN_BROADCAST) (example_message cid (handler_view body ss))
      (example_targets cid (handler_view body ss)) (server_pool s))"
proof -
  have "is_bound (map_of (sm_bound_funcs (pl_manager (server_pool s)))) cid"
    using cid funcs by (auto simp: is_bound_def server_funcs_def advanced_bindings_def)
  then have "frame_calls B e (is_bound (map_of (sm_bound_funcs (pl_manager (server_pool s))))) b = [(cid, body)]"
    using frame_calls_bytes [OF laws frame] by (simp add: io_header_new_def)
  then show ?thesis
    using cid session
    by (auto simp: advanced_receive_def Let_def advanced_effects_def example_message_def example_targets_def
        server_broadcast_def server_broadcast_to_def handler_view_def simp del: pool_exec.simps)
qed

text \<open>C35: the broadcast commands of the advanced server. When an idle session receives one of them, it writes
  one zero byte back to its caller under the header of the request; \<open>MY_RPC_BROADCAST_ALL\<close>
  posts the text, with the id of the caller's session, to every established session, the caller's included, and
  \<open>MY_RPC_BROADCAST_SINGLE\<close> to the caller's session only; all other sessions are left alone.\<close>

theorem advanced_broadcast_commands:
  fixes B :: "'b flat_buffer" and s :: "('b, 'h) server" and now :: time_point
  assumes laws: "flat_buffer_laws B" and cid: "cid \<in> {command_id MY_RPC_BROADCAST_ALL, command_id MY_RPC_BROADCAST_SINGLE}"
    and server: "reachable system_start (pool_step B H e) (server_pool s)"
      "sm_msg_queued (pl_manager (server_pool s)) < int queue_send_max"
      "server_funcs s = map_of (map (\<lambda>(k, h). (k, Some h)) advanced_bindings)"
    and session: "map_of (pl_sessions (server_pool s)) k = Some ss" "sa_established ss" "server_ready ss" "\<not> server_stopped ss"
    and frame: "fb_bytes B b = io_header_bytes e (io_header_new cid rid) @ body"
  defines "m \<equiv> \<lparr>sp_msg = Some (pl_next_message (server_pool s)), sp_data =
      \<lparr>dp_header = io_header_new (command_id MY_RPC_LISTEN_BROADCAST) 0, dp_body = example_message cid (handler_view body ss)\<rparr>\<rparr>"
    and "q \<equiv> server_pool (advanced_receive B H e k now b s)"
  shows "(\<exists>ss'. map_of (pl_sessions q) k = Some ss' \<and> ss_posted ss' = ss_posted ss @ [m] \<and>
      so_started (ss_stream ss') = so_started (ss_stream ss) @ [io_header_bytes e (io_header_new cid rid) @ [0]]) \<and>
    (\<forall>j t. j \<noteq> k \<longrightarrow> map_of (pl_sessions (server_pool s)) j = Some t \<longrightarrow> map_of (pl_sessions q) j =
      Some (if sa_established t \<and> cid = command_id MY_RPC_BROADCAST_ALL then server_session_send m t else t))"
proof -
  let ?v = "handler_view body ss" and ?p = "server_pool s"
  let ?ids = "example_targets cid ?v" and ?q = "manager_broadcast (command_id MY_RPC_LISTEN_BROADCAST)
      (example_message cid ?v) (example_targets cid ?v) ?p"
  have inv: "accept_pool_inv e ?p" using pool_sys.reachable_inv [OF server(1)] by (simp add: system_inv_def)
  have q: "q = pool_exec B H e (Pl_session k (Sv_read now No_error b)) ?q"
    unfolding q_def by (rule broadcast_command_receive [OF laws cid server(3) session(1,4) frame])
  have "pl_sessions ?p \<noteq> []" using session(1) by auto
  note live = broadcast_live [OF inv server(2) this, of "command_id MY_RPC_LISTEN_BROADCAST" "example_message cid ?v" ?ids,
      folded m_def]
  have k: "map_of (pl_sessions ?q) k = Some (server_session_send m ss)"
    unfolding live using session(1,2) by (simp add: example_targets_def handler_view_def)
  let ?ss' = "server_exec B e (map_of (sm_bound_funcs (pl_manager ?q))) (Sv_read now No_error b) (server_session_send m ss)"
  have "map_of (sm_bound_funcs (pl_manager ?q)) cid = Some (Some acknowledge_handler)"
    using cid server(3) by (auto simp: server_funcs_def advanced_bindings_def)
  then have "so_started (ss_stream ?ss') = so_started (ss_stream ss) @ [io_header_bytes e (io_header_new cid rid) @ [0]]"
    using answer_written [OF laws ready_after_send [OF session(3)] frame, where f = acknowledge_handler]
    by (simp add: acknowledge_handler_def io_header_new_def server_session_send_def del: server_exec.simps)
  moreover have "ss_posted ?ss' = ss_posted ss @ [m]" unfolding read_keeps_posted by (simp add: server_session_send_def)
  moreover have "map_of (pl_sessions q) k = Some ?ss'" unfolding q by (rule pool_session_exec [OF k])
  moreover have "map_of (pl_sessions q) j = Some (if sa_established t \<and> cid = command_id MY_RPC_BROADCAST_ALL
      then server_session_send m t else t)" if "j \<noteq> k" "map_of (pl_sessions ?p) j = Some t" for j t
  proof -
    have "cx_id t \<noteq> cx_id ss" using distinct_idsD [OF accept_pool_invD(3) [OF inv], of j t k ss] that session(1) by blast
    then have "map_of (pl_sessions ?q) j = Some (if sa_established t \<and> cid = command_id MY_RPC_BROADCAST_ALL
        then server_session_send m t else t)"
      unfolding live using that(2) by (simp add: example_targets_def handler_view_def)
    then show ?thesis using that(1) k by (simp add: q update_session_def update_conv')
  qed
  ultimately show ?thesis by blast
qed

abbreviation advanced_demo_start :: "(u8 list, (string \<times> string) list) accept_pool" where
  "advanced_demo_start \<equiv> demo_start\<lparr>pl_manager := (session_manager_new server_config_default)\<lparr>sm_sub_refs := 3,
     sm_bound_funcs := map (\<lambda>(k, h). (k, Some h)) advanced_bindings\<rparr>\<rparr>"

lemma advanced_demo_pool:
  "\<exists>(p :: (u8 list, (string \<times> string) list) accept_pool) ss. reachable system_start (pool_step byte_buffer list_http Big) p \<and>
     sm_msg_queued (pl_manager p) = 0 \<and> sm_bound_funcs (pl_manager p) = map (\<lambda>(k, h). (k, Some h)) advanced_bindings \<and>
     pl_sessions p = [(4, ss)] \<and> sa_established ss \<and> server_ready ss \<and> \<not> server_stopped ss \<and> ss_posted ss = []"
proof -
  have "system_start advanced_demo_start"
    by (auto simp: system_start_def pool_start_def session_manager_new_def keeps_ids_def advanced_bindings_def
        send_handler_def echo_handler_def acknowledge_handler_def shutdown_handler_def split: if_splits)
  then have "reachable system_start (pool_step byte_buffer list_http Big)
      (pool_run byte_buffer list_http Big demo_accept advanced_demo_start)"
    by (intro pool_run_reachable reachable.reach_init)
  moreover have "\<exists>ss. sm_msg_queued (pl_manager (pool_run byte_buffer list_http Big demo_accept advanced_demo_start)) = 0 \<and>
      sm_bound_funcs (pl_manager (pool_run byte_buffer list_http Big demo_accept advanced_demo_start)) =
        map (\<lambda>(k, h). (k, Some h)) advanced_bindings \<and>
      pl_sessions (pool_run byte_buffer list_http Big demo_accept advanced_demo_start) = [(4, ss)] \<and> sa_established ss \<and>
      server_ready ss \<and> \<not> server_stopped ss \<and> ss_posted ss = []"
    by (simp add: pool_eval server_ready_def server_accepts_def server_stopped_def duration_zero_def queue_send_max_def)
  ultimately show ?thesis by blast
qed

theorem advanced_broadcast_commands_witness:
  "\<exists>(s :: (u8 list, (string \<times> string) list) server) ss ss'. map_of (pl_sessions (server_pool s)) 4 = Some ss \<and>
     map_of (pl_sessions (server_pool (advanced_receive byte_buffer list_http Big 4 0
       (io_header_bytes Big (io_header_new (command_id MY_RPC_BROADCAST_SINGLE) 1) @ [104]) s))) 4 = Some ss' \<and>
     so_started (ss_stream ss') = so_started (ss_stream ss) @
       [io_header_bytes Big (io_header_new (command_id MY_RPC_BROADCAST_SINGLE) 1) @ [0]]"
proof -
  obtain p :: "(u8 list, (string \<times> string) list) accept_pool" and ss where p:
    "reachable system_start (pool_step byte_buffer list_http Big) p" "sm_msg_queued (pl_manager p) = 0"
    "sm_bound_funcs (pl_manager p) = map (\<lambda>(k, h). (k, Some h)) advanced_bindings" "pl_sessions p = [(4, ss)]"
    "sa_established ss" "server_ready ss" "\<not> server_stopped ss" using advanced_demo_pool by blast
  let ?s = "set_pool p (demo_server 1)" and ?cid = "command_id MY_RPC_BROADCAST_SINGLE"
  have "server_funcs ?s = map_of (map (\<lambda>(k, h). (k, Some h)) advanced_bindings)" by (simp add: server_funcs_def p(3))
  then have "\<exists>ss'. map_of (pl_sessions (server_pool (advanced_receive byte_buffer list_http Big 4 0
       (io_header_bytes Big (io_header_new ?cid 1) @ [104]) ?s))) 4 = Some ss' \<and>
     so_started (ss_stream ss') = so_started (ss_stream ss) @ [io_header_bytes Big (io_header_new ?cid 1) @ [0]]"
    using advanced_broadcast_commands [OF flat_buffer_laws_byte_buffer, of ?cid list_http Big ?s 4 ss
      "io_header_bytes Big (io_header_new ?cid 1) @ [104]" 1 "[104]" 0] p
    by (auto simp: queue_send_max_def simp del: command_id.simps)
  moreover have "map_of (pl_sessions (server_pool ?s)) 4 = Some ss" using p(4) by simp
  ultimately show ?thesis by blast
qed

section \<open>Shutting down\<close>

lemma advanced_receive_threads:
  assumes "map_of (pl_sessions (server_pool s)) k = Some ss" and "\<not> server_stopped ss"
    and "frame_calls B e (is_bound (map_of (sm_bound_funcs (pl_manager (server_pool s))))) b = [(command_id MY_RPC_SERVER_SHUTDOWN, body)]"
  shows "\<exists>p. advanced_receive B H e k now b s = set_pool p (stop_begin s)"
  using assms by (auto simp: advanced_receive_def Let_def advanced_effects_def)

lemma leave_stopped:
  "sv_io_stopped s \<Longrightarrow> distinct js \<Longrightarrow> set js \<subseteq> running_workers s \<Longrightarrow>
   srv_run B H e (map Srv_worker_done js) s = fold worker_done js s"
proof (induction js arbitrary: s)
  case (Cons j js)
  then have "srv_enabled (Srv_worker_done j) s" by (simp add: running_workers_def)
  moreover have "set js \<subseteq> running_workers (worker_done j s)" using Cons.prems by (auto simp: running_workers_done)
  ultimately show ?case using Cons.IH [of "worker_done j s"] Cons.prems by simp
qed simp

lemma leave_running: "\<not> sv_io_stopped s \<Longrightarrow> srv_run B H e (map Srv_worker_done js) s = s"
  by (induction js) simp_all

text \<open>C36: the shutdown command ends the advanced server. While the server runs (with the invariant that its threads
  have in every reachable state) and nothing has stopped it, none of its workers can leave the io context. When a session receives the
  command, every worker becomes able to leave; once they have, in whatever order, none is inside \<^verbatim>\<open>run()\<close> any more and
  the stop handler, which ends the broadcasting thread, has been called exactly once, before the main program has called
  \<^verbatim>\<open>stop()\<close>. That call then returns without waiting, with every thread joined and no further call of the handler, and
  the destructor after it returns at once.\<close>

theorem shutdown_command_stops_server:
  fixes B :: "'b flat_buffer" and H :: "'h http_fields" and s :: "('b, 'h) server" and now :: time_point
  assumes laws: "flat_buffer_laws B" and inv: "threads_inv s"
    and run: "sv_running s" "sv_handler s" "\<not> sv_io_stopped s"
      "server_funcs s = map_of (map (\<lambda>(k, h). (k, Some h)) advanced_bindings)"
    and session: "map_of (pl_sessions (server_pool s)) k = Some ss" "\<not> server_stopped ss"
    and frame: "fb_bytes B b = io_header_bytes e (io_header_new (command_id MY_RPC_SERVER_SHUTDOWN) rid) @ body"
    and workers: "distinct js" "set js = running_workers s" "js \<noteq> []"
  defines "leave \<equiv> map Srv_worker_done js" and "t \<equiv> advanced_receive B H e k now b s"
  shows "srv_run B H e leave s = s \<and> (\<forall>j \<in> set js. srv_enabled (Srv_worker_done j) t) \<and>
    running_workers (srv_run B H e leave t) = {} \<and> sv_running (srv_run B H e leave t) \<and>
    sv_handler_calls (srv_run B H e leave t) = Suc (sv_handler_calls s) \<and>
    (\<exists>s'. server_stop False (\<lambda>s. s) (srv_run B H e leave t) = Some s' \<and> \<not> sv_running s' \<and>
      (\<forall>w \<in> set (sv_workers s'). \<not> wk_running w \<and> \<not> wk_joinable w) \<and>
      sv_handler_calls s' = Suc (sv_handler_calls s) \<and> server_delete False (\<lambda>s. s) s' = Some (stop_begin s'))"
proof -
  have "is_bound (map_of (sm_bound_funcs (pl_manager (server_pool s)))) (command_id MY_RPC_SERVER_SHUTDOWN)"
    using run(4) by (auto simp: is_bound_def server_funcs_def advanced_bindings_def)
  then have "frame_calls B e (is_bound (map_of (sm_bound_funcs (pl_manager (server_pool s))))) b =
      [(command_id MY_RPC_SERVER_SHUTDOWN, body)]"
    using frame_calls_bytes [OF laws frame] by (simp add: io_header_new_def)
  from advanced_receive_threads [OF session this] obtain p where p: "t = set_pool p (stop_begin s)"
    unfolding t_def by blast
  have t: "threads_inv t" "sv_running t" "running_workers t = running_workers s" "sv_handler t"
    "sv_handler_calls t = sv_handler_calls s" "sv_io_stopped t"
    using inv run(1,2) by (simp_all add: p set_pool_def stop_begin_def threads_inv_def worker_count_def running_workers_def)
  let ?u = "srv_run B H e leave t"
  have u: "?u = fold worker_done js t"
    unfolding leave_def using t(6) workers(1) by (rule leave_stopped) (simp add: t(3) workers(2))
  from workers_leave [OF t(1) workers(1)] workers(2,3) t(3,4,5) have
    left: "threads_inv ?u" "running_workers ?u = {}" "sv_handler_calls ?u = Suc (sv_handler_calls s)" by (simp_all add: u)
  have "sv_running ?u" using t(2) by (simp add: u fold_worker_done_frame)
  moreover have "stop_ready (stop_begin ?u)"
    using left(1,2) ready_iff [OF left(1)] \<open>sv_running ?u\<close> by (simp add: stop_ready_def stop_begin_def threads_inv_def worker_count_def)
  moreover have "\<forall>w \<in> set (sv_workers ?u). \<not> wk_running w" using left(2) by (simp add: running_workers_empty)
  moreover have "srv_run B H e leave s = s" unfolding leave_def using run(3) by (rule leave_running)
  moreover have "\<forall>j \<in> set js. srv_enabled (Srv_worker_done j) t"
    using t(3,6) workers(2) by (auto simp: running_workers_def)
  ultimately show ?thesis
    using left(2,3) by (auto simp: server_stop_def server_delete_def Let_def stop_begin_def stop_end_def)
qed

theorem shutdown_command_stops_server_witness:
  "\<exists>s :: (u8 list, (string \<times> string) list) server. sv_running s \<and> \<not> sv_io_stopped s \<and> running_workers s = {0, 1} \<and>
     (let u = srv_run byte_buffer list_http Big (map Srv_worker_done [1, 0]) (advanced_receive byte_buffer list_http Big 4 0
        (io_header_bytes Big (io_header_new (command_id MY_RPC_SERVER_SHUTDOWN) 0)) s)
      in running_workers u = {} \<and> sv_handler_calls u = 1 \<and> (\<exists>s'. server_stop False (\<lambda>s. s) u = Some s' \<and> sv_handler_calls s' = 1))"
proof -
  obtain p :: "(u8 list, (string \<times> string) list) accept_pool" and ss where p:
    "sm_bound_funcs (pl_manager p) = map (\<lambda>(k, h). (k, Some h)) advanced_bindings" "pl_sessions p = [(4, ss)]"
    "\<not> server_stopped ss" using advanced_demo_pool by blast
  let ?r = "srv_run byte_buffer list_http Big [Srv_async_start True] (demo_server 2)" and ?b =
    "io_header_bytes Big (io_header_new (command_id MY_RPC_SERVER_SHUTDOWN) 0)"
  let ?s = "set_pool p ?r"
  have r: "sv_running ?r" "sv_handler ?r" "sv_handler_calls ?r = 0" "\<not> sv_io_stopped ?r" "sv_workers ?r = spawn_workers 2"
    by (simp_all add: demo_server_sel server_async_start_def run_async_workers_def Let_def worker_count_def)
  have ws: "set [1, 0] = running_workers ?r" unfolding running_workers_def r(5) by (auto simp: numeral_2_eq_2 less_Suc_eq)
  have "threads_inv ?r" by (rule threads_sys.reachable_inv [OF demo_run_reachable])
  then have s: "threads_inv ?s" "sv_running ?s" "sv_handler ?s" "\<not> sv_io_stopped ?s" "sv_handler_calls ?s = 0"
      "running_workers ?s = set [1, 0]"
    using r(1-4) unfolding ws
    by (simp_all add: set_pool_def threads_inv_def worker_count_def running_workers_def del: srv_run.simps)
  have "server_funcs ?s = map_of (map (\<lambda>(k, h). (k, Some h)) advanced_bindings)"
    by (simp add: server_funcs_def p(1) del: srv_run.simps)
  moreover have "map_of (pl_sessions (server_pool ?s)) 4 = Some ss" by (simp add: p(2) del: srv_run.simps)
  ultimately show ?thesis
    using shutdown_command_stops_server [OF flat_buffer_laws_byte_buffer s(1-4), of 4 ss ?b Big 0 "[]" "[1, 0]" list_http 0] p(3) s
    by (intro exI [of _ ?s]) (auto simp: Let_def simp del: srv_run.simps command_id.simps list.map)
qed

lemma basic_server_fresh:
  assumes "basic_server parses ec1 ec2 ec3 ec4 = Inr s"
  shows "\<not> sv_running s" "\<not> sv_io_stopped s" "sv_workers s = []" "sv_signal_waits s = 1" "sv_blocking s = 0"
    "sv_server_cfg s = basic_server_config"
  using assms
  by (auto simp: basic_server_def server_new_def server_bind_def set_manager_def set_pool_def Let_def
      split: if_splits option.splits)

text \<open>
  The basic server ends on a signal: \<^verbatim>\<open>start()\<close> and its one further worker leave the io context, and
  \<^verbatim>\<open>stop()\<close> returns with the worker joined.
\<close>

lemma basic_server_main_returns:
  assumes "basic_server parses ec1 ec2 ec3 ec4 = Inr s"
  shows "\<exists>s'. basic_server_main (srv_run B H e [Srv_signal, Srv_blocking_done, Srv_worker_done 0]) (\<lambda>s. s) s = Some s' \<and>
    \<not> sv_running s' \<and> (\<forall>w \<in> set (sv_workers s'). \<not> wk_running w \<and> \<not> wk_joinable w)"
proof -
  have "unat (1 :: u32) = Suc 0" by simp
  with basic_server_fresh [OF assms] show ?thesis
    by (simp add: basic_server_main_def server_start_def run_async_workers_def worker_count_def basic_server_config_def Let_def
        io_busy_def server_on_signal_def worker_done_def server_stop_def stop_begin_def stop_ready_def stop_end_def)
qed

text \<open>
  The advanced client is ready to connect: its handler is bound, one attempt is made although zero are
  configured, and the session it connects with sends its handshake fields.
\<close>

lemma advanced_client_ready:
  "\<exists>c. advanced_client H ua = Returned () c \<and> map_of (ci_bound_funcs c) (command_id MY_RPC_LISTEN_BROADCAST) = Some (Some (\<lambda>b. b)) \<and>
    cc_send_attempts (ci_client_cfg c) = 1 \<and> ci_req_handshake c = advanced_request H ua \<and>
    (ce_run E = drive [No_error, No_error, No_error, No_error] \<longrightarrow>
      (\<exists>c' sn. client_connect B E c = Returned True c' \<and> ci_session c' = Some sn \<and> sn_decorator sn = Some (advanced_request H ua)))"
  by (simp add: advanced_client_def listen_broadcast_def client_new_def set_handshake_request_def example_client_config_def
      client_connect_def construct_session_def Let_def session_connect_new_def connect_run_def run_refused_def run_start_def
      connect_done_def connect_defs put_session_def session_held_def client_read_def)

end
