(* ===== verification/Connection.thy ===== *)
theory Connection
  imports Rpc_Exchange "HOL-Library.Sublist"
begin

text \<open>
  One connection as a whole: a client session, a server session and the network between them, which
  carries the frames of each side to the other in order, or stops carrying them. The steps of both
  sessions, the calls of the users of both and the arrivals of frames interleave without restriction.
\<close>

section \<open>The runs of both sessions\<close>

context ordered_events
begin

lemma run_snoc: "run (evs @ [ev]) s = (if enabled ev (run evs s) then exec ev (run evs s) else run evs s)"
  by (induction evs arbitrary: s) simp_all

lemma taken_snoc: "taken_run (evs @ [ev]) s = taken_run evs s @ taken ev (run evs s)"
  by (induction evs arbitrary: s) simp_all

end

context frame_reader
begin

lemma delivered_snoc: "delivered (evs @ [ev]) = delivered evs @ (case frame ev of None \<Rightarrow> [] | Some b \<Rightarrow> [b])"
  by (simp add: delivered_def List.map_filter_def split: option.split)

end

text \<open>Calls arrive in the order they were sent, each at most once.\<close>

lemma calls_in_send_order:
  fixes B :: "'b flat_buffer" and s :: "('b, 'h) server_session"
  assumes laws: "flat_buffer_laws B" and client: "client_connected B c" and server: "server_established B H s"
    and network: "map (fb_bytes B) (sr.delivered sevs) =
      take m (client_frames mem (so_started (cs_stream (client_run B e cevs c))))"
  shows "\<exists>k \<le> length (sr.delivered sevs).
    ss_calls (so.run B e funcs sevs s) =
      concat (map (message_call (is_bound funcs)) (take k (requests_of mem (client_accepted B e cevs c)))) \<and>
    (\<not> server_stopped (so.run B e funcs sevs s) \<longrightarrow> k = length (sr.delivered sevs))"
proof -
  obtain q where q: "so_started (cs_stream (client_run B e cevs c)) =
      map (client_wire_of e) (take q (client_accepted B e cevs c))"
    using client_run_ordered [OF client, of e cevs] by (auto simp: co.ordered_def)
  have frames: "map (fb_bytes B) (sr.delivered sevs) =
      take m (map (message_frame e) (take q (requests_of mem (client_accepted B e cevs c))))"
    using network by (simp add: q client_frames_wire)
  have "ss_calls s = []"
    using server by (auto simp: server_established_def server_read_def arm_timer_def server_session_new_def)
  then obtain k where k: "k \<le> length (sr.delivered sevs)"
    "ss_calls (so.run B e funcs sevs s) = concat (map (frame_calls B e (is_bound funcs)) (take k (sr.delivered sevs)))"
    "\<not> server_stopped (so.run B e funcs sevs s) \<longrightarrow> k = length (sr.delivered sevs)"
    using sr.log_run [OF server_inv_established [OF server, of e], where evs = sevs and B = B and funcs = funcs] by auto
  from prefix_calls [OF frames k(1), where c = "frame_calls B e (is_bound funcs)" and g = "message_call (is_bound funcs)"]
    frame_calls_message [OF laws] k show ?thesis by auto
qed

text \<open>The other direction: what the server session takes into its queue, responses and broadcasts.\<close>

lemma broadcasts_in_order:
  fixes B :: "'b flat_buffer" and s :: "('b, 'h) server_session"
  assumes laws: "flat_buffer_laws B" and client: "client_connected B c" "\<forall>ev \<in> set cevs. reads_with bfuncs ev"
    and server: "server_established B H s"
    and network: "map (fb_bytes B) (cr.delivered cevs) = take m (so_started (ss_stream (so.run B e funcs sevs s)))"
  shows "\<exists>k \<le> length (cr.delivered cevs).
    cs_broadcasts (client_run B e cevs c) =
      concat (map (message_call (is_bound bfuncs)) (take k (map pushed (so.taken_run B e funcs sevs s)))) \<and>
    (\<not> client_stopped (client_run B e cevs c) \<longrightarrow> k = length (cr.delivered cevs))"
proof -
  obtain q where q: "so_started (ss_stream (so.run B e funcs sevs s)) =
      map (server_wire_of e) (take q (so.taken_run B e funcs sevs s))"
    using server_run_ordered [OF server, of e B funcs sevs] by (auto simp: so.ordered_def)
  have frames: "map (fb_bytes B) (cr.delivered cevs) =
      take m (map (message_frame e) (take q (map pushed (so.taken_run B e funcs sevs s))))"
    using network by (simp add: q server_wire_frame [abs_def] take_map comp_def)
  have "cs_broadcasts c = []" using client(1) by (auto simp: client_connected_def client_read_def client_session_new_def)
  then obtain k where k: "k \<le> length (cr.delivered cevs)"
    "cs_broadcasts (client_run B e cevs c) = concat (map (frame_calls B e (is_bound bfuncs)) (take k (cr.delivered cevs)))"
    "\<not> client_stopped (client_run B e cevs c) \<longrightarrow> k = length (cr.delivered cevs)"
    using cr.log_run [OF client_sys.inv_init [OF client(1), of e] client(2), where B = B] by (auto simp: client_run_eq)
  from prefix_calls [OF frames k(1), where c = "frame_calls B e (is_bound bfuncs)" and g = "message_call (is_bound bfuncs)"]
    frame_calls_message [OF laws] k show ?thesis by auto
qed

text \<open>The writes of a session are never taken back.\<close>

lemma posted_started_grows: "prefix (so_started (cs_stream s)) (so_started (cs_stream (run_posted e h s)))"
  by (cases h) (auto simp: weak_post_def handle_send_def client_write_def close_session_def handle_ping_def Let_def
      data_queue_defs split: list.split option.split prod.split)

lemma client_started_grows:
  "prefix (so_started (cs_stream s)) (so_started (cs_stream (client_exec B e ev s)))"
proof (cases ev)
  case Ev_posted
  with posted_started_grows [of "s\<lparr>cs_posted := hs\<rparr>" for hs] show ?thesis by (auto split: list.split)
next
  case (Ev_wrote ec)
  then show ?thesis
    by (auto simp: client_on_write_def client_write_def Let_def data_queue_defs split: list.split option.split prod.split)
next
  case (Ev_read f now ec b)
  then show ?thesis by (simp add: client_on_read_def client_read_def Let_def)
qed (auto simp: on_control_callback_def on_ping_def post_send_def drop_promise_def Let_def)

lemma server_started_grows:
  "server_enabled ev s \<Longrightarrow> prefix (so_started (ss_stream s)) (so_started (ss_stream (server_exec B e funcs ev s)))"
proof (cases ev)
  case Sv_posted
  then show ?thesis by (auto simp: server_handle_send_def server_write_def Let_def split: list.split)
next
  case (Sv_wrote now ec)
  then show ?thesis
    by (auto simp: server_on_write_def server_write_def server_close_session_def server_shutdown_def Let_def split: list.split)
next
  case (Sv_read now ec b)
  moreover assume "server_enabled ev s"
  ultimately show ?thesis by (simp add: server_exec_read(3) del: server_exec.simps)
qed (use server_exec_other [of ev B e funcs s] in \<open>auto simp del: server_exec.simps\<close>)

section \<open>Answers\<close>

text \<open>
  What a session of the server answers. The users of a server send broadcasts only, which do not have a
  result id; everything else a session queues is the response to a frame it has received.
\<close>

definition is_broadcast :: "shared_push \<Rightarrow> bool" where
  "is_broadcast m \<longleftrightarrow> sp_msg m \<noteq> None \<and> result_id (dp_header (sp_data m)) = 0"

definition is_response :: "shared_push \<Rightarrow> bool" where
  "is_response m \<longleftrightarrow> sp_msg m = None"

fun sends_broadcasts :: "'b server_event \<Rightarrow> bool" where
  "sends_broadcasts (Sv_send m) \<longleftrightarrow> is_broadcast m"
| "sends_broadcasts _ \<longleftrightarrow> True"

text \<open>
  A message answers a request when it has the header of the request and, as its body, what the bound
  function made of the bytes of the request.
\<close>

definition answers :: "'h bound_funcs \<Rightarrow> io_header \<times> u8 list \<Rightarrow> shared_push \<Rightarrow> bool" where
  "answers funcs r m \<longleftrightarrow> is_response m \<and> dp_header (sp_data m) = fst r \<and>
     (\<exists>f v. funcs (call_id (fst r)) = Some (Some f) \<and> cv_data v = snd r \<and>
        dp_body (sp_data m) = handler_response (f v) [] \<and> dp_body (sp_data m) \<noteq> [])"

definition message_of :: "'b flat_buffer \<Rightarrow> endian \<Rightarrow> 'b \<Rightarrow> io_header \<times> u8 list" where
  "message_of B e b = (io_header_of_bytes e (fb_bytes B b), fb_bytes B (fb_consume B b sizeof_io_header))"

lemma message_of_frame: "flat_buffer_laws B \<Longrightarrow> fb_bytes B b = message_frame e m \<Longrightarrow> message_of B e b = m"
  by (simp add: message_of_def message_frame_def io_header_of_bytes_append flat_buffer_consume)

lemma response_of_bound:
  fixes s :: "('b, 'h, 'z) server_session_scheme"
  assumes "m \<in> set (response_of B e funcs s)"
  obtains f where "funcs (call_id (frame_header B e s)) = Some (Some f)"
    "handler_response (f (context_view (call_context B e s))) (cx_response s) \<noteq> []"
    "m = \<lparr>sp_msg = None, sp_data = \<lparr>dp_header = frame_header B e s,
       dp_body = handler_response (f (context_view (call_context B e s))) (cx_response s)\<rparr>\<rparr>"
proof (cases "funcs (call_id (frame_header B e s))")
  case None
  then have "response_of B e funcs s = []" by (simp add: response_of_def)
  with assms show ?thesis by simp
next
  case (Some g)
  have "g \<noteq> None"
  proof
    assume "g = None"
    with Some have "response_of B e funcs s = []" by (simp add: response_of_def)
    with assms show False by simp
  qed
  with Some obtain f where f: "funcs (call_id (frame_header B e s)) = Some (Some f)" by blast
  let ?r = "handler_response (f (context_view (call_context B e s))) (cx_response s)"
  have "response_of B e funcs s \<in> {[], [\<lparr>sp_msg = None, sp_data = \<lparr>dp_header = frame_header B e s, dp_body = ?r\<rparr>\<rparr>]} \<and>
      (?r = [] \<longrightarrow> response_of B e funcs s = [])"
    using f by (simp add: response_of_def Let_def)
  with assms f show ?thesis by (intro that [of f]) auto
qed

lemma response_of_answers:
  assumes "cx_response s = []" and "m \<in> set (response_of B e funcs (received b s))"
  shows "answers funcs (message_of B e b) m"
proof -
  let ?v = "context_view (call_context B e (received b s))" and ?h = "frame_header B e (received b s)"
  have "?h = fst (message_of B e b)" "cv_data ?v = snd (message_of B e b)" "cx_response (received b s) = []"
    using assms(1) by (simp_all add: frame_header_def context_view_def session_context_data_def call_context_def
        received_def message_of_def)
  moreover from response_of_bound [OF assms(2)] obtain f where "funcs (call_id ?h) = Some (Some f)"
    "handler_response (f ?v) (cx_response (received b s)) \<noteq> []" "m = \<lparr>sp_msg = None, sp_data =
       \<lparr>dp_header = ?h, dp_body = handler_response (f ?v) (cx_response (received b s))\<rparr>\<rparr>" .
  ultimately show ?thesis by (auto simp: answers_def is_response_def)
qed

text \<open>What one event makes a session queue: the response to its frame, or broadcasts.\<close>

lemma taken_kinds:
  assumes inv: "server_inv e s" and posted: "\<forall>m \<in> set (ss_posted s). is_broadcast m"
  obtains (response) b m where "server_frame ev = Some b" "server_taken B e funcs ev s = [m]"
      "answers funcs (message_of B e b) m"
    | (broadcasts) "\<forall>m \<in> set (server_taken B e funcs ev s). is_broadcast m"
proof (cases "\<exists>now b. ev = Sv_read now No_error b")
  case True
  then obtain now b where ev: "ev = Sv_read now No_error b" by blast
  have "cx_response s = []" using inv by (simp add: server_inv_def server_quiet_def)
  then have answer: "answers funcs (message_of B e b) m" if "m \<in> set (server_taken B e funcs ev s)" for m
    using that response_of_answers [of s m B e funcs b] by (simp add: ev split: if_splits)
  have "length (server_taken B e funcs ev s) \<le> 1" using length_response_of [of B e funcs "received b s"] by (simp add: ev)
  then consider "server_taken B e funcs ev s = []" | m where "server_taken B e funcs ev s = [m]"
    by (cases "server_taken B e funcs ev s") auto
  then show ?thesis
  proof cases
    case 1
    then show ?thesis by (intro broadcasts) simp
  next
    case 2
    with answer show ?thesis by (intro response [of b]) (simp_all add: ev del: server_taken.simps)
  qed
next
  case False
  have "\<forall>m \<in> set (server_taken B e funcs ev s). is_broadcast m"
    using posted False by (cases ev) (auto simp: failed_def split: if_splits dest: in_set_takeD)
  then show ?thesis by (rule broadcasts)
qed

lemma posted_exec:
  "set (ss_posted (server_exec B e funcs ev s)) \<subseteq> set (ss_posted s) \<union> {m. ev = Sv_send m}"
proof (cases ev)
  case Sv_posted
  then show ?thesis by (auto simp: server_handle_send_def server_write_def Let_def split: list.split)
next
  case (Sv_read now ec b)
  then show ?thesis by (simp add: server_on_read_def server_read_def Let_def call_function_posted)
qed (auto simp: server_session_send_def server_on_control_callback_def on_timer_def server_on_write_def server_write_def
      server_close_session_def server_shutdown_def server_on_ping_def on_shutdown_def Let_def split: list.split)

text \<open>
  Over a run the responses a session queues answer frames it has received, in their order and each at most
  once.
\<close>

lemma responses_run:
  assumes "server_inv e s" and "\<forall>m \<in> set (ss_posted s). is_broadcast m" and "\<forall>ev \<in> set evs. sends_broadcasts ev"
  shows "(\<exists>bs. subseq bs (sr.delivered evs) \<and>
      list_all2 (\<lambda>b. answers funcs (message_of B e b)) bs (filter is_response (so.taken_run B e funcs evs s))) \<and>
    (\<forall>m \<in> set (so.taken_run B e funcs evs s). \<not> is_response m \<longrightarrow> is_broadcast m)"
  using assms
proof (induction evs arbitrary: s)
  case Nil
  then show ?case by (simp add: sr.delivered_def)
next
  case (Cons ev evs)
  let ?s = "if server_enabled ev s then server_exec B e funcs ev s else s"
  have "server_inv e ?s" using Cons.prems(1) by (simp add: server_inv_exec del: server_exec.simps)
  moreover have "\<forall>m \<in> set (ss_posted ?s). is_broadcast m"
    using posted_exec [of B e funcs ev s] Cons.prems(2,3) by (auto simp del: server_exec.simps)
  ultimately obtain bs where bs: "subseq bs (sr.delivered evs)"
    "list_all2 (\<lambda>b. answers funcs (message_of B e b)) bs (filter is_response (so.taken_run B e funcs evs ?s))"
    and rest: "\<forall>m \<in> set (so.taken_run B e funcs evs ?s). \<not> is_response m \<longrightarrow> is_broadcast m"
    using Cons.IH [of ?s] Cons.prems(3) by auto
  from Cons.prems(1,2) show ?case
  proof (cases rule: taken_kinds [where ev = ev and B = B and funcs = funcs])
    case (response b m)
    then have "is_response m" by (simp add: answers_def)
    with response bs rest show ?thesis
      by (intro conjI exI [of _ "b # bs"]) (auto simp: sr.delivered_def simp del: server_taken.simps)
  next
    case broadcasts
    then have "filter is_response (server_taken B e funcs ev s) = []"
      by (auto simp: filter_empty_conv is_response_def is_broadcast_def)
    with broadcasts bs rest show ?thesis
      by (intro conjI exI [of _ bs]) (auto simp: sr.delivered_def split: option.split intro: list_emb_Cons simp del: server_taken.simps)
  qed
qed

lemma frames_correspond:
  "map f bs = map g ms \<Longrightarrow> (\<And>b m. f b = g m \<Longrightarrow> c b = m) \<Longrightarrow> map c bs = ms"
  by (induction bs arbitrary: ms) (auto simp: Cons_eq_map_conv)

section \<open>The connection\<close>

text \<open>
  \<open>cn_requests\<close> and \<open>cn_pushes\<close> are the messages the client session and the server session have taken into their
  queues, \<open>cn_received\<close> and \<open>cn_arrived\<close> the number of frames that have arrived at the server
  and at the client. The frames on their way are those written after these.
\<close>

record ('b, 'h) connection =
  cn_client :: "'b client_session"
  cn_server :: "('b, 'h) server_session"
  cn_requests :: "data_send list"
  cn_pushes :: "shared_push list"
  cn_received :: nat
  cn_arrived :: nat

definition connection_new :: "'b client_session \<Rightarrow> ('b, 'h) server_session \<Rightarrow> ('b, 'h) connection" where
  "connection_new c s =
     \<lparr>cn_client = c, cn_server = s, cn_requests = [], cn_pushes = [], cn_received = 0, cn_arrived = 0\<rparr>"

definition client_moves ::
  "'b flat_buffer \<Rightarrow> endian \<Rightarrow> 'b client_event \<Rightarrow> ('b, 'h) connection \<Rightarrow> ('b, 'h) connection" where
  "client_moves B e ev cn = cn\<lparr>cn_client := client_exec B e ev (cn_client cn),
     cn_requests := cn_requests cn @ accepted_at ev (cn_client cn)\<rparr>"

definition server_moves ::
  "'b flat_buffer \<Rightarrow> endian \<Rightarrow> 'h bound_funcs \<Rightarrow> 'b server_event \<Rightarrow> ('b, 'h) connection \<Rightarrow> ('b, 'h) connection" where
  "server_moves B e funcs ev cn = cn\<lparr>cn_server := server_exec B e funcs ev (cn_server cn),
     cn_pushes := cn_pushes cn @ server_taken B e funcs ev (cn_server cn)\<rparr>"

text \<open>
  Either side moves without the network (a read may fail at any time), or the next frame of one
  side arrives in a buffer of the other.
\<close>

datatype 'b connection_event =
    Cn_client "'b client_event"
  | Cn_server "'b server_event"
  | Cn_request time_point 'b
  | Cn_answer time_point 'b

definition arrives :: "'b flat_buffer \<Rightarrow> 'b \<Rightarrow> u8 list list \<Rightarrow> nat \<Rightarrow> bool" where
  "arrives B b frames i \<longleftrightarrow> i < length frames \<and> fb_bytes B b = frames ! i"

definition frames_of_client :: "(nat \<Rightarrow> u64 \<Rightarrow> u64 \<Rightarrow> u8 list) \<Rightarrow> ('b, 'h) connection \<Rightarrow> u8 list list" where
  "frames_of_client mem cn = client_frames mem (so_started (cs_stream (cn_client cn)))"

definition frames_of_server :: "('b, 'h) connection \<Rightarrow> u8 list list" where
  "frames_of_server cn = so_started (ss_stream (cn_server cn))"

fun connection_enabled ::
  "'b flat_buffer \<Rightarrow> (nat \<Rightarrow> u64 \<Rightarrow> u64 \<Rightarrow> u8 list) \<Rightarrow> 'b broadcast_handlers \<Rightarrow> 'b connection_event \<Rightarrow>
   ('b, 'h) connection \<Rightarrow> bool" where
  "connection_enabled B mem bfuncs (Cn_client ev) cn \<longleftrightarrow>
     client_enabled ev (cn_client cn) \<and> client_frame_of ev = None \<and> reads_with bfuncs ev"
| "connection_enabled B mem bfuncs (Cn_server ev) cn \<longleftrightarrow>
     server_enabled ev (cn_server cn) \<and> server_frame ev = None \<and> sends_broadcasts ev"
| "connection_enabled B mem bfuncs (Cn_request now b) cn \<longleftrightarrow>
     server_enabled (Sv_read now No_error b) (cn_server cn) \<and> arrives B b (frames_of_client mem cn) (cn_received cn)"
| "connection_enabled B mem bfuncs (Cn_answer now b) cn \<longleftrightarrow>
     client_enabled (Ev_read bfuncs now No_error b) (cn_client cn) \<and> arrives B b (frames_of_server cn) (cn_arrived cn)"

fun connection_exec ::
  "'b flat_buffer \<Rightarrow> endian \<Rightarrow> 'h bound_funcs \<Rightarrow> 'b broadcast_handlers \<Rightarrow> 'b connection_event \<Rightarrow>
   ('b, 'h) connection \<Rightarrow> ('b, 'h) connection" where
  "connection_exec B e funcs bfuncs (Cn_client ev) cn = client_moves B e ev cn"
| "connection_exec B e funcs bfuncs (Cn_server ev) cn = server_moves B e funcs ev cn"
| "connection_exec B e funcs bfuncs (Cn_request now b) cn =
     (server_moves B e funcs (Sv_read now No_error b) cn)\<lparr>cn_received := Suc (cn_received cn)\<rparr>"
| "connection_exec B e funcs bfuncs (Cn_answer now b) cn =
     (client_moves B e (Ev_read bfuncs now No_error b) cn)\<lparr>cn_arrived := Suc (cn_arrived cn)\<rparr>"

inductive connection_step ::
  "'b flat_buffer \<Rightarrow> endian \<Rightarrow> (nat \<Rightarrow> u64 \<Rightarrow> u64 \<Rightarrow> u8 list) \<Rightarrow> 'h bound_funcs \<Rightarrow> 'b broadcast_handlers \<Rightarrow>
   ('b, 'h) connection \<Rightarrow> 'b connection_event \<Rightarrow> ('b, 'h) connection \<Rightarrow> bool"
  for B :: "'b flat_buffer" and e :: endian and mem :: "nat \<Rightarrow> u64 \<Rightarrow> u64 \<Rightarrow> u8 list" and funcs :: "'h bound_funcs"
    and bfuncs :: "'b broadcast_handlers" where
  connection_stepI: "connection_enabled B mem bfuncs ev cn \<Longrightarrow>
    connection_step B e mem funcs bfuncs cn ev (connection_exec B e funcs bfuncs ev cn)"

inductive_simps connection_step_iff: "connection_step B e mem funcs bfuncs cn ev cn'"

fun connection_run ::
  "'b flat_buffer \<Rightarrow> endian \<Rightarrow> (nat \<Rightarrow> u64 \<Rightarrow> u64 \<Rightarrow> u8 list) \<Rightarrow> 'h bound_funcs \<Rightarrow> 'b broadcast_handlers \<Rightarrow>
   'b connection_event list \<Rightarrow> ('b, 'h) connection \<Rightarrow> ('b, 'h) connection" where
  "connection_run B e mem funcs bfuncs [] cn = cn"
| "connection_run B e mem funcs bfuncs (ev # evs) cn = connection_run B e mem funcs bfuncs evs
     (if connection_enabled B mem bfuncs ev cn then connection_exec B e funcs bfuncs ev cn else cn)"

lemma connection_run_reachable:
  "reachable (connection_start B H) (connection_step B e mem funcs bfuncs) cn \<Longrightarrow>
   reachable (connection_start B H) (connection_step B e mem funcs bfuncs) (connection_run B e mem funcs bfuncs evs cn)"
  by (induction evs arbitrary: cn) (auto intro: reachable.reach_step connection_stepI)

definition connection_start :: "'b flat_buffer \<Rightarrow> 'h http_fields \<Rightarrow> ('b, 'h) connection \<Rightarrow> bool" where
  "connection_start B H cn \<longleftrightarrow>
     (\<exists>c s. client_connected B c \<and> server_established B H s \<and> cn = connection_new c s)"

text \<open>
  A connection is a run of its client session and a run of its server session, joined by the frames
  that have arrived.
\<close>

definition client_part ::
  "'b flat_buffer \<Rightarrow> endian \<Rightarrow> 'b broadcast_handlers \<Rightarrow> ('b, 'h) connection \<Rightarrow> 'b client_session \<Rightarrow> 'b client_event list \<Rightarrow> bool"
where
  "client_part B e bfuncs cn c evs \<longleftrightarrow> client_connected B c \<and> (\<forall>ev \<in> set evs. reads_with bfuncs ev) \<and>
     cn_client cn = client_run B e evs c \<and> cn_requests cn = client_accepted B e evs c \<and>
     cn_arrived cn \<le> length (frames_of_server cn) \<and>
     map (fb_bytes B) (cr.delivered evs) = take (cn_arrived cn) (frames_of_server cn)"

definition server_part ::
  "'b flat_buffer \<Rightarrow> endian \<Rightarrow> 'h http_fields \<Rightarrow> (nat \<Rightarrow> u64 \<Rightarrow> u64 \<Rightarrow> u8 list) \<Rightarrow> 'h bound_funcs \<Rightarrow> ('b, 'h) connection \<Rightarrow>
   ('b, 'h) server_session \<Rightarrow> 'b server_event list \<Rightarrow> bool"
where
  "server_part B e H mem funcs cn s evs \<longleftrightarrow> server_established B H s \<and> (\<forall>ev \<in> set evs. sends_broadcasts ev) \<and>
     cn_server cn = so.run B e funcs evs s \<and> cn_pushes cn = so.taken_run B e funcs evs s \<and>
     cn_received cn \<le> length (frames_of_client mem cn) \<and>
     map (fb_bytes B) (sr.delivered evs) = take (cn_received cn) (frames_of_client mem cn)"

definition connection_inv ::
  "'b flat_buffer \<Rightarrow> endian \<Rightarrow> 'h http_fields \<Rightarrow> (nat \<Rightarrow> u64 \<Rightarrow> u64 \<Rightarrow> u8 list) \<Rightarrow> 'h bound_funcs \<Rightarrow> 'b broadcast_handlers \<Rightarrow>
   ('b, 'h) connection \<Rightarrow> bool" where
  "connection_inv B e H mem funcs bfuncs cn \<longleftrightarrow>
     (\<exists>c cevs. client_part B e bfuncs cn c cevs) \<and> (\<exists>s sevs. server_part B e H mem funcs cn s sevs)"

lemma frames_of_client_moves:
  "prefix (frames_of_client mem cn) (frames_of_client mem (client_moves B e ev cn))"
  using client_started_grows [of "cn_client cn" B e ev] client_frames_append
  by (auto simp: frames_of_client_def client_moves_def prefix_def simp del: client_exec.simps)

lemma frames_of_server_moves:
  "server_enabled ev (cn_server cn) \<Longrightarrow>
   prefix (frames_of_server cn) (frames_of_server (server_moves B e funcs ev cn))"
  by (simp add: frames_of_server_def server_moves_def server_started_grows del: server_exec.simps)

lemma moves_fields [simp]:
  "cn_client (client_moves B e ev cn) = client_exec B e ev (cn_client cn)"
  "cn_requests (client_moves B e ev cn) = cn_requests cn @ accepted_at ev (cn_client cn)"
  "cn_server (client_moves B e ev cn) = cn_server cn" "cn_pushes (client_moves B e ev cn) = cn_pushes cn"
  "cn_server (server_moves B e funcs sev cn) = server_exec B e funcs sev (cn_server cn)"
  "cn_pushes (server_moves B e funcs sev cn) = cn_pushes cn @ server_taken B e funcs sev (cn_server cn)"
  "cn_client (server_moves B e funcs sev cn) = cn_client cn" "cn_requests (server_moves B e funcs sev cn) = cn_requests cn"
  by (simp_all add: client_moves_def server_moves_def)

lemma moves_frames [simp]:
  "frames_of_server (client_moves B e ev cn) = frames_of_server cn"
  "frames_of_client mem (server_moves B e funcs sev cn) = frames_of_client mem cn"
  "cn_received (client_moves B e ev cn) = cn_received cn" "cn_arrived (client_moves B e ev cn) = cn_arrived cn"
  "cn_received (server_moves B e funcs sev cn) = cn_received cn" "cn_arrived (server_moves B e funcs sev cn) = cn_arrived cn"
  by (simp_all add: frames_of_client_def frames_of_server_def client_moves_def server_moves_def)

lemma frames_count [simp]:
  "frames_of_server (cn\<lparr>cn_received := i\<rparr>) = frames_of_server cn" "frames_of_server (cn\<lparr>cn_arrived := i\<rparr>) = frames_of_server cn"
  "frames_of_client mem (cn\<lparr>cn_received := i\<rparr>) = frames_of_client mem cn"
  "frames_of_client mem (cn\<lparr>cn_arrived := i\<rparr>) = frames_of_client mem cn"
  by (simp_all add: frames_of_client_def frames_of_server_def)

lemma take_prefix: "prefix xs ys \<Longrightarrow> n \<le> length xs \<Longrightarrow> take n ys = take n xs"
  by (auto simp: prefix_def)

text \<open>The part of the side that moves grows by the event, the other one stays as it is.\<close>

lemma arrived_frames:
  assumes "map f bs = take n xs" and "n \<le> m" and "map f cs = drop n (take m xs)"
  shows "map f (bs @ cs) = take m xs"
proof -
  have "take n (take m xs) = take n xs" using assms(2) by (simp add: min.absorb1)
  with assms show ?thesis using append_take_drop_id [of n "take m xs"] by simp
qed

lemma client_part_moves:
  assumes part: "client_part B e bfuncs cn c evs" and en: "client_enabled ev (cn_client cn)" "reads_with bfuncs ev"
    and moved: "cn_client cn' = client_exec B e ev (cn_client cn)"
      "cn_requests cn' = cn_requests cn @ accepted_at ev (cn_client cn)" "frames_of_server cn' = frames_of_server cn"
    and arrived: "cn_arrived cn \<le> cn_arrived cn'" "cn_arrived cn' \<le> length (frames_of_server cn)"
      "map (fb_bytes B) (case client_frame_of ev of None \<Rightarrow> [] | Some b \<Rightarrow> [b]) =
         drop (cn_arrived cn) (take (cn_arrived cn') (frames_of_server cn))"
  shows "client_part B e bfuncs cn' c (evs @ [ev])"
  using part en moved arrived arrived_frames [OF _ arrived(1,3), of "cr.delivered evs"]
  by (simp add: client_part_def client_run_eq client_accepted_eq co.run_snoc co.taken_snoc cr.delivered_snoc)

lemma server_part_moves:
  assumes part: "server_part B e H mem funcs cn s evs" and en: "server_enabled ev (cn_server cn)" "sends_broadcasts ev"
    and moved: "cn_server cn' = server_exec B e funcs ev (cn_server cn)"
      "cn_pushes cn' = cn_pushes cn @ server_taken B e funcs ev (cn_server cn)"
      "frames_of_client mem cn' = frames_of_client mem cn"
    and arrived: "cn_received cn \<le> cn_received cn'" "cn_received cn' \<le> length (frames_of_client mem cn)"
      "map (fb_bytes B) (case server_frame ev of None \<Rightarrow> [] | Some b \<Rightarrow> [b]) =
         drop (cn_received cn) (take (cn_received cn') (frames_of_client mem cn))"
  shows "server_part B e H mem funcs cn' s (evs @ [ev])"
  using part en moved arrived arrived_frames [OF _ arrived(1,3), of "sr.delivered evs"]
  by (simp add: server_part_def so.run_snoc so.taken_snoc sr.delivered_snoc)

lemma client_part_stays:
  assumes "client_part B e bfuncs cn c evs" and "cn_client cn' = cn_client cn" "cn_requests cn' = cn_requests cn"
    and "cn_arrived cn' = cn_arrived cn" and "prefix (frames_of_server cn) (frames_of_server cn')"
  shows "client_part B e bfuncs cn' c evs"
  using assms prefix_length_le [OF assms(5)] by (auto simp: client_part_def take_prefix)

lemma server_part_stays:
  assumes "server_part B e H mem funcs cn s evs" and "cn_server cn' = cn_server cn" "cn_pushes cn' = cn_pushes cn"
    and "cn_received cn' = cn_received cn" and "prefix (frames_of_client mem cn) (frames_of_client mem cn')"
  shows "server_part B e H mem funcs cn' s evs"
  using assms prefix_length_le [OF assms(5)] by (auto simp: server_part_def take_prefix)

lemma next_frame: "i < length xs \<Longrightarrow> drop i (take (Suc i) xs) = [xs ! i]"
  by (simp add: take_Suc_conv_app_nth)

lemmas session_execs = client_exec.simps server_exec.simps server_taken.simps

lemma client_part_exec:
  assumes en: "connection_enabled B mem bfuncs ev cn"
    and part: "client_part B e bfuncs cn c cevs"
  shows "\<exists>cevs. client_part B e bfuncs (connection_exec B e funcs bfuncs ev cn) c cevs"
proof (cases ev)
  case (Cn_client cev)
  have "client_part B e bfuncs (connection_exec B e funcs bfuncs ev cn) c (cevs @ [cev])"
    using en part by (intro client_part_moves [OF part]) (simp_all add: Cn_client client_part_def del: session_execs)
  then show ?thesis ..
next
  case (Cn_answer now b)
  have "client_part B e bfuncs (connection_exec B e funcs bfuncs ev cn) c (cevs @ [Ev_read bfuncs now No_error b])"
    using en by (intro client_part_moves [OF part]) (simp_all add: Cn_answer arrives_def next_frame del: session_execs)
  then show ?thesis ..
next
  case (Cn_server sev)
  have "client_part B e bfuncs (connection_exec B e funcs bfuncs ev cn) c cevs"
    using en by (intro client_part_stays [OF part]) (simp_all add: Cn_server frames_of_server_moves del: session_execs)
  then show ?thesis ..
next
  case (Cn_request now b)
  have "client_part B e bfuncs (connection_exec B e funcs bfuncs ev cn) c cevs"
    using en frames_of_server_moves [of "Sv_read now No_error b" cn B e funcs]
    by (intro client_part_stays [OF part]) (simp_all add: Cn_request del: session_execs)
  then show ?thesis ..
qed

lemma server_part_exec:
  assumes en: "connection_enabled B mem bfuncs ev cn"
    and part: "server_part B e H mem funcs cn s sevs"
  shows "\<exists>sevs. server_part B e H mem funcs (connection_exec B e funcs bfuncs ev cn) s sevs"
proof (cases ev)
  case (Cn_server sev)
  have "server_part B e H mem funcs (connection_exec B e funcs bfuncs ev cn) s (sevs @ [sev])"
    using en part by (intro server_part_moves [OF part]) (simp_all add: Cn_server server_part_def del: session_execs)
  then show ?thesis ..
next
  case (Cn_request now b)
  have "server_part B e H mem funcs (connection_exec B e funcs bfuncs ev cn) s (sevs @ [Sv_read now No_error b])"
    using en by (intro server_part_moves [OF part]) (simp_all add: Cn_request arrives_def next_frame del: session_execs)
  then show ?thesis ..
next
  case (Cn_client cev)
  have "server_part B e H mem funcs (connection_exec B e funcs bfuncs ev cn) s sevs"
    by (intro server_part_stays [OF part]) (simp_all add: Cn_client frames_of_client_moves del: session_execs)
  then show ?thesis ..
next
  case (Cn_answer now b)
  have "server_part B e H mem funcs (connection_exec B e funcs bfuncs ev cn) s sevs"
    by (intro server_part_stays [OF part]) (simp_all add: Cn_answer frames_of_client_moves del: session_execs)
  then show ?thesis ..
qed

lemma connection_inv_exec:
  "connection_inv B e H mem funcs bfuncs cn \<Longrightarrow> connection_enabled B mem bfuncs ev cn \<Longrightarrow>
   connection_inv B e H mem funcs bfuncs (connection_exec B e funcs bfuncs ev cn)"
  unfolding connection_inv_def by (meson client_part_exec server_part_exec)

lemma connection_inv_start: "connection_start B H cn \<Longrightarrow> connection_inv B e H mem funcs bfuncs cn"
proof -
  assume "connection_start B H cn"
  then obtain c s where "client_connected B c" "server_established B H s" "cn = connection_new c s"
    by (auto simp: connection_start_def)
  then have "client_part B e bfuncs cn c []" "server_part B e H mem funcs cn s []"
    by (simp_all add: client_part_def server_part_def connection_new_def cr.delivered_def sr.delivered_def)
  then show ?thesis by (auto simp: connection_inv_def)
qed

interpretation connection_sys: invariant_system "connection_start B H" "connection_step B e mem funcs bfuncs"
  "connection_inv B e H mem funcs bfuncs"
  by unfold_locales (auto simp: connection_step_iff connection_inv_start connection_inv_exec)

text \<open>The frames received are those of the first requests, and so are the messages they carry.\<close>

lemma received_requests:
  assumes laws: "flat_buffer_laws B" and c: "client_part B e bfuncs cn c cevs" and s: "server_part B e H mem funcs cn s sevs"
  shows "map (message_of B e) (sr.delivered sevs) = take (cn_received cn) (requests_of mem (cn_requests cn))"
proof -
  let ?r = "cn_received cn" and ?reqs = "requests_of mem (cn_requests cn)"
  obtain q where "so_started (cs_stream (cn_client cn)) = map (client_wire_of e) (take q (cn_requests cn))"
    using client_run_ordered [of B c e cevs] c by (auto simp: client_part_def co.ordered_def)
  then have frames: "frames_of_client mem cn = map (message_frame e) (take q ?reqs)"
    by (simp add: frames_of_client_def client_frames_wire)
  then have "?r \<le> q" "map (fb_bytes B) (sr.delivered sevs) = map (message_frame e) (take ?r ?reqs)"
    using s by (simp_all add: server_part_def take_map min.absorb1)
  then show ?thesis using message_of_frame [OF laws] by (intro frames_correspond [of "fb_bytes B" _ "message_frame e"])
qed

lemma responses_answer:
  assumes laws: "flat_buffer_laws B" and inv: "connection_inv B e H mem funcs bfuncs cn"
  shows "(\<exists>rs. subseq rs (take (cn_received cn) (requests_of mem (cn_requests cn))) \<and>
      list_all2 (answers funcs) rs (filter is_response (cn_pushes cn))) \<and>
    (\<forall>m \<in> set (cn_pushes cn). \<not> is_response m \<longrightarrow> is_broadcast m)"
proof -
  obtain c cevs s sevs where c: "client_part B e bfuncs cn c cevs" and s: "server_part B e H mem funcs cn s sevs"
    using inv by (auto simp: connection_inv_def)
  have "ss_posted s = []" "server_inv e s"
    using s server_inv_established [of B H s e]
    by (auto simp: server_part_def server_established_def server_read_def arm_timer_def server_session_new_def)
  with responses_run [of e s sevs funcs B] s obtain bs where bs: "subseq bs (sr.delivered sevs)"
    "list_all2 (\<lambda>b. answers funcs (message_of B e b)) bs (filter is_response (cn_pushes cn))"
    and kinds: "\<forall>m \<in> set (cn_pushes cn). \<not> is_response m \<longrightarrow> is_broadcast m"
    by (auto simp: server_part_def)
  have "subseq (map (message_of B e) bs) (take (cn_received cn) (requests_of mem (cn_requests cn)))"
    using subseq_map [OF bs(1), of "message_of B e"] received_requests [OF laws c s] by simp
  with bs(2) kinds show ?thesis by (auto simp: list_all2_map1)
qed

section \<open>Properties\<close>

text \<open>
  A connection on which a client has sent a request with the bytes 1 and 2, which the server has answered with
  the bytes reversed; the answer is on its way.
\<close>

abbreviation reverse_handler :: "'g context_view \<Rightarrow> context_op list" where
  "reverse_handler v \<equiv> [Ctx_response (rev (cv_data v))]"

abbreviation demo_request :: "u8 list" where
  "demo_request \<equiv> io_header_bytes Little (io_header_new 3 9) @ [1, 2]"

abbreviation demo_connection :: "(u8 list, (string \<times> string) list) connection" where
  "demo_connection \<equiv> connection_run byte_buffer Little (\<lambda>_ _ _. [1, 2]) (\<lambda>_. Some (Some reverse_handler)) (\<lambda>_. None)
     [Cn_client (Ev_post_send 3 9 64 2), Cn_client Ev_posted, Cn_request 0 demo_request, Cn_client (Ev_wrote No_error)]
     (connection_new (client_read (client_session_new byte_buffer client_timeout_default)) (demo_session 0))"

lemma demo_connection_reachable:
  "reachable (connection_start byte_buffer list_http) (connection_step byte_buffer Little (\<lambda>_ _ _. [1, 2])
     (\<lambda>_. Some (Some reverse_handler)) (\<lambda>_. None)) demo_connection"
  by (rule connection_run_reachable, rule reachable.reach_init)
    (auto simp: connection_start_def client_connected_def intro!: exI demo_established)

lemma demo_connection_client:
  fixes c :: "'b client_session"
  assumes "c = client_read (client_session_new B client_timeout_default)"
  defines "c1 \<equiv> client_exec B Little (Ev_post_send 3 9 64 2) c"
  shows "accepted_at (Ev_post_send 3 9 64 2) c = []" "accepted_at Ev_posted c1 = [data_send_new 3 9 0 64 2]"
    "cs_posted c1 \<noteq> []" "so_started (cs_stream (client_exec B Little Ev_posted c1)) = [client_wire_of Little (data_send_new 3 9 0 64 2)]"
    "so_writes (cs_stream (client_exec B Little Ev_posted c1)) \<noteq> []"
    "so_started (cs_stream (client_exec B Little (Ev_wrote No_error) (client_exec B Little Ev_posted c1))) =
       [client_wire_of Little (data_send_new 3 9 0 64 2)]"
    "\<not> client_stopped (client_exec B Little (Ev_wrote No_error) (client_exec B Little Ev_posted c1))"
  by (simp_all add: assms client_eval client_stopped_def)

lemma demo_connection_server:
  fixes s :: "(u8 list, (string \<times> string) list) server_session"
  defines "s \<equiv> demo_session 0"
  shows "server_taken byte_buffer Little (\<lambda>_. Some (Some reverse_handler)) (Sv_read 0 No_error demo_request) s =
      [\<lparr>sp_msg = None, sp_data = \<lparr>dp_header = io_header_new 3 9, dp_body = [2, 1]\<rparr>\<rparr>]"
    "so_started (ss_stream (server_exec byte_buffer Little (\<lambda>_. Some (Some reverse_handler)) (Sv_read 0 No_error demo_request) s)) =
      [io_header_bytes Little (io_header_new 3 9) @ [2, 1]]"
    "\<not> server_stopped (server_exec byte_buffer Little (\<lambda>_. Some (Some reverse_handler)) (Sv_read 0 No_error demo_request) s)"
    "so_reads (ss_stream s) \<noteq> 0"
proof -
  have s: "so_reads (ss_stream s) = 1" "server_accepts s" "cx_response s = []" "\<not> cx_bound_close s" "ss_queue s = []"
    "so_started (ss_stream s) = []" "\<not> ss_close s" "\<not> ss_close_received s" "\<not> ss_write_error s"
    by (simp_all add: s_def server_accepts_def server_read_def arm_timer_def server_session_new_def duration_zero_def
        queue_send_max_def)
  show read: "so_reads (ss_stream s) \<noteq> 0" using s(1) by simp
  let ?f = "\<lambda>_ :: u32. Some (Some (reverse_handler :: (string \<times> string) list context_view \<Rightarrow> _))"
  have "frame_header byte_buffer Little (received demo_request s) = io_header_new 3 9"
    by (simp add: frame_header_def received_def io_header_of_bytes_append)
  then show taken: "server_taken byte_buffer Little ?f (Sv_read 0 No_error demo_request) s =
      [\<lparr>sp_msg = None, sp_data = \<lparr>dp_header = io_header_new 3 9, dp_body = [2, 1]\<rparr>\<rparr>]"
    using s by (simp add: response_of_def context_view_def session_context_data_def call_context_def Let_def received_def)
  show "so_started (ss_stream (server_exec byte_buffer Little ?f (Sv_read 0 No_error demo_request) s)) =
      [io_header_bytes Little (io_header_new 3 9) @ [2, 1]]"
    unfolding server_exec_read(3) [OF read] taken by (simp add: s server_wire_of_def)
  show "\<not> server_stopped (server_exec byte_buffer Little ?f (Sv_read 0 No_error demo_request) s)"
    using s by (simp add: server_stopped_def server_on_read_def server_read_def Let_def call_function_frame
        frame_header_def io_header_of_bytes_append server_handle_send_def server_write_def call_context_def split: list.split)
qed

lemma demo_connection_state:
  "cn_received demo_connection = 1 \<and> cn_arrived demo_connection = 0 \<and>
   cn_requests demo_connection = [data_send_new 3 9 0 64 2] \<and>
   cn_pushes demo_connection = [\<lparr>sp_msg = None, sp_data = \<lparr>dp_header = io_header_new 3 9, dp_body = [2, 1]\<rparr>\<rparr>] \<and>
   frames_of_server demo_connection = [io_header_bytes Little (io_header_new 3 9) @ [2, 1]] \<and>
   \<not> server_stopped (cn_server demo_connection) \<and> \<not> client_stopped (cn_client demo_connection)"
proof -
  have frame: "client_frames (\<lambda>_ _ _. [1, 2]) [client_wire_of Little (data_send_new 3 9 0 64 2)] = [demo_request]"
    by (simp add: client_frames_def client_wire_of_def data_send_new_def)
  have never: "client_enabled (Ev_post_send 3 9 64 2) c" for c :: "u8 list client_session" by simp
  have posted: "client_enabled Ev_posted c \<longleftrightarrow> cs_posted c \<noteq> []" "client_enabled (Ev_wrote No_error) c \<longleftrightarrow> so_writes (cs_stream c) \<noteq> []"
    "server_enabled (Sv_read 0 No_error b) s \<longleftrightarrow> so_reads (ss_stream s) \<noteq> 0"
    for c :: "u8 list client_session" and b and s :: "(u8 list, (string \<times> string) list) server_session" by simp_all
  show ?thesis
    using demo_connection_client [OF refl, of byte_buffer] demo_connection_server frame
    by (simp add: never posted connection_new_def frames_of_client_def frames_of_server_def arrives_def accepted_at_def
        del: session_execs client_enabled.simps server_enabled.simps)
qed

text \<open>C2: messages arrive in the order they were sent, each at most once, in both directions. In every reachable state
  of a connection the handlers the server session has called are those of the first \<open>k\<close> requests of the client
  (of those with a bound id), in that order and with their bytes, and the broadcast handlers the client has
  called are those of the first \<open>k'\<close> messages the server session has queued; while a session has not stopped
  reading, none of the frames it has received was skipped.\<close>

theorem messages_in_order:
  fixes B :: "'b flat_buffer" and cn :: "('b, 'h) connection"
  assumes laws: "flat_buffer_laws B" and reach: "reachable (connection_start B H) (connection_step B e mem funcs bfuncs) cn"
  shows "(\<exists>k \<le> cn_received cn. ss_calls (cn_server cn) =
      concat (map (message_call (is_bound funcs)) (take k (requests_of mem (cn_requests cn)))) \<and>
      (\<not> server_stopped (cn_server cn) \<longrightarrow> k = cn_received cn)) \<and>
    (\<exists>k' \<le> cn_arrived cn. cs_broadcasts (cn_client cn) =
      concat (map (message_call (is_bound bfuncs)) (take k' (map pushed (cn_pushes cn)))) \<and>
      (\<not> client_stopped (cn_client cn) \<longrightarrow> k' = cn_arrived cn))"
proof -
  obtain c cevs s sevs where c: "client_part B e bfuncs cn c cevs" and s: "server_part B e H mem funcs cn s sevs"
    using connection_sys.reachable_inv [OF reach] by (auto simp: connection_inv_def)
  have len: "length (sr.delivered sevs) = cn_received cn" "length (cr.delivered cevs) = cn_arrived cn"
    using arg_cong [of _ _ length] c s unfolding client_part_def server_part_def by (metis length_map length_take min.absorb2)+
  show ?thesis
    using calls_in_send_order [OF laws, of c H s sevs "cn_received cn" mem e cevs funcs]
      broadcasts_in_order [OF laws, of c cevs bfuncs H s "cn_arrived cn" e funcs sevs] c s len
    by (simp add: client_part_def server_part_def frames_of_client_def frames_of_server_def)
qed

theorem messages_in_order_witness:
  "ss_calls (cn_server demo_connection) = [(3, [1, 2])]"
proof -
  have "ss_calls (cn_server demo_connection) = concat (map (message_call (is_bound
      ((\<lambda>_. Some (Some reverse_handler)) :: (string \<times> string) list bound_funcs))) (take 1 (requests_of (\<lambda>_ _ _. [1, 2]) [data_send_new 3 9 0 64 2])))"
    using messages_in_order [OF flat_buffer_laws_byte_buffer demo_connection_reachable] demo_connection_state
    by (auto simp del: connection_run.simps)
  then show ?thesis
    by (simp add: message_call_def requests_of_def is_bound_def data_send_new_def io_header_new_def del: connection_run.simps)
qed

text \<open>C13: every response answers a request. In every reachable state of a connection the responses the server
  session has queued are the answers to some of the requests it has received, in their order and
  each request at most once: a response has the header of its request, and its body is what the bound function
  made of the bytes of that request.\<close>

theorem responses_answer_requests:
  fixes B :: "'b flat_buffer" and cn :: "('b, 'h) connection"
  assumes laws: "flat_buffer_laws B" and reach: "reachable (connection_start B H) (connection_step B e mem funcs bfuncs) cn"
  shows "\<exists>rs. subseq rs (take (cn_received cn) (requests_of mem (cn_requests cn))) \<and>
    list_all2 (answers funcs) rs (filter is_response (cn_pushes cn))"
  using responses_answer [OF laws connection_sys.reachable_inv [OF reach]] by blast

theorem responses_answer_requests_witness:
  "\<exists>rs. subseq rs (requests_of (\<lambda>_ _ _. [1, 2]) [data_send_new 3 9 0 64 2]) \<and>
     list_all2 (answers (\<lambda>_. Some (Some (reverse_handler :: (string \<times> string) list context_view \<Rightarrow> _)))) rs
       [\<lparr>sp_msg = None, sp_data = \<lparr>dp_header = io_header_new 3 9, dp_body = [2, 1]\<rparr>\<rparr>]"
  using responses_answer_requests [OF flat_buffer_laws_byte_buffer demo_connection_reachable] demo_connection_state
  by (simp add: is_response_def requests_of_def del: connection_run.simps)

text \<open>C3: what a client hands to a waiting caller is the answer to a request it sent. When a frame with a result id
  arrives at a client that is still reading and does not listen on the call id, there is a request of the client
  which the server has received, with this call id and this result id, such that the bytes
  delivered to the cache under the result id are what the bound function made of the bytes of that request.\<close>

theorem deliveries_answer_requests:
  fixes B :: "'b flat_buffer" and cn :: "('b, 'h) connection"
  assumes laws: "flat_buffer_laws B" and reach: "reachable (connection_start B H) (connection_step B e mem funcs bfuncs) cn"
    and step: "connection_step B e mem funcs bfuncs cn (Cn_answer now b) cn'" and reading: "\<not> client_stopped (cn_client cn)"
    and frame: "message_of B e b = (h, body)" "result_id h \<noteq> 0" "bfuncs (call_id h) = None"
  shows "(\<exists>rest. fb_bytes B rest = body \<and> cs_cache (cn_client cn') =
      cache_run B [Op_swap_notify (result_id h) rest, Op_remove_obsolete now] (cs_cache (cn_client cn))) \<and>
    (\<exists>r \<in> set (take (cn_received cn) (requests_of mem (cn_requests cn))). \<exists>f v. fst r = h \<and>
      funcs (call_id h) = Some (Some f) \<and> cv_data v = snd r \<and> body = handler_response (f v) [])"
proof -
  have inv: "connection_inv B e H mem funcs bfuncs cn" using reach by (rule connection_sys.reachable_inv)
  have en: "arrives B b (frames_of_server cn) (cn_arrived cn)" and
    cn': "cn_client cn' = client_run B e [Ev_read bfuncs now No_error b] (cn_client cn)"
    using step by (auto simp: connection_step_iff)
  obtain s sevs where s: "server_part B e H mem funcs cn s sevs" using inv by (auto simp: connection_inv_def)
  obtain q where q: "frames_of_server cn = map (server_wire_of e) (take q (cn_pushes cn))"
    using server_run_ordered [of B H s e B funcs sevs] s
    by (auto simp: server_part_def so.ordered_def frames_of_server_def)
  then obtain m where m: "m \<in> set (cn_pushes cn)" "fb_bytes B b = message_frame e (pushed m)"
    using en by (auto simp: arrives_def server_wire_frame in_set_conv_nth)
  then have pm: "pushed m = (h, body)" using message_of_frame [OF laws m(2)] frame(1) by simp
  have "is_response m"
    using responses_answer [OF laws inv] m(1) frame(2) pm by (auto simp: is_broadcast_def pushed_def)
  with m(1) have "m \<in> set (filter is_response (cn_pushes cn))" by simp
  moreover obtain rs where rs: "subseq rs (take (cn_received cn) (requests_of mem (cn_requests cn)))"
    "list_all2 (answers funcs) rs (filter is_response (cn_pushes cn))"
    using responses_answer [OF laws inv] by blast
  ultimately obtain r where "r \<in> set rs" "answers funcs r m" by (metis in_set_conv_nth list_all2_conv_all_nth)
  moreover from this(1) rs(1) have "r \<in> set (take (cn_received cn) (requests_of mem (cn_requests cn)))"
    by (auto simp: subseq_conv_nths dest: in_set_nthsD)
  moreover have "\<exists>rest. fb_bytes B rest = body \<and> cs_cache (cn_client cn') =
      cache_run B [Op_swap_notify (result_id h) rest, Op_remove_obsolete now] (cs_cache (cn_client cn))"
    unfolding cn' using m(2) pm reading frame(3)
    by (intro read_delivers [OF laws]) (auto simp: message_frame_def client_stopped_def)
  ultimately show ?thesis using pm by (fastforce simp: answers_def pushed_def)
qed

theorem deliveries_answer_requests_witness:
  "\<exists>rest. fb_bytes byte_buffer rest = [2, 1] \<and>
     cs_cache (cn_client (connection_exec byte_buffer Little (\<lambda>_. Some (Some reverse_handler)) (\<lambda>_. None)
       (Cn_answer 5 (io_header_bytes Little (io_header_new 3 9) @ [2, 1])) demo_connection)) =
     cache_run byte_buffer [Op_swap_notify 9 rest, Op_remove_obsolete 5] (cs_cache (cn_client demo_connection))"
proof -
  let ?b = "io_header_bytes Little (io_header_new 3 9) @ [2, 1]"
  have "connection_step byte_buffer Little (\<lambda>_ _ _. [1, 2]) (\<lambda>_. Some (Some reverse_handler)) (\<lambda>_. None) demo_connection
      (Cn_answer 5 ?b) (connection_exec byte_buffer Little (\<lambda>_. Some (Some reverse_handler)) (\<lambda>_. None) (Cn_answer 5 ?b)
        demo_connection)"
    using demo_connection_state
    by (intro connection_stepI) (simp add: arrives_def client_stopped_def del: connection_run.simps)
  moreover have "message_of byte_buffer Little ?b = (io_header_new 3 9, [2, 1])"
    by (rule message_of_frame [OF flat_buffer_laws_byte_buffer]) (simp add: message_frame_def)
  ultimately show ?thesis
    using deliveries_answer_requests [OF flat_buffer_laws_byte_buffer demo_connection_reachable, where b = ?b and now = 5]
      demo_connection_state
    by (simp add: io_header_new_def del: connection_run.simps connection_exec.simps)
qed

end
