(* ===== verification/Spec2Isabelle.thy ===== *)
theory Spec2Isabelle
  imports Cache_Lifetime Example_Programs Connection
begin

text \<open>
  radrpc is a header-only C++ library for remote calls over websockets, plain or with TLS. A \<^verbatim>\<open>server\<close>
  binds handlers to 32-bit ids and runs them for the sessions of its clients; a \<^verbatim>\<open>client\<close> sends bytes
  to an id, with or without waiting for a response, and listens on ids the server broadcasts to.
  This library models the code under \<^verbatim>\<open>src/include/radrpc\<close> and the programs of \<^verbatim>\<open>src/examples\<close>, and proves the properties that make it correct.

  \<^bold>\<open>The parts and the theories.\<close>

  \<^item> \<^verbatim>\<open>types.hpp\<close>, \<^verbatim>\<open>config.hpp\<close>: constants, connection states, configurations, the receive buffer
    wrapper (\<open>Radrpc_Types\<close>). \<open>Radrpc_Prelude\<close> has the machine types (a duration and a time point are 64-bit
    words read with \<^const>\<open>sint\<close>), error codes, association lists for the maps of the sources,
    and reachability with its invariant rule as a locale.
  \<^item> \<^verbatim>\<open>detail/data.hpp\<close>: the packed \<^verbatim>\<open>io_header\<close> and its bytes in either byte order
    (\<open>Io_Header\<close>), the cache of awaited responses (\<open>Data_Cache\<close>: the table leads to shared rows, so a
    function that waits keeps its row after the entry has gone), the shared pointers to these rows, counted
    one by one, with their deleters (\<open>Cache_Lifetime\<close>) and the send queue of a client (\<open>Data_Queue\<close>).
  \<^item> \<^verbatim>\<open>detail/operations.hpp\<close>: posting to an executor and the thread-local timeouts (\<open>Operations\<close>).
  \<^item> \<^verbatim>\<open>impl/client/client_session.hpp\<close>: \<^verbatim>\<open>client_session\<close> (\<open>Client_Session\<close>) and \<^verbatim>\<open>session_connect\<close>
    (\<open>Session_Connect\<close>). A session is a record; each handler of the io thread is a function on it, and
    \<open>client_step\<close> and \<open>connect_step\<close> are the steps the io thread and the callers can take.
  \<^item> \<^verbatim>\<open>client.hpp\<close>: \<^verbatim>\<open>client\<close> (\<open>Client\<close>). Its functions block and throw: they return an \<open>outcome\<close>.
    They block in \<^verbatim>\<open>run()\<close> and in the join of a thread that does not end. The expiry of the weak reference to the
    session and the end of its deleter, which sets \<^verbatim>\<open>m_expired\<close>, are two steps, with the other threads between them.
  \<^item> \<^verbatim>\<open>impl/server/server_session.hpp\<close>: \<^verbatim>\<open>session_context\<close> and \<^verbatim>\<open>server_session\<close>
    (\<open>Server_Session\<close>), \<^verbatim>\<open>session_manager\<close> (\<open>Session_Manager\<close>), \<^verbatim>\<open>session_accept\<close> (\<open>Session_Accept\<close>)
    and \<^verbatim>\<open>detect_session\<close> (\<open>Listener\<close>). All the sessions of a server with the manager they share
    form one state, the pool, because the manager counts the references to itself.
  \<^item> \<^verbatim>\<open>impl/server/listener.hpp\<close> (\<open>Listener\<close>) and \<^verbatim>\<open>server.hpp\<close> (\<open>Server\<close>), whose state has the
    worker threads and wraps the listener, which wraps the pool.
  \<^item> Both decorators of handshakes are in \<open>Handshake\<close>; \<open>Stream_Ops\<close> records the operations a
    session has started on its stream and its timer, and \<open>Write_Order\<close> has what both kinds of sessions share
    of queueing and writing, \<open>Read_Order\<close> what they share of reading. \<open>Rpc_Exchange\<close> puts a client
    session and a server session together for one call, and \<open>Connection\<close> for all of a connection: its
    state holds both sessions and the frames between them, its steps are those of both and the arrivals.
  \<^item> \<^verbatim>\<open>src/examples\<close>: the programs that show the documented use of the library (\<open>Example_Programs\<close>).

  \<^bold>\<open>The environment.\<close> Streams, resolvers, timers and the executor belong to the networking library.
  The model records the operations in progress; which of them completes next, when, and with
  which error code is chosen by the events of the step relations, without restriction. Buffers and header
  fields of the library are parameters (\<open>flat_buffer\<close>, \<open>http_fields\<close>) with the laws their
  documentation states, and an instance of each for the witnesses. A bound handler of a server is any
  function from what it can read to the changes it makes; a broadcast handler of a client is any
  function on its buffer. What other threads do while a call waits is an argument of the call; where
  a step relation has such an argument (\<open>call_step\<close> of the client) it is made of steps of the same relation. The
  clock is an argument of the handlers that read it.

  \<^bold>\<open>Interfaces.\<close> \<open>invariant_system\<close> (reachability) is interpreted for every step relation;
  \<open>write_pipeline\<close> and \<open>ordered_events\<close> (one write at a time, in order) for the sessions of both sides,
  and so is \<open>frame_reader\<close>, which extends the latter (a received frame calls its handler, in the order of arrival);
  \<open>response_store\<close> (what a delivery does to the ids) for the cache; \<open>session_table\<close> for the two
  tables of the manager; \<open>thread_setting\<close> for the two thread-local timeouts.

  \<^bold>\<open>What is shown.\<close>

  \<^item> A call: the bytes of the caller reach the bound handler and its answer is what the call of the
    client returns; what an empty answer does.
  \<^item> A connection: in every reachable state calls have reached the handlers of the server in the order of the
    send queue of the client, broadcasts those of the client in the order of the server's; every response
    answers one request, and what a client hands to a waiting caller is the answer to its request.
  \<^item> Sessions: both kinds keep the rules of the stream in every reachable state and write in the order of
    their queues; what a received frame does, on every branch; how a session ends; how pings close it.
  \<^item> The cache: it keeps its capacity under every interleaving, implements a store of responses in which exactly the expired
    entries are obsolete, hands a response to its waiter, and what expiry, clearing and time-outs do to waiters; its rows
    are deleted exactly when the last shared pointer to them goes, and each callback given with a row is then called once.
  \<^item> Connecting and accepting: the promise is set once, \<^verbatim>\<open>run()\<close> returns and names the stage, the
    accept sequence establishes a session exactly when its stages succeed, with the limits and timeouts that were decided.
  \<^item> The manager: the tables list the established sessions, a broadcast reaches exactly those it names
    and equals one pass over the sessions, and what \<^verbatim>\<open>connections()\<close> counts.
  \<^item> The listener and the server: bounds on sessions, handlers fixed while workers run, threads
    joined, \<^verbatim>\<open>stop()\<close> returns.
  \<^item> The client: how its session, its mark and the deleter go together in every reachable state, what the attempts of
    \<^verbatim>\<open>connect\<close> result in, and that \<^verbatim>\<open>send\<close> and \<^verbatim>\<open>send_recv\<close> run their attempts like a machine with two states.
  \<^item> The examples: the echo pairs print what was entered, the advanced pair agrees on its handshake,
    its broadcast commands reach the sessions they are for, and its shutdown command lets the workers of the server leave,
    which nothing else did.
  \<^item> Several theorems state behaviour that differs from the comments of the sources or from what a
    user would expect; each says so in its text.

  \<^bold>\<open>Bounds and loops.\<close> Every loop of the sources is structural recursion on the list it walks or on the
  attempts that are left, so no fuel is needed. A call that may wait without end has \<open>None\<close> or
  \<open>Blocked\<close> for not returning, and the theorems that it returns say when. Ids of the cache are unique
  for fewer than \<open>2 ^ 64 - 1\<close> operations, which the theorems assume; the counters and durations are words, and
  wrap.

  \<^bold>\<open>Not modelled.\<close> The networking library and OpenSSL (not part of the sources); logging
  (\<^verbatim>\<open>debug.hpp\<close>), which only prints; what the examples print and read at the terminal; the tests and
  tools. The handlers of one session run one at a time (they are on a
  strand, or on the one io thread of a client), so data races inside a session are not in the
  model; that a call on a client made from its own io thread blocks itself is not either. A wait under a limit that is never
  passed (the default \<^verbatim>\<open>duration::max()\<close>) ends only when what it waits for happens: the functions of a client session
  are modelled for the waits that end. When \<^verbatim>\<open>run()\<close> of a connection attempt returns, the handler that set its promise is taken to
  have given up its reference to the session.
\<close>

section \<open>A call\<close>

text \<open>C1: a remote call returns the handler's answer. \<^verbatim>\<open>send_recv\<close> of a connected client writes the header
  and the caller's bytes; when a session of the server receives exactly these bytes, it calls the handler
  the server bound to the call id with the caller's bytes; when the client receives what that session
  wrote, \<^verbatim>\<open>send_recv\<close> returns, at its first attempt, exactly the bytes the handler answered, whatever the
  result id, the byte order, the configured attempts and the other sessions of the server are.\<close>

theorem client_call_returns_answer:
  fixes B :: "'b flat_buffer" and E :: "nat \<Rightarrow> ('b, 'h) client_env" and p :: "('b, 'g) accept_pool"
  assumes laws: "flat_buffer_laws B"
    and client: "client_wf c" "\<not> ci_exit (ce_before (E 0) c)" "ci_session (ce_before (E 0) c) = Some sn"
      "client_idle e (sn_session sn)" "so_reads (cs_stream (sn_session sn)) \<noteq> 0" "map_of (ci_bound_funcs c) k = None"
    and cache: "ids_bounded (cs_cache (sn_session sn))" "unat (dc_id_counter (cs_cache (sn_session sn))) < 2 ^ 64 - 1"
      "length (dc_entries (cs_cache (sn_session sn))) < dc_max_entries (cs_cache (sn_session sn))"
    and server: "map_of (pl_sessions p) j = Some ss" "server_ready ss"
      "map_of (sm_bound_funcs (pl_manager p)) k = Some (Some f)" "Ctx_close \<notin> set (f (handler_view (mem d n) ss))"
      "handler_response (f (handler_view (mem d n) ss)) [] \<noteq> []"
    and queued: "data_cache_queue B (ce_now (E 0)) (ct_response_timeout (cs_client_timeout (sn_session sn)) * 2)
        (cs_cache (sn_session sn)) = (rid, cache)"
      "post_send k rid d n ((sn_session sn)\<lparr>cs_cache := cache\<rparr>) = (promise, posted)"
    and request: "ce_io (E 0) = (\<lambda>_. client_run B e [Ev_posted, Ev_wrote No_error])"
      "fb_bytes B req = client_frame mem
         (last (so_started (cs_stream (client_run B e [Ev_posted, Ev_wrote No_error] posted))))"
    and answer: "map_of (pl_sessions (pool_exec B H e (Pl_session j (Sv_read now1 No_error req)) p)) j = Some ss'"
      "fb_bytes B rep = last (so_started (ss_stream ss'))"
      "ce_response (E 0) = (\<lambda>_. client_run B e [Ev_read (map_of (ci_bound_funcs c)) now2 No_error rep])"
  shows "\<exists>b t' c'. client_send_recv B E k d n t c = Returned (b, t') c' \<and>
    fb_bytes B b = handler_response (f (handler_view (mem d n) ss)) []"
proof -
  obtain m where "unat (cc_send_attempts (ci_client_cfg c)) = Suc m"
    using client(1) by (cases "unat (cc_send_attempts (ci_client_cfg c))") (auto simp: client_wf_def unat_eq_zero)
  moreover have "ss' = server_exec B e (map_of (sm_bound_funcs (pl_manager p))) (Sv_read now1 No_error req) ss"
    using answer(1) pool_session_exec [OF server(1), of B H e "Sv_read now1 No_error req"] by simp
  with session_call_answered [where cs = "sn_session sn" and recv = "fb_new B" and t = t and now = "ce_now (E 0)"
      and bfuncs = "map_of (ci_bound_funcs c)" and sfuncs = "map_of (sm_bound_funcs (pl_manager p))" and ss = ss
      and f = f and mem = mem and d = d and n = n, OF laws client(4,5,6) cache server(2-5) queued(2,1) request(2)] answer(2)
  obtain b t' s' where "client_session_send_recv B (ce_now (E 0)) (ce_io (E 0)) (ce_response (E 0)) k d n (fb_new B) t
      (sn_session sn) = (No_error, b, t', s')" "fb_bytes B b = handler_response (f (handler_view (mem d n) ss)) []"
    unfolding request(1) answer(3) by blast
  ultimately show ?thesis using first_attempt_answers [of c _ E sn] client(2,3) by blast
qed

text \<open>A server that answers with the bytes reversed, and a client with two attempts connected to it.\<close>

abbreviation connected_session :: "(u8 list, (string \<times> string) list) session_connect" where
  "connected_session \<equiv> (session_connect_new byte_buffer False client_config_default client_timeout_default duration_max [])
     \<lparr>sn_session := client_read (client_session_new byte_buffer client_timeout_default)\<rparr>"

abbreviation connected_client :: "(u8 list, (string \<times> string) list) client" where
  "connected_client \<equiv> (demo_client 2)\<lparr>ci_expired := False, ci_io_worker := True, ci_session := Some connected_session\<rparr>"

lemma reverse_server_ready:
  "\<exists>(p :: (u8 list, (string \<times> string) list) accept_pool) ss. pl_sessions p = [(4, ss)] \<and> server_ready ss \<and>
     sm_bound_funcs (pl_manager p) = [(3, Some reverse_handler)]"
  by (rule exI [of _ "(pool_run byte_buffer list_http Big demo_accept demo_start)\<lparr>pl_manager :=
       (session_manager_new server_config_default)\<lparr>sm_bound_funcs := [(3, Some reverse_handler)]\<rparr>\<rparr>"])
    (simp add: pool_eval server_ready_def server_accepts_def duration_zero_def queue_send_max_def)

theorem client_call_returns_answer_witness:
  "\<exists>b t' c'. client_send_recv byte_buffer
      (\<lambda>_. idle_env\<lparr>ce_io := \<lambda>_. client_run byte_buffer Little [Ev_posted, Ev_wrote No_error],
         ce_response := \<lambda>_. client_run byte_buffer Little
           [Ev_read (map_of (ci_bound_funcs connected_client)) 0 No_error (io_header_bytes Little (io_header_new 3 1) @ [2, 1])]\<rparr>)
      3 64 2 tls_new connected_client = Returned (b, t') c' \<and> b = [2, 1]"
proof -
  let ?rep = "io_header_bytes Little (io_header_new 3 1) @ [2, 1]" and ?req = "io_header_bytes Little (io_header_new 3 1) @ [1, 2]"
  let ?E = "\<lambda>_ :: nat. idle_env\<lparr>ce_io := \<lambda>_. client_run byte_buffer Little [Ev_posted, Ev_wrote No_error],
         ce_response := \<lambda>_. client_run byte_buffer Little [Ev_read (map_of (ci_bound_funcs connected_client)) 0 No_error ?rep]\<rparr>"
  let ?cs = "sn_session connected_session" and ?mem = "\<lambda>_ _. [1, 2] :: u8 list"
  let ?c = "snd (data_cache_queue byte_buffer 0 (ct_response_timeout client_timeout_default * 2) (data_cache_new queue_recv_max))"
  let ?p = "snd (post_send 3 1 64 2 (?cs\<lparr>cs_cache := ?c\<rparr>))"
  obtain p :: "(u8 list, (string \<times> string) list) accept_pool" and ss where
    ss: "pl_sessions p = [(4, ss)]" "server_ready ss" "sm_bound_funcs (pl_manager p) = [(3, Some reverse_handler)]"
    using reverse_server_ready by blast
  let ?ss' = "server_exec byte_buffer Little (map_of (sm_bound_funcs (pl_manager p))) (Sv_read 0 No_error ?req) ss"
  have "client_wf connected_client" by (simp add: client_wf_def demo_client_sel session_held_def client_read_def)
  moreover have "client_idle Little ?cs" "so_reads (cs_stream ?cs) \<noteq> 0"
    using client_inv_new [of Little byte_buffer client_timeout_default]
    by (simp_all add: client_idle_def client_eval client_inv_def cache_inv_new)
  moreover have "ids_bounded (cs_cache ?cs)" "unat (dc_id_counter (cs_cache ?cs)) < 2 ^ 64 - 1"
    "length (dc_entries (cs_cache ?cs)) < dc_max_entries (cs_cache ?cs)"
    by (simp_all add: client_read_def client_session_new_def data_cache_new_def ids_bounded_def queue_recv_max_def)
  moreover have "data_cache_queue byte_buffer 0 (ct_response_timeout (cs_client_timeout ?cs) * 2) (cs_cache ?cs) = (1, ?c)"
    by (simp add: client_read_def client_session_new_def data_cache_queue_def data_cache_new_def queue_recv_max_def Let_def)
  moreover have "post_send 3 1 64 2 (?cs\<lparr>cs_cache := ?c\<rparr>) = (0, ?p)"
    by (simp add: post_send_def client_read_def client_session_new_def Let_def)
  moreover have "fb_bytes byte_buffer ?req = client_frame ?mem
      (last (so_started (cs_stream (client_run byte_buffer Little [Ev_posted, Ev_wrote No_error] ?p))))"
    by (simp add: client_eval client_wire_of_def)
  moreover have "map_of (pl_sessions (pool_exec byte_buffer list_http Little (Pl_session 4 (Sv_read 0 No_error ?req))
      p)) 4 = Some ?ss'"
    by (rule pool_session_exec) (simp add: ss(1))
  moreover have "fb_bytes byte_buffer ?rep = last (so_started (ss_stream ?ss'))"
    using answer_written [OF flat_buffer_laws_byte_buffer ss(2), of ?req Little "io_header_new 3 1" "[1, 2]"
        "map_of (sm_bound_funcs (pl_manager p))" reverse_handler 0]
    by (simp add: ss(3) handler_view_def io_header_new_def del: server_exec.simps)
  ultimately show ?thesis
    using client_call_returns_answer [of byte_buffer connected_client ?E connected_session Little 3 p 4 ss
        reverse_handler ?mem 64 2 1 ?c 0 ?p ?req list_http 0 ?ss' ?rep 0 tls_new] ss(2)
    by (simp add: ss(1,3) handler_view_def idle_env_def demo_client_sel del: server_exec.simps client_run.simps pool_exec.simps)
qed

text \<open>C32: an empty answer is no answer. When the handler of a call leaves its response empty the server
  session writes and queues nothing, so the caller, whom nothing else reaches, waits for the whole
  response timeout and \<^verbatim>\<open>send_recv\<close> of the session reports a timeout with the empty buffer. A caller cannot tell an
  empty answer from a lost one, and the client drops the connection after it.\<close>

theorem empty_answer_times_out:
  fixes B :: "'b flat_buffer"
  assumes laws: "flat_buffer_laws B"
    and client: "client_idle e cs" "so_reads (cs_stream cs) \<noteq> 0"
    and cache: "ids_bounded (cs_cache cs)" "unat (dc_id_counter (cs_cache cs)) < 2 ^ 64 - 1"
      "length (dc_entries (cs_cache cs)) < dc_max_entries (cs_cache cs)"
    and server: "server_ready ss" "sfuncs k = Some (Some f)" "handler_response (f (handler_view (mem d n) ss)) [] = []"
    and posted: "post_send k rid d n (cs\<lparr>cs_cache := c\<rparr>) = (p, posted)"
    and rid: "data_cache_queue B now (ct_response_timeout (cs_client_timeout cs) * 2) (cs_cache cs) = (rid, c)"
    and request: "fb_bytes B req = client_frame mem
      (last (so_started (cs_stream (client_run B e [Ev_posted, Ev_wrote No_error] posted))))"
  shows "so_started (ss_stream (server_exec B e sfuncs (Sv_read now1 No_error req) ss)) = so_started (ss_stream ss) \<and>
    ss_queue (server_exec B e sfuncs (Sv_read now1 No_error req) ss) = [] \<and>
    (\<exists>t' cs'. client_session_send_recv B now (\<lambda>_. client_run B e [Ev_posted, Ev_wrote No_error]) (\<lambda>_ s. s) k d n recv t cs =
      (Timed_out, fb_new B, t', cs'))"
proof -
  let ?c1 = "client_run B e [Ev_posted, Ev_wrote No_error] posted"
  note r = call_request [OF client cache posted rid]
  have "sfuncs (call_id (io_header_new k rid)) = Some (Some f)" using server(2) by (simp add: io_header_new_def)
  note omitted = answer_omitted [OF laws server(1) request [unfolded r(9)], where funcs = sfuncs and f = f and now = now1, OF this server(3)]
  obtain s' where w: "session_wait (\<lambda>s. s) rid recv ?c1 = (False, fb_new B, s')"
    using wait_unanswered [of ?c1 rid "fb_new B" recv] r(2-4,7) by auto
  from send_recv_eq [OF rid r(1) posted, of "client_run B e [Ev_posted, Ev_wrote No_error]", OF r(8) w, of t] omitted
  show ?thesis by (simp add: prod_eq_iff del: client_run.simps server_exec.simps)
qed

theorem empty_answer_times_out_witness:
  "\<exists>t' cs'. client_session_send_recv byte_buffer 0 (\<lambda>_. client_run byte_buffer Little [Ev_posted, Ev_wrote No_error])
      (\<lambda>_ s. s) 3 64 2 [] tls_new (client_read (client_session_new byte_buffer client_timeout_default)) =
      (Timed_out, [], t', cs')"
proof -
  let ?cs = "client_read (client_session_new byte_buffer client_timeout_default)"
  let ?mem = "\<lambda>_ _. [1, 2] :: u8 list" and ?req = "io_header_bytes Little (io_header_new 3 1) @ [1, 2]"
  let ?c = "snd (data_cache_queue byte_buffer 0 (ct_response_timeout client_timeout_default * 2) (data_cache_new queue_recv_max))"
  let ?p = "snd (post_send 3 1 64 2 (?cs\<lparr>cs_cache := ?c\<rparr>))"
  have "client_idle Little ?cs" "so_reads (cs_stream ?cs) \<noteq> 0"
    using client_inv_new [of Little byte_buffer client_timeout_default]
    by (simp_all add: client_idle_def client_eval client_inv_def cache_inv_new)
  moreover have "server_ready (demo_session 0)"
    by (simp add: server_ready_def server_accepts_def server_read_def arm_timer_def server_session_new_def
        duration_zero_def queue_send_max_def)
  moreover have "ids_bounded (cs_cache ?cs)" "unat (dc_id_counter (cs_cache ?cs)) < 2 ^ 64 - 1"
    "length (dc_entries (cs_cache ?cs)) < dc_max_entries (cs_cache ?cs)"
    by (simp_all add: client_read_def client_session_new_def data_cache_new_def ids_bounded_def queue_recv_max_def)
  moreover have "data_cache_queue byte_buffer 0 (ct_response_timeout (cs_client_timeout ?cs) * 2) (cs_cache ?cs) = (1, ?c)"
    by (simp add: client_read_def client_session_new_def data_cache_queue_def data_cache_new_def queue_recv_max_def Let_def)
  moreover have "post_send 3 1 64 2 (?cs\<lparr>cs_cache := ?c\<rparr>) = (0, ?p)"
    by (simp add: post_send_def client_read_def client_session_new_def Let_def)
  moreover have "fb_bytes byte_buffer ?req = client_frame ?mem
      (last (so_started (cs_stream (client_run byte_buffer Little [Ev_posted, Ev_wrote No_error] ?p))))"
    by (simp add: client_eval client_wire_of_def)
  ultimately show ?thesis
    using empty_answer_times_out [of byte_buffer Little ?cs "demo_session 0" "\<lambda>_. Some (Some (\<lambda>v. []))" 3 "\<lambda>v. []" ?mem 64 2
        1 ?c 0 ?p 0 ?req 0 "[]" tls_new]
    by simp
qed

section \<open>A broadcast\<close>

text \<open>C14: a broadcast reaches the handlers of the clients. In every reachable state of a server in which
  fewer broadcasts than allowed are queued, \<^verbatim>\<open>broadcast\<close> makes each established session it names (all of
  them without a list of ids) that is idle write one frame when its posted handler runs; a client that
  receives this frame and listens on the id calls its handler once, with exactly the bytes of the broadcast.\<close>

theorem broadcast_reaches_handler:
  fixes B :: "'b flat_buffer" and c :: "('b, 'h) client" and p :: "('b, 'g) accept_pool"
  assumes laws: "flat_buffer_laws B" and server: "reachable system_start (pool_step B H e) p"
      "sm_msg_queued (pl_manager p) < int queue_send_max"
    and session: "map_of (pl_sessions p) j = Some ss" "sa_established ss" "ids = None \<or> ids = Some is \<and> cx_id ss \<in> set is"
      "server_accepts ss" "ss_queue ss = []" "ss_posted ss = []"
    and written: "map_of (pl_sessions (pool_exec B H e (Pl_session j Sv_posted)
        (pool_exec B H e (Pl_broadcast cid bytes ids) p))) j = Some ss'"
      "fb_bytes B b = last (so_started (ss_stream ss'))"
    and client: "map_of (ci_bound_funcs c) cid = Some (Some h)" "\<not> cs_close_received s" "so_reads (cs_stream s) \<noteq> 0"
  shows "so_started (ss_stream ss') = so_started (ss_stream ss) @ [io_header_bytes e (io_header_new cid 0) @ bytes] \<and>
    cs_broadcasts (client_run B e [Ev_read (map_of (ci_bound_funcs c)) now No_error b] s) = cs_broadcasts s @ [(cid, bytes)]"
proof -
  let ?m = "\<lparr>sp_msg = Some (pl_next_message p), sp_data = \<lparr>dp_header = io_header_new cid 0, dp_body = bytes\<rparr>\<rparr>"
  have inv: "accept_pool_inv e p" using pool_sys.reachable_inv [OF server(1)] by (simp add: system_inv_def)
  have "pl_sessions p \<noteq> []" using session(1) by auto
  from broadcast_live [OF inv server(2) this, of cid bytes ids j] session(1-3)
  have "map_of (pl_sessions (pool_exec B H e (Pl_broadcast cid bytes ids) p)) j = Some (server_session_send ?m ss)"
    by auto
  from pool_session_exec [OF this, of B H e Sv_posted] written(1)
  have "ss' = server_exec B e (map_of (sm_bound_funcs (pl_manager (pool_exec B H e (Pl_broadcast cid bytes ids) p)))) Sv_posted
      (server_session_send ?m ss)"
    by (simp only: option.inject)
  then have started: "so_started (ss_stream ss') = so_started (ss_stream ss) @ [server_wire_of e ?m]"
    by (simp only: posted_written [OF session(4-6)])
  then have "fb_bytes B b = io_header_bytes e (io_header_new cid 0) @ bytes"
    using written(2) by (simp add: server_wire_of_def)
  from read_calls_handler [OF laws this, of "map_of (ci_bound_funcs c)" s now] client started show ?thesis
    by (simp add: server_wire_of_def is_bound_def io_header_new_def)
qed

theorem broadcast_reaches_handler_witness:
  "cs_broadcasts (client_run byte_buffer Big
      [Ev_read (map_of (ci_bound_funcs (connected_client\<lparr>ci_bound_funcs := [(5, Some (\<lambda>b. b))]\<rparr>))) 0 No_error
        (io_header_bytes Big (io_header_new 5 0) @ [1])]
      (sn_session connected_session)) = [(5, [1])]"
proof -
  let ?p = "pool_run byte_buffer list_http Big demo_accept demo_start"
  let ?q = "pool_exec byte_buffer list_http Big (Pl_broadcast 5 [1] (Some [7])) ?p"
  let ?b = "io_header_bytes Big (io_header_new 5 0) @ [1]"
  have reach: "reachable system_start (pool_step byte_buffer list_http Big) ?p"
    by (rule pool_run_reachable, rule reachable.reach_init) (rule demo_system_start)
  have ready: "\<exists>s. pl_sessions ?p = [(4, s)] \<and> sa_established s \<and> cx_id s = 7 \<and> server_accepts s \<and> ss_queue s = [] \<and>
      ss_posted s = [] \<and> so_started (ss_stream s) = []"
    by (simp add: pool_eval server_accepts_def queue_send_max_def)
  from ready obtain ss where ss: "pl_sessions ?p = [(4, ss)]" "sa_established ss" "cx_id ss = 7" "server_accepts ss"
    "ss_queue ss = []" "ss_posted ss = []" "so_started (ss_stream ss) = []" by blast
  let ?m = "\<lparr>sp_msg = Some 0, sp_data = \<lparr>dp_header = io_header_new 5 0, dp_body = [1]\<rparr>\<rparr>"
  let ?ss = "server_session_send ?m ss"
  let ?ss' = "server_exec byte_buffer Big (map_of (sm_bound_funcs (pl_manager ?q))) Sv_posted ?ss"
  have inv: "accept_pool_inv Big ?p" using pool_sys.reachable_inv [OF reach] by (simp add: system_inv_def del: pool_run.simps)
  from broadcast_live [OF inv, of 5 "[1]" "Some [7]" 4]
  have "map_of (pl_sessions ?q) 4 = Some ?ss"
    using ss demo_accept_run(2,3) by (simp add: queue_send_max_def del: pool_run.simps)
  from pool_session_exec [OF this] have "map_of (pl_sessions (pool_exec byte_buffer list_http Big (Pl_session 4 Sv_posted) ?q)) 4 =
      Some ?ss'" .
  moreover have "fb_bytes byte_buffer ?b = last (so_started (ss_stream ?ss'))"
    unfolding posted_written [OF ss(4-6)] by (simp add: ss(7) server_wire_of_def)
  ultimately show ?thesis
    using broadcast_reaches_handler [OF flat_buffer_laws_byte_buffer reach, of 4 ss "Some [7]" "[7]" 5 "[1]" ?ss' ?b
        "connected_client\<lparr>ci_bound_funcs := [(5, Some (\<lambda>b. b))]\<rparr>" "\<lambda>b. b" "sn_session connected_session" 0]
      ss demo_accept_run(2)
    by (simp add: client_eval queue_send_max_def del: pool_run.simps pool_exec.simps server_exec.simps client_run.simps)
qed

end
